(* ===== verification/Prelude.thy ===== *)
theory Prelude
  imports Complex_Main "HOL-Library.Multiset" "HOL-Library.Product_Lexorder"
    "HOL-Library.List_Lexorder" "HOL-Library.Char_ord"
begin

text \<open>
  Shared vocabulary of the development: the names of the model's basic types, the collections
  of rewrite rules its proofs draw on, and generic facts about lists, maps, insertion into
  sorted lists and rounding that several components need.
\<close>

section \<open>Names and collections\<close>

type_synonym jobid = string
type_synonym key = string
type_synonym ms = int

named_theorems prog_simps \<open>unfolding the combinators of effectful programs\<close>
named_theorems key_simps \<open>the Redis key names of the platform and their inequalities\<close>

section \<open>Options\<close>

text \<open>\<open>a ?? b\<close> of the source.\<close>

fun the_default :: "'a \<Rightarrow> 'a option \<Rightarrow> 'a" where
  "the_default d None = d"
| "the_default d (Some a) = a"

section \<open>Numbers as text\<close>

text \<open>\<open>String(n)\<close> of an integer: its decimal digits.\<close>

definition show_digit :: "nat \<Rightarrow> char" where
  "show_digit n = char_of (48 + n)"

fun show_nat :: "nat \<Rightarrow> string" where
  "show_nat n = (if n < 10 then [show_digit n] else show_nat (n div 10) @ [show_digit (n mod 10)])"

declare show_nat.simps [simp del]

definition show_int :: "int \<Rightarrow> string" where
  "show_int i = (if i < 0 then CHR ''-'' # show_nat (nat (- i)) else show_nat (nat i))"

definition is_digit :: "char \<Rightarrow> bool" where
  "is_digit c \<longleftrightarrow> 48 \<le> (of_char c :: nat) \<and> (of_char c :: nat) \<le> 57"

text \<open>The number that decimal digits denote; rendering and reading are inverse.\<close>

definition digits_value :: "string \<Rightarrow> nat" where
  "digits_value ds = foldl (\<lambda>a c. 10 * a + (of_char c - 48)) 0 ds"

lemma show_digit_value: "n < 10 \<Longrightarrow> of_char (show_digit n) - 48 = n"
  by (simp add: show_digit_def)

lemma show_nat_value: "digits_value (show_nat n) = n"
proof (induction n rule: show_nat.induct)
  case (1 n)
  show ?case
  proof (cases "n < 10")
    case True
    then show ?thesis by (subst show_nat.simps) (simp add: digits_value_def show_digit_value)
  next
    case False
    with 1 show ?thesis by (subst show_nat.simps) (simp add: digits_value_def show_digit_value)
  qed
qed

lemma show_nat_digits: "set (show_nat n) \<subseteq> show_digit ` {0..<10}"
proof (induction n rule: show_nat.induct)
  case (1 n)
  then show ?case by (subst show_nat.simps) auto
qed

lemma show_nat_is_digits: "list_all is_digit (show_nat n)"
proof -
  have "is_digit (show_digit k)" if "k < 10" for k
    using that by (simp add: is_digit_def show_digit_def)
  then show ?thesis using show_nat_digits [of n] by (auto simp: list_all_iff)
qed

lemma digit_codes: "c \<in> show_digit ` {0..<10} \<Longrightarrow> c \<noteq> CHR ''.'' \<and> c \<noteq> CHR ''-''"
proof -
  assume "c \<in> show_digit ` {0..<10}"
  then obtain n where n: "n < 10" "c = show_digit n" by auto
  then have "of_char c = 48 + n" by (simp add: show_digit_def)
  then show ?thesis by auto
qed

lemma show_int_no_dot: "CHR ''.'' \<notin> set (show_int i)"
proof -
  have "CHR ''.'' \<notin> set (show_nat n)" for n
    using show_nat_digits [of n] digit_codes [of "CHR ''.''"] by auto
  then show ?thesis by (simp add: show_int_def)
qed

lemma show_int_inject: "show_int i = show_int k \<longleftrightarrow> i = k"
proof -
  have ne: "CHR ''-'' # xs \<noteq> show_nat n" for xs n
    using show_nat_digits [of n] digit_codes by (metis insert_subset list.simps(15))
  have inj: "show_nat a = show_nat b \<longleftrightarrow> a = b" for a b by (metis show_nat_value)
  show ?thesis using ne ne [symmetric] by (auto simp: show_int_def inj split: if_splits)
qed

lemma show_nat_nonempty [simp]: "show_nat n \<noteq> []"
  by (subst show_nat.simps) simp

section \<open>Lists\<close>

lemma set_butlast_last: "xs \<noteq> [] \<Longrightarrow> insert (last xs) (set (butlast xs)) = set xs"
  by (metis append_butlast_last_id list.simps(15) rotate1.simps(2) set_rotate1)

lemma in_butlast_iff: "xs \<noteq> [] \<Longrightarrow> x \<noteq> last xs \<Longrightarrow> x \<in> set (butlast xs) \<longleftrightarrow> x \<in> set xs"
  by (metis insert_iff set_butlast_last)

lemma rev_last_butlast: "xs \<noteq> [] \<Longrightarrow> rev xs = last xs # rev (butlast xs)"
  by (induction xs rule: rev_induct) auto

lemma mset_butlast_last: "xs \<noteq> [] \<Longrightarrow> add_mset (last xs) (mset (butlast xs)) = mset xs"
  by (metis add_mset_add_single append_butlast_last_id mset.simps mset_append mset_single_iff_right
      union_commute add_mset_add_single union_mset_add_mset_right)

lemma mset_subset_distinct:
  assumes "distinct xs" and "set xs \<subseteq> set ys"
  shows "mset xs \<subseteq># mset ys"
proof (rule mset_subset_eqI)
  fix a
  show "count (mset xs) a \<le> count (mset ys) a"
    using assms by (cases "a \<in> set xs") (auto simp: distinct_count_atmost_1 Suc_le_eq)
qed

lemma mset_take_drop: "mset (take k xs) + mset (drop k xs) = mset xs"
  by (metis append_take_drop_id mset_append)

lemma set_remove1_distinct: "distinct xs \<Longrightarrow> set (remove1 x xs) = set xs - {x}"
  by simp

lemma in_set_remove1_other: "y \<noteq> x \<Longrightarrow> y \<in> set (remove1 x xs) \<longleftrightarrow> y \<in> set xs"
  by simp

lemma sorted_map_takeI: "sorted (map f xs) \<Longrightarrow> sorted (map f (take n xs))"
  by (simp add: take_map [symmetric] sorted_wrt_take)

lemma sorted_map_filterI: "sorted (map f xs) \<Longrightarrow> sorted (map f (filter P xs))"
  by (rule sorted_filter)

lemma distinct_map_takeI: "distinct (map f xs) \<Longrightarrow> distinct (map f (take n xs))"
  by (simp add: take_map [symmetric])

text \<open>A text up to a delimiter that it does not contain can be told apart from what follows.\<close>

lemma append_delim_inject:
  assumes "c \<notin> set xs" and "c \<notin> set xs'"
  shows "xs @ c # ys = xs' @ c # ys' \<longleftrightarrow> xs = xs' \<and> ys = ys'"
  using assms
proof (induction xs arbitrary: xs')
  case Nil
  then show ?case by (cases xs') auto
next
  case (Cons x xs)
  then show ?case by (cases xs') auto
qed

section \<open>Sequences of calls\<close>

text \<open>A component as a function from a call and a state to a reply and the next state; a sequence of
  calls, with the replies in order.\<close>

primrec run_calls :: "('c \<Rightarrow> 's \<Rightarrow> 'a \<times> 's) \<Rightarrow> 'c list \<Rightarrow> 's \<Rightarrow> 'a list \<times> 's" where
  "run_calls f [] s = ([], s)"
| "run_calls f (c # cs) s =
     (fst (f c s) # fst (run_calls f cs (snd (f c s))), snd (run_calls f cs (snd (f c s))))"

lemma run_calls_append:
  "run_calls f (cs @ ds) s =
     (fst (run_calls f cs s) @ fst (run_calls f ds (snd (run_calls f cs s))),
      snd (run_calls f ds (snd (run_calls f cs s))))"
  by (induction cs arbitrary: s) auto

lemma length_run_calls [simp]: "length (fst (run_calls f cs s)) = length cs"
  by (induction cs arbitrary: s) auto

text \<open>A property of the state that no call of a sequence breaks, and the replies it forces.\<close>

lemma run_calls_keeps:
  assumes "I s" and "\<And>c s. c \<in> set cs \<Longrightarrow> I s \<Longrightarrow> I (snd (f c s))"
  shows "I (snd (run_calls f cs s))"
  using assms by (induction cs arbitrary: s) auto

lemma run_calls_reply:
  assumes "I s" and "\<And>c s. c \<in> set cs \<Longrightarrow> I s \<Longrightarrow> I (snd (f c s)) \<and> P c (fst (f c s))"
  shows "list_all2 P cs (fst (run_calls f cs s))"
  using assms by (induction cs arbitrary: s) auto

text \<open>One component implements another when every call keeps their states related and its reply is
  the image of the other's; then so does every sequence of calls.\<close>

locale simulation =
  fixes conc :: "'c \<Rightarrow> 'r \<Rightarrow> 'b \<times> 'r" and abst :: "'c \<Rightarrow> 's \<Rightarrow> 'a \<times> 's"
    and rel :: "'s \<Rightarrow> 'r \<Rightarrow> bool" and shown :: "'a \<Rightarrow> 'b"
  assumes step: "rel s r \<Longrightarrow>
    fst (conc c r) = shown (fst (abst c s)) \<and> rel (snd (abst c s)) (snd (conc c r))"
begin

lemma run_replies: "rel s r \<Longrightarrow> fst (run_calls conc cs r) = map shown (fst (run_calls abst cs s))"
  by (induction cs arbitrary: s r) (auto simp: step)

lemma run_related: "rel s r \<Longrightarrow> rel (snd (run_calls abst cs s)) (snd (run_calls conc cs r))"
  by (induction cs arbitrary: s r) (auto simp: step)

end

section \<open>Rounding\<close>

lemma ceiling_ge_rat: "(q::rat) \<le> of_int \<lceil>q\<rceil>"
  by (rule le_of_int_ceiling)

end
