(* ===== verification/Prog.thy ===== *)
theory Prog
  imports Prelude
begin

text \<open>
  Effectful programs. An \<open>async\<close> function of the platform, and a Lua script that it sends to
  Redis, is a tree: it has returned (\<open>Ret\<close>), has thrown (\<open>Throw\<close>), or issues one command to the
  outside (\<open>Do\<close>) and goes on with the reply. Every \<open>await\<close> of the source is one \<open>Do\<close>, so a tree
  shows exactly the points where other processes may run or this one may die. The errors are the
  classes of \<open>src/src/errors.ts\<close> and one constructor for every other thrown value.
\<close>

section \<open>Errors (errors.ts)\<close>

text \<open>\<open>AppError message status code\<close> is the base class with its three fields; \<open>Failure\<close> is any
  other exception, with its message: a rejected Redis or Postgres call, a plain \<open>Error\<close>.\<close>

datatype err =
    AppError string nat string
  | Failure string

definition NotFoundError :: "string \<Rightarrow> err" where
  "NotFoundError message = AppError message 404 ''NOT_FOUND''"

definition ValidationError :: "string \<Rightarrow> err" where
  "ValidationError message = AppError message 400 ''VALIDATION_ERROR''"

definition ConflictError :: "string \<Rightarrow> err" where
  "ConflictError message = AppError message 409 ''CONFLICT''"

section \<open>Programs\<close>

datatype ('c, 'r, 'a) prog =
    Ret 'a
  | Throw err
  | Do 'c "'r \<Rightarrow> ('c, 'r, 'a) prog"

text \<open>Sequencing, and \<open>try { p } catch (err) { h err }\<close>.\<close>

primrec bind_prog :: "('c, 'r, 'a) prog \<Rightarrow> ('a \<Rightarrow> ('c, 'r, 'b) prog) \<Rightarrow> ('c, 'r, 'b) prog" where
  "bind_prog (Ret a) f = f a"
| "bind_prog (Throw e) f = Throw e"
| "bind_prog (Do c k) f = Do c (\<lambda>r. bind_prog (k r) f)"

primrec catch_prog :: "('c, 'r, 'a) prog \<Rightarrow> (err \<Rightarrow> ('c, 'r, 'a) prog) \<Rightarrow> ('c, 'r, 'a) prog" where
  "catch_prog (Ret a) h = Ret a"
| "catch_prog (Throw e) h = h e"
| "catch_prog (Do c k) h = Do c (\<lambda>r. catch_prog (k r) h)"

text \<open>Running a tree against a handler that answers each command and updates a state.\<close>

primrec interp :: "('c \<Rightarrow> 's \<Rightarrow> 'r \<times> 's) \<Rightarrow> ('c, 'r, 'a) prog \<Rightarrow> 's \<Rightarrow> (err + 'a) \<times> 's" where
  "interp h (Ret a) s = (Inr a, s)"
| "interp h (Throw e) s = (Inl e, s)"
| "interp h (Do c k) s = interp h (k (fst (h c s))) (snd (h c s))"

text \<open>What can happen to a command on its way: nothing, it is lost before it is carried out, or its reply
  is lost after.\<close>

datatype fault = NoFault | Dropped string | ReplyLost string

lemma bind_Ret_right: "bind_prog p Ret = p"
  by (induction p) auto

lemma bind_assoc: "bind_prog (bind_prog p f) g = bind_prog p (\<lambda>a. bind_prog (f a) g)"
  by (induction p) auto

text \<open>Running a sequence is running its parts, an error of the first part ending it; a handler of
  errors runs only after one.\<close>

lemma interp_bind:
  "interp h (bind_prog p f) s =
     (case interp h p s of (Inl e, s') \<Rightarrow> (Inl e, s') | (Inr a, s') \<Rightarrow> interp h (f a) s')"
  by (induction p arbitrary: s) auto

lemma interp_catch:
  "interp h (catch_prog p g) s =
     (case interp h p s of (Inl e, s') \<Rightarrow> interp h (g e) s' | (Inr a, s') \<Rightarrow> (Inr a, s'))"
  by (induction p arbitrary: s) auto

text \<open>A property of the state that every command keeps, every program keeps.\<close>

lemma interp_invariant:
  assumes "\<And>c s. I s \<Longrightarrow> I (snd (h c s))" and "I s"
  shows "I (snd (interp h p s))"
  using assms(2) by (induction p arbitrary: s) (auto intro: assms(1))

end
