(* ===== verification/Redis.thy ===== *)
theory Redis
  imports Prog
begin

text \<open>
  The interface to the Redis server, a service outside the repository: the commands that the
  platform sends (\<open>rcmd\<close>), the replies it reads (\<open>reply\<close>), and one locale per data type with the
  documented behaviour of its commands as the laws. The server itself is a parameter
  \<open>exec t c r\<close> (the reply and the new server state when command \<open>c\<close> runs at server time \<open>t\<close>),
  observed through \<open>ent r\<close>, the value and expiry time stored at each key. The last section is a
  reference server that satisfies every law.
\<close>

section \<open>Commands, replies and stored values\<close>

text \<open>A value in a string, a hash field or a script argument: text, or a number (Redis keeps its
  decimal rendering; \<open>tonumber\<close> reads it back).\<close>

datatype val = VStr string | VNum rat

datatype reply =
    RNil
  | RInt int
  | RBulk val
  | RArr "reply list"
  | RErr string

datatype rcmd =
    Lpush key jobid
  | Rpop key
  | Brpoplpush key key nat
  | Lrem key int jobid
  | Llen key
  | Lrange key int int
  | Zadd key ms jobid
  | Zrem key jobid
  | Zrangebyscore key ms int
  | Zcard key
  | Get key
  | SetPx key val ms
  | SetNxPx key val ms
  | Del key
  | Pexpire key ms
  | Hget key string
  | Hmget key "string list"
  | Hset key "(string \<times> val) list"
  | Hincrby key string int

type_synonym zset = "(jobid \<times> ms) list"

datatype rdata =
    DStr val
  | DList "jobid list"
  | DZset zset
  | DHash "string \<rightharpoonup> val"

type_synonym entry = "(rdata \<times> ms option) option"
type_synonym keyspace = "key \<Rightarrow> entry"

text \<open>An entry whose expiry time has come is absent.\<close>

fun live :: "ms \<Rightarrow> entry \<Rightarrow> entry" where
  "live t (Some (d, Some x)) = (if x \<le> t then None else Some (d, Some x))"
| "live t e = e"

fun deadline_of :: "entry \<Rightarrow> ms option" where
  "deadline_of (Some (d, dl)) = dl"
| "deadline_of None = None"

text \<open>Lists and sorted sets of the platform never carry an expiry time; an empty one is an absent
  key. A sorted set is kept in the server's rank order: by score, then by member.\<close>

fun is_list_entry :: "entry \<Rightarrow> bool" where
  "is_list_entry None = True"
| "is_list_entry (Some (DList xs, None)) = (xs \<noteq> [])"
| "is_list_entry _ = False"

fun list_of :: "entry \<Rightarrow> jobid list" where
  "list_of (Some (DList xs, _)) = xs"
| "list_of _ = []"

definition put_list :: "jobid list \<Rightarrow> entry" where
  "put_list xs = (if xs = [] then None else Some (DList xs, None))"

definition zrank :: "jobid \<times> ms \<Rightarrow> ms \<times> jobid" where
  "zrank = (\<lambda>(m, s). (s, m))"

definition zwf :: "zset \<Rightarrow> bool" where
  "zwf z \<longleftrightarrow> sorted (map zrank z) \<and> distinct (map fst z)"

fun is_zset_entry :: "entry \<Rightarrow> bool" where
  "is_zset_entry None = True"
| "is_zset_entry (Some (DZset z, None)) = (z \<noteq> [] \<and> zwf z)"
| "is_zset_entry _ = False"

fun zset_of :: "entry \<Rightarrow> zset" where
  "zset_of (Some (DZset z, _)) = z"
| "zset_of _ = []"

definition put_zset :: "zset \<Rightarrow> entry" where
  "put_zset z = (if z = [] then None else Some (DZset z, None))"

definition zrem :: "jobid \<Rightarrow> zset \<Rightarrow> zset" where
  "zrem m z = filter (\<lambda>p. fst p \<noteq> m) z"

definition zadd :: "ms \<Rightarrow> jobid \<Rightarrow> zset \<Rightarrow> zset" where
  "zadd s m z = insort_key zrank (m, s) (zrem m z)"

definition zdue :: "ms \<Rightarrow> int \<Rightarrow> zset \<Rightarrow> jobid list" where
  "zdue mx n z =
     (let due = map fst (filter (\<lambda>p. snd p \<le> mx) z) in if n < 0 then due else take (nat n) due)"

fun is_str_entry :: "entry \<Rightarrow> bool" where
  "is_str_entry None = True"
| "is_str_entry (Some (DStr v, _)) = True"
| "is_str_entry _ = False"

fun str_of :: "entry \<Rightarrow> val option" where
  "str_of (Some (DStr v, _)) = Some v"
| "str_of _ = None"

fun is_hash_entry :: "entry \<Rightarrow> bool" where
  "is_hash_entry None = True"
| "is_hash_entry (Some (DHash m, _)) = True"
| "is_hash_entry _ = False"

fun hash_of :: "entry \<Rightarrow> (string \<rightharpoonup> val)" where
  "hash_of (Some (DHash m, _)) = m"
| "hash_of _ = Map.empty"

primrec hput :: "(string \<times> val) list \<Rightarrow> (string \<rightharpoonup> val) \<Rightarrow> (string \<rightharpoonup> val)" where
  "hput [] m = m"
| "hput (fv # fvs) m = hput fvs (m(fst fv \<mapsto> snd fv))"

fun opt_bulk :: "val option \<Rightarrow> reply" where
  "opt_bulk None = RNil"
| "opt_bulk (Some v) = RBulk v"

text \<open>\<open>HINCRBY\<close> reads an absent field as 0.\<close>

fun hint :: "val option \<Rightarrow> int option" where
  "hint None = Some 0"
| "hint (Some (VNum q)) = (if of_int \<lfloor>q\<rfloor> = q then Some \<lfloor>q\<rfloor> else None)"
| "hint (Some (VStr _)) = None"

section \<open>Facts about the stored values\<close>

lemma list_put [simp]: "is_list_entry (put_list xs)" "list_of (put_list xs) = xs"
  by (auto simp: put_list_def)

lemma zset_of_put [simp]: "zset_of (put_zset z) = z"
  by (auto simp: put_zset_def)

lemma is_zset_put [simp]: "is_zset_entry (put_zset z) \<longleftrightarrow> zwf z"
  by (auto simp: put_zset_def zwf_def)

lemma zwf_zset_of: "is_zset_entry e \<Longrightarrow> zwf (zset_of e)"
  by (cases e rule: is_zset_entry.cases) (auto simp: zwf_def)

lemma list_of_Nil: "is_list_entry e \<Longrightarrow> list_of e = [] \<longleftrightarrow> e = None"
  by (cases e rule: is_list_entry.cases) auto

lemma put_list_Nil [simp]: "put_list [] = None"
  by (simp add: put_list_def)

lemma put_list_of [simp]: "is_list_entry e \<Longrightarrow> put_list (list_of e) = e"
  by (cases e rule: is_list_entry.cases) (auto simp: put_list_def)

lemma put_zset_of [simp]: "is_zset_entry e \<Longrightarrow> put_zset (zset_of e) = e"
  by (cases e rule: is_zset_entry.cases) (auto simp: put_zset_def)

lemma zrem_eq [simp]: "zrem m [] = []"
  by (simp add: zrem_def)

lemma set_zrem: "set (zrem m z) = {p \<in> set z. fst p \<noteq> m}"
  by (auto simp: zrem_def)

lemma set_zadd: "set (zadd s m z) = insert (m, s) (set (zrem m z))"
  by (simp add: zadd_def set_insort_key)

lemma zrem_idem: "m \<notin> fst ` set z \<Longrightarrow> zrem m z = z"
  by (force simp: zrem_def filter_id_conv)

lemma keys_zrem: "fst ` set (zrem m z) = fst ` set z - {m}"
  by (auto simp: set_zrem)

lemma keys_zadd: "fst ` set (zadd s m z) = insert m (fst ` set z)"
  by (auto simp: set_zadd keys_zrem)

lemma zwf_zrem [simp]: "zwf z \<Longrightarrow> zwf (zrem m z)"
  by (auto simp: zwf_def zrem_def sorted_filter distinct_map_filter)

lemma distinct_map_insort:
  "distinct (map fst (insort_key f p z)) \<longleftrightarrow> fst p \<notin> fst ` set z \<and> distinct (map fst z)"
  by (induction z) (auto simp: set_insort_key)

lemma zwf_zadd [simp]: "zwf z \<Longrightarrow> zwf (zadd s m z)"
  using zwf_zrem [of z m]
  by (auto simp: zwf_def zadd_def sorted_insort_key distinct_map_insort set_zrem)

lemma zwf_Nil [simp]: "zwf []"
  by (simp add: zwf_def)

text \<open>The score of a member, as a map: what \<open>ZADD\<close> and \<open>ZREM\<close> do to it.\<close>

lemma map_of_zrem: "zwf z \<Longrightarrow> map_of (zrem m z) = (map_of z)(m := None)"
  by (induction z) (auto simp: zrem_def zwf_def fun_eq_iff)

lemma map_of_insort:
  "fst p \<notin> fst ` set z \<Longrightarrow> map_of (insort_key f p z) = (map_of z)(fst p \<mapsto> snd p)"
  by (induction z) (auto simp: fun_eq_iff)

lemma map_of_zadd: "zwf z \<Longrightarrow> map_of (zadd s m z) = (map_of z)(m \<mapsto> s)"
  using map_of_insort [of "(m, s)" "zrem m z" zrank]
  by (simp add: zadd_def keys_zrem map_of_zrem)

lemma zdue_sub: "set (zdue mx n z) \<subseteq> {m. \<exists>s. (m, s) \<in> set z \<and> s \<le> mx}"
  by (fastforce simp: zdue_def Let_def dest!: in_set_takeD split: if_splits)

lemma zdue_distinct: "zwf z \<Longrightarrow> distinct (zdue mx n z)"
  by (simp add: zdue_def zwf_def Let_def distinct_map_filter)

lemma zdue_all:
  "int (length (filter (\<lambda>p. snd p \<le> mx) z)) \<le> n \<Longrightarrow> zdue mx n z = map fst (filter (\<lambda>p. snd p \<le> mx) z)"
  by (auto simp: zdue_def Let_def)

text \<open>Taking the members that are due, in rank order, takes a prefix of the sorted set: they come by
  increasing score, and removing them leaves the rest of the set.\<close>

lemma zwf_filter_prefix:
  "zwf z \<Longrightarrow> \<exists>k. filter (\<lambda>p. snd p \<le> mx) z = take k z"
proof (induction z)
  case Nil
  then show ?case by simp
next
  case (Cons p z)
  from Cons.prems have z: "zwf z" by (simp add: zwf_def)
  show ?case
  proof (cases "snd p \<le> mx")
    case True
    from Cons.IH [OF z] obtain k where "filter (\<lambda>p. snd p \<le> mx) z = take k z" by blast
    with True have "filter (\<lambda>p. snd p \<le> mx) (p # z) = take (Suc k) (p # z)" by simp
    then show ?thesis by blast
  next
    case False
    with Cons.prems have "\<forall>p' \<in> set z. \<not> snd p' \<le> mx"
      by (fastforce simp: zwf_def zrank_def less_eq_prod_def split: prod.splits)
    with False have "filter (\<lambda>p. snd p \<le> mx) (p # z) = take 0 (p # z)"
      by (simp add: filter_empty_conv)
    then show ?thesis by blast
  qed
qed

lemma zdue_prefix: "zwf z \<Longrightarrow> \<exists>k. zdue mx n z = map fst (take k z)"
proof -
  assume "zwf z"
  from zwf_filter_prefix [OF this] obtain k where "filter (\<lambda>p. snd p \<le> mx) z = take k z" by blast
  then have "zdue mx n z = map fst (take (if n < 0 then k else min (nat n) k) z)"
    by (simp add: zdue_def take_map)
  then show ?thesis by blast
qed

lemma fold_zrem_prefix: "distinct (map fst z) \<Longrightarrow> fold zrem (map fst (take k z)) z = drop k z"
proof (induction k arbitrary: z)
  case 0
  then show ?case by simp
next
  case (Suc k)
  show ?case
  proof (cases z)
    case (Cons p z')
    with Suc.prems have "zrem (fst p) z = z'"
      by (simp add: zrem_idem) (simp add: zrem_def zrem_idem [unfolded zrem_def])
    with Cons Suc show ?thesis by simp
  qed simp
qed

lemma zdue_drop: "zwf z \<Longrightarrow> fold zrem (zdue mx n z) z = drop (length (zdue mx n z)) z"
proof -
  assume z: "zwf z"
  from zdue_prefix [OF this, of mx n] obtain k where "zdue mx n z = map fst (take k z)" by blast
  with z show ?thesis by (simp add: fold_zrem_prefix zwf_def min_def)
qed

lemma zdue_take: "zwf z \<Longrightarrow> zdue mx n z = map fst (take (length (zdue mx n z)) z)"
proof -
  assume z: "zwf z"
  from zdue_prefix [OF this, of mx n] obtain k where "zdue mx n z = map fst (take k z)" by blast
  then show ?thesis by (simp add: min_def)
qed

lemma length_zdue:
  "0 \<le> n \<Longrightarrow> length (zdue mx n z) = min (nat n) (length (filter (\<lambda>p. snd p \<le> mx) z))"
  by (simp add: zdue_def Let_def)

lemma zwf_sorted_scores: "zwf z \<Longrightarrow> sorted (map snd z)"
  by (induction z) (fastforce simp: zwf_def zrank_def less_eq_prod_def split: prod.splits)+

section \<open>The laws of the server\<close>

text \<open>Lists: a left push, a right pop, the atomic move of the last element of one list to the head
  of another (nothing to move: the reply is nil, the blocking call has timed out), removal of
  one occurrence from the head, length and range.\<close>

locale redis_lists =
  fixes exec :: "ms \<Rightarrow> rcmd \<Rightarrow> 'r \<Rightarrow> reply \<times> 'r" and ent :: "'r \<Rightarrow> keyspace"
  assumes lpush:
      "is_list_entry (ent r k) \<Longrightarrow>
         fst (exec t (Lpush k x) r) = RInt (1 + int (length (list_of (ent r k)))) \<and>
         ent (snd (exec t (Lpush k x) r)) = (ent r)(k := put_list (x # list_of (ent r k)))"
    and rpop:
      "is_list_entry (ent r k) \<Longrightarrow> list_of (ent r k) = xs \<Longrightarrow>
         fst (exec t (Rpop k) r) = (if xs = [] then RNil else RBulk (VStr (last xs))) \<and>
         ent (snd (exec t (Rpop k) r)) = (if xs = [] then ent r else (ent r)(k := put_list (butlast xs)))"
    and brpoplpush:
      "is_list_entry (ent r k) \<Longrightarrow> is_list_entry (ent r k') \<Longrightarrow> k \<noteq> k' \<Longrightarrow> list_of (ent r k) = xs \<Longrightarrow>
         fst (exec t (Brpoplpush k k' n) r) = (if xs = [] then RNil else RBulk (VStr (last xs))) \<and>
         ent (snd (exec t (Brpoplpush k k' n) r)) =
           (if xs = [] then ent r
            else (ent r)(k := put_list (butlast xs), k' := put_list (last xs # list_of (ent r k'))))"
    and lrem:
      "is_list_entry (ent r k) \<Longrightarrow>
         fst (exec t (Lrem k 1 x) r) = RInt (if x \<in> set (list_of (ent r k)) then 1 else 0) \<and>
         ent (snd (exec t (Lrem k 1 x) r)) = (ent r)(k := put_list (remove1 x (list_of (ent r k))))"
    and llen:
      "is_list_entry (ent r k) \<Longrightarrow>
         fst (exec t (Llen k) r) = RInt (int (length (list_of (ent r k)))) \<and>
         ent (snd (exec t (Llen k) r)) = ent r"
    and lrange:
      "is_list_entry (ent r k) \<Longrightarrow>
         (0 \<le> stop \<longrightarrow> fst (exec t (Lrange k 0 stop) r) =
           RArr (map (\<lambda>x. RBulk (VStr x)) (take (nat stop + 1) (list_of (ent r k))))) \<and>
         ent (snd (exec t (Lrange k 0 stop) r)) = ent r"
begin

lemmas list_laws = lpush rpop [OF _ refl] brpoplpush [OF _ _ _ refl] lrem llen lrange

end

text \<open>Sorted sets: setting the score of a member, removing it, the members with a score up to a
  maximum in rank order (at most \<open>n\<close> of them, all of them when \<open>n\<close> is negative), the size.\<close>

locale redis_zsets =
  fixes exec :: "ms \<Rightarrow> rcmd \<Rightarrow> 'r \<Rightarrow> reply \<times> 'r" and ent :: "'r \<Rightarrow> keyspace"
  assumes zadd:
      "is_zset_entry (ent r k) \<Longrightarrow>
         fst (exec t (Zadd k s m) r) = RInt (if m \<in> fst ` set (zset_of (ent r k)) then 0 else 1) \<and>
         ent (snd (exec t (Zadd k s m) r)) = (ent r)(k := put_zset (zadd s m (zset_of (ent r k))))"
    and zrem:
      "is_zset_entry (ent r k) \<Longrightarrow>
         fst (exec t (Zrem k m) r) = RInt (if m \<in> fst ` set (zset_of (ent r k)) then 1 else 0) \<and>
         ent (snd (exec t (Zrem k m) r)) = (ent r)(k := put_zset (zrem m (zset_of (ent r k))))"
    and zrangebyscore:
      "is_zset_entry (ent r k) \<Longrightarrow>
         fst (exec t (Zrangebyscore k mx n) r) =
           RArr (map (\<lambda>x. RBulk (VStr x)) (zdue mx n (zset_of (ent r k)))) \<and>
         ent (snd (exec t (Zrangebyscore k mx n) r)) = ent r"
    and zcard:
      "is_zset_entry (ent r k) \<Longrightarrow>
         fst (exec t (Zcard k) r) = RInt (int (length (zset_of (ent r k)))) \<and>
         ent (snd (exec t (Zcard k) r)) = ent r"
begin

lemmas zset_laws = zadd zrem zrangebyscore zcard

end

text \<open>Strings: reading, setting with a lifetime, the same only if the key is absent, deletion; and
  the renewal of any key's lifetime (which deletes the key when the lifetime is not positive).\<close>

locale redis_strings =
  fixes exec :: "ms \<Rightarrow> rcmd \<Rightarrow> 'r \<Rightarrow> reply \<times> 'r" and ent :: "'r \<Rightarrow> keyspace"
  assumes get:
      "is_str_entry (live t (ent r k)) \<Longrightarrow>
         fst (exec t (Get k) r) = opt_bulk (str_of (live t (ent r k))) \<and>
         ent (snd (exec t (Get k) r)) = ent r"
    and set_px:
      "0 < ttl \<Longrightarrow>
         fst (exec t (SetPx k v ttl) r) = RBulk (VStr ''OK'') \<and>
         ent (snd (exec t (SetPx k v ttl) r)) = (ent r)(k := Some (DStr v, Some (t + ttl)))"
    and set_nx_px:
      "0 < ttl \<Longrightarrow>
         fst (exec t (SetNxPx k v ttl) r) =
           (if live t (ent r k) = None then RBulk (VStr ''OK'') else RNil) \<and>
         ent (snd (exec t (SetNxPx k v ttl) r)) =
           (if live t (ent r k) = None then (ent r)(k := Some (DStr v, Some (t + ttl))) else ent r)"
    and set_bad_ttl:
      "ttl \<le> 0 \<Longrightarrow> c = SetPx k v ttl \<or> c = SetNxPx k v ttl \<Longrightarrow>
         (\<exists>m. fst (exec t c r) = RErr m) \<and> ent (snd (exec t c r)) = ent r"
    and del:
      "fst (exec t (Del k) r) = RInt (if live t (ent r k) = None then 0 else 1) \<and>
         ent (snd (exec t (Del k) r)) = (ent r)(k := None)"
    and pexpire:
      "fst (exec t (Pexpire k ttl) r) = RInt (if live t (ent r k) = None then 0 else 1) \<and>
         ent (snd (exec t (Pexpire k ttl) r)) =
           (case live t (ent r k) of None \<Rightarrow> ent r
            | Some (d, _) \<Rightarrow> (ent r)(k := (if 0 < ttl then Some (d, Some (t + ttl)) else None)))"
begin

lemmas string_laws = get set_px set_nx_px set_bad_ttl del pexpire

end

text \<open>Hashes: reading one or several fields, writing several, adding to a number.\<close>

locale redis_hashes =
  fixes exec :: "ms \<Rightarrow> rcmd \<Rightarrow> 'r \<Rightarrow> reply \<times> 'r" and ent :: "'r \<Rightarrow> keyspace"
  assumes hget:
      "is_hash_entry (live t (ent r k)) \<Longrightarrow>
         fst (exec t (Hget k f) r) = opt_bulk (hash_of (live t (ent r k)) f) \<and>
         ent (snd (exec t (Hget k f) r)) = ent r"
    and hmget:
      "is_hash_entry (live t (ent r k)) \<Longrightarrow>
         fst (exec t (Hmget k fs) r) = RArr (map (\<lambda>f. opt_bulk (hash_of (live t (ent r k)) f)) fs) \<and>
         ent (snd (exec t (Hmget k fs) r)) = ent r"
    and hset:
      "is_hash_entry (live t (ent r k)) \<Longrightarrow>
         (\<exists>n. fst (exec t (Hset k fvs) r) = RInt n) \<and>
         ent (snd (exec t (Hset k fvs) r)) =
           (ent r)(k := Some (DHash (hput fvs (hash_of (live t (ent r k)))), deadline_of (live t (ent r k))))"
    and hincrby:
      "is_hash_entry (live t (ent r k)) \<Longrightarrow> hint (hash_of (live t (ent r k)) f) = Some i \<Longrightarrow>
         fst (exec t (Hincrby k f n) r) = RInt (i + n) \<and>
         ent (snd (exec t (Hincrby k f n) r)) =
           (ent r)(k := Some (DHash ((hash_of (live t (ent r k)))(f \<mapsto> VNum (of_int (i + n)))),
                              deadline_of (live t (ent r k))))"
begin

lemmas hash_laws = hget hmget hset hincrby

end

text \<open>A command changes no key but those it names.\<close>

fun keys_of :: "rcmd \<Rightarrow> key set" where
  "keys_of (Lpush k x) = {k}"
| "keys_of (Rpop k) = {k}"
| "keys_of (Brpoplpush k k' n) = {k, k'}"
| "keys_of (Lrem k n x) = {k}"
| "keys_of (Llen k) = {k}"
| "keys_of (Lrange k i n) = {k}"
| "keys_of (Zadd k s m) = {k}"
| "keys_of (Zrem k m) = {k}"
| "keys_of (Zrangebyscore k mx n) = {k}"
| "keys_of (Zcard k) = {k}"
| "keys_of (Get k) = {k}"
| "keys_of (SetPx k v ttl) = {k}"
| "keys_of (SetNxPx k v ttl) = {k}"
| "keys_of (Del k) = {k}"
| "keys_of (Pexpire k ttl) = {k}"
| "keys_of (Hget k f) = {k}"
| "keys_of (Hmget k fs) = {k}"
| "keys_of (Hset k fvs) = {k}"
| "keys_of (Hincrby k f n) = {k}"

locale redis_frame =
  fixes exec :: "ms \<Rightarrow> rcmd \<Rightarrow> 'r \<Rightarrow> reply \<times> 'r" and ent :: "'r \<Rightarrow> keyspace"
  assumes frame: "k \<notin> keys_of c \<Longrightarrow> ent (snd (exec t c r)) k = ent r k"

locale redis_server = redis_lists + redis_zsets + redis_strings + redis_hashes + redis_frame

section \<open>A reference server\<close>

text \<open>A server whose state is the keyspace itself, answering every command (with the server's
  \<open>WRONGTYPE\<close> error on a value of another type). It satisfies the laws, so they are consistent, and
  it is the concrete server on which closed examples of the development run.\<close>

definition wrongtype :: "keyspace \<Rightarrow> reply \<times> keyspace" where
  "wrongtype e = (RErr ''WRONGTYPE Operation against a key holding the wrong kind of value'', e)"

fun mem_exec :: "ms \<Rightarrow> rcmd \<Rightarrow> keyspace \<Rightarrow> reply \<times> keyspace" where
  "mem_exec t (Lpush k x) e =
     (if is_list_entry (e k) then (RInt (1 + int (length (list_of (e k)))), e(k := put_list (x # list_of (e k))))
      else wrongtype e)"
| "mem_exec t (Rpop k) e =
     (if is_list_entry (e k) then
        (if list_of (e k) = [] then (RNil, e)
         else (RBulk (VStr (last (list_of (e k)))), e(k := put_list (butlast (list_of (e k))))))
      else wrongtype e)"
| "mem_exec t (Brpoplpush k k' n) e =
     (if is_list_entry (e k) \<and> is_list_entry (e k') then
        (if list_of (e k) = [] then (RNil, e)
         else let x = last (list_of (e k)); e' = e(k := put_list (butlast (list_of (e k))))
              in (RBulk (VStr x), e'(k' := put_list (x # list_of (e' k')))))
      else wrongtype e)"
| "mem_exec t (Lrem k n x) e =
     (if is_list_entry (e k) then
        (if n = 1 then
           (RInt (if x \<in> set (list_of (e k)) then 1 else 0), e(k := put_list (remove1 x (list_of (e k)))))
         else (RErr ''only count 1 is served'', e))
      else wrongtype e)"
| "mem_exec t (Llen k) e =
     (if is_list_entry (e k) then (RInt (int (length (list_of (e k)))), e) else wrongtype e)"
| "mem_exec t (Lrange k i n) e =
     (if is_list_entry (e k) then
        (if 0 \<le> i \<and> 0 \<le> n then
           (RArr (map (\<lambda>x. RBulk (VStr x)) (drop (nat i) (take (nat n + 1) (list_of (e k))))), e)
         else (RErr ''only ranges from the head are served'', e))
      else wrongtype e)"
| "mem_exec t (Zadd k s m) e =
     (if is_zset_entry (e k) then
        (RInt (if m \<in> fst ` set (zset_of (e k)) then 0 else 1), e(k := put_zset (zadd s m (zset_of (e k)))))
      else wrongtype e)"
| "mem_exec t (Zrem k m) e =
     (if is_zset_entry (e k) then
        (RInt (if m \<in> fst ` set (zset_of (e k)) then 1 else 0), e(k := put_zset (zrem m (zset_of (e k)))))
      else wrongtype e)"
| "mem_exec t (Zrangebyscore k mx n) e =
     (if is_zset_entry (e k) then (RArr (map (\<lambda>x. RBulk (VStr x)) (zdue mx n (zset_of (e k)))), e)
      else wrongtype e)"
| "mem_exec t (Zcard k) e =
     (if is_zset_entry (e k) then (RInt (int (length (zset_of (e k)))), e) else wrongtype e)"
| "mem_exec t (Get k) e =
     (if is_str_entry (live t (e k)) then (opt_bulk (str_of (live t (e k))), e) else wrongtype e)"
| "mem_exec t (SetPx k v ttl) e =
     (if ttl \<le> 0 then (RErr ''ERR invalid expire time in 'set' command'', e)
      else (RBulk (VStr ''OK''), e(k := Some (DStr v, Some (t + ttl)))))"
| "mem_exec t (SetNxPx k v ttl) e =
     (if ttl \<le> 0 then (RErr ''ERR invalid expire time in 'set' command'', e)
      else if live t (e k) = None then (RBulk (VStr ''OK''), e(k := Some (DStr v, Some (t + ttl))))
      else (RNil, e))"
| "mem_exec t (Del k) e = (RInt (if live t (e k) = None then 0 else 1), e(k := None))"
| "mem_exec t (Pexpire k ttl) e =
     (case live t (e k) of None \<Rightarrow> (RInt 0, e)
      | Some (d, _) \<Rightarrow> (RInt 1, e(k := (if 0 < ttl then Some (d, Some (t + ttl)) else None))))"
| "mem_exec t (Hget k f) e =
     (if is_hash_entry (live t (e k)) then (opt_bulk (hash_of (live t (e k)) f), e) else wrongtype e)"
| "mem_exec t (Hmget k fs) e =
     (if is_hash_entry (live t (e k)) then (RArr (map (\<lambda>f. opt_bulk (hash_of (live t (e k)) f)) fs), e)
      else wrongtype e)"
| "mem_exec t (Hset k fvs) e =
     (if is_hash_entry (live t (e k)) then
        (RInt (int (length (filter (\<lambda>f. hash_of (live t (e k)) f = None) (remdups (map fst fvs))))),
         e(k := Some (DHash (hput fvs (hash_of (live t (e k)))), deadline_of (live t (e k)))))
      else wrongtype e)"
| "mem_exec t (Hincrby k f n) e =
     (if is_hash_entry (live t (e k)) then
        (case hint (hash_of (live t (e k)) f) of
           None \<Rightarrow> (RErr ''ERR hash value is not an integer'', e)
         | Some i \<Rightarrow>
             (RInt (i + n),
              e(k := Some (DHash ((hash_of (live t (e k)))(f \<mapsto> VNum (of_int (i + n)))),
                           deadline_of (live t (e k))))))
      else wrongtype e)"

interpretation mem_lists: redis_lists mem_exec "\<lambda>e. e"
  by unfold_locales (auto simp: Let_def)

interpretation mem_zsets: redis_zsets mem_exec "\<lambda>e. e"
  by unfold_locales auto

interpretation mem_strings: redis_strings mem_exec "\<lambda>e. e"
  by unfold_locales (auto split: option.splits)

interpretation mem_hashes: redis_hashes mem_exec "\<lambda>e. e"
  by unfold_locales auto

interpretation mem_frame: redis_frame mem_exec "\<lambda>e. e"
proof unfold_locales
  show "k \<notin> keys_of c \<Longrightarrow> snd (mem_exec t c r) k = r k" for k c t r
    by (cases c) (auto simp: wrongtype_def Let_def split: option.splits)
qed

interpretation mem: redis_server mem_exec "\<lambda>e. e"
  by unfold_locales

lemma mem_server: "redis_server mem_exec (\<lambda>e. e)"
  by unfold_locales

end
