(* ===== verification/Types.thy ===== *)
theory Types
  imports Prog
begin

text \<open>
  The data of the platform: the row shapes and API shapes of \<open>src/src/types.ts\<close>, and the record of
  one delivery attempt of \<open>delivery.repository.ts\<close>. A timestamp is the number of milliseconds that
  \<open>getTime()\<close> of the \<open>Date\<close> or of the parsed ISO string gives. A payload is represented by its
  serialised text: the code never looks inside it, it only serialises it.
\<close>

section \<open>States and rows (types.ts)\<close>

datatype job_state = Queued | In_flight | Succeeded | Failed | Dead

record webhook_row =
  wr_id :: string
  wr_tenant :: string
  wr_url :: string
  wr_secret :: string
  wr_isactive :: bool
  wr_createdat :: ms

record job_row =
  jr_id :: string
  jr_tenant :: string
  jr_webhookid :: string
  jr_eventtype :: string
  jr_payload :: string
  jr_state :: job_state
  jr_attempts :: int
  jr_maxattempts :: int
  jr_runat :: ms
  jr_lasterror :: "string option"
  jr_createdat :: ms
  jr_updatedat :: ms

section \<open>API shapes (types.ts)\<close>

record webhook =
  w_id :: string
  w_tenant :: string
  w_url :: string
  w_isActive :: bool
  w_createdAt :: ms

record job =
  j_id :: string
  j_tenant :: string
  j_webhookId :: string
  j_eventType :: string
  j_payload :: string
  j_state :: job_state
  j_attempts :: int
  j_maxAttempts :: int
  j_runAt :: ms
  j_lastError :: "string option"
  j_createdAt :: ms

section \<open>Delivery attempts (delivery.repository.ts)\<close>

record attempt_record =
  a_jobId :: string
  a_attemptNumber :: int
  a_statusCode :: "int option"
  a_responseBody :: "string option"
  a_error :: "string option"
  a_durationMs :: ms

record attempt_view = attempt_record +
  a_attemptedAt :: ms

end
