(* ===== verification/Effects.thy ===== *)
theory Effects
  imports Redis Types
begin

text \<open>
  The effects of the platform's TypeScript: everything an \<open>await\<close> of the source waits for, and the
  ambient inputs (\<open>Date.now()\<close>, \<open>Math.random()\<close>, \<open>randomUUID()\<close>, \<open>randomBytes\<close>). A Lua script is
  named by its constant in the source; its body is a tree of Redis commands, given by the theory
  that models the file it stands in. A SQL statement is named by the repository function that
  holds its text, with the bound parameters; the theory \<open>Database\<close> gives its meaning.
\<close>

section \<open>Lua scripts\<close>

type_synonym lua = "(rcmd, reply, reply) prog"

datatype script =
    ACK_SCRIPT | RETRY_SCRIPT | DLQ_SCRIPT | PROMOTE_SCRIPT | REAP_SCRIPT
  | RELEASE_SCRIPT | RENEW_SCRIPT
  | TOKEN_BUCKET_SCRIPT
  | CHECK_SCRIPT | SUCCESS_SCRIPT | FAILURE_SCRIPT

text \<open>\<open>redis.call\<close> raises the error reply of a command, which aborts the script.\<close>

definition redis_call :: "rcmd \<Rightarrow> (reply \<Rightarrow> lua) \<Rightarrow> lua" where
  "redis_call c k = Do c (\<lambda>r. case r of RErr m \<Rightarrow> Throw (Failure m) | _ \<Rightarrow> k r)"

text \<open>\<open>for _, x in ipairs(xs) do body end\<close> followed by \<open>rest\<close>; the strings of an array reply.\<close>

primrec for_each :: "('a \<Rightarrow> lua \<Rightarrow> lua) \<Rightarrow> 'a list \<Rightarrow> lua \<Rightarrow> lua" where
  "for_each body [] rest = rest"
| "for_each body (x # xs) rest = body x (for_each body xs rest)"

fun bulk_str :: "reply \<Rightarrow> string" where
  "bulk_str (RBulk (VStr s)) = s"
| "bulk_str _ = []"

fun bulk_strs :: "reply \<Rightarrow> string list" where
  "bulk_strs (RArr rs) = map bulk_str rs"
| "bulk_strs _ = []"

text \<open>\<open>tonumber\<close> of a field: nil for an absent field or text.\<close>

fun tonumber :: "reply \<Rightarrow> rat option" where
  "tonumber (RBulk (VNum q)) = Some q"
| "tonumber (RInt n) = Some (of_int n)"
| "tonumber _ = None"

text \<open>A script runs atomically: all its commands at one server time, nothing in between.\<close>

definition lua_run :: "(ms \<Rightarrow> rcmd \<Rightarrow> 'r \<Rightarrow> reply \<times> 'r) \<Rightarrow> ms \<Rightarrow> lua \<Rightarrow> 'r \<Rightarrow> (err + reply) \<times> 'r" where
  "lua_run exec t p r = interp (exec t) p r"

lemma lua_run_simps [simp]:
  "lua_run exec t (Ret a) r = (Inr a, r)"
  "lua_run exec t (Throw e) r = (Inl e, r)"
  "lua_run exec t (Do c k) r = lua_run exec t (k (fst (exec t c r))) (snd (exec t c r))"
  by (simp_all add: lua_run_def)

lemma lua_run_call [simp]:
  "lua_run exec t (redis_call c k) r =
     (case fst (exec t c r) of RErr m \<Rightarrow> (Inl (Failure m), snd (exec t c r))
      | rep \<Rightarrow> lua_run exec t (k rep) (snd (exec t c r)))"
  by (simp add: redis_call_def split: reply.splits)

text \<open>A call whose reply the script ignores, and which does not fail.\<close>

fun is_err :: "reply \<Rightarrow> bool" where
  "is_err (RErr _) = True"
| "is_err _ = False"

lemma lua_run_call_ok:
  "\<not> is_err (fst (exec t c r)) \<Longrightarrow>
     lua_run exec t (redis_call c (\<lambda>_. p)) r = lua_run exec t p (snd (exec t c r))"
  by (cases "fst (exec t c r)") auto

text \<open>Hashes with a lifetime: an entry at which a hash can be written now (absent, expired, or a hash
  that has not expired), and what writing fields and renewing the lifetime leaves.\<close>

definition hash_ready :: "ms \<Rightarrow> entry \<Rightarrow> bool" where
  "hash_ready t e \<longleftrightarrow> is_hash_entry (live t e) \<and>
     (deadline_of (live t e) = None \<or> (\<exists>x > t. deadline_of (live t e) = Some x))"

lemma hash_ready_stored:
  "dl = None \<or> (\<exists>x > t. dl = Some x) \<Longrightarrow> hash_ready t (Some (DHash m, dl)) \<and> live t (Some (DHash m, dl)) = Some (DHash m, dl)"
  by (auto simp: hash_ready_def)

context redis_server
begin

lemma hset_step:
  assumes "hash_ready t (ent r k)"
  shows "lua_run exec t (redis_call (Hset k fvs) (\<lambda>_. p)) r = lua_run exec t p (snd (exec t (Hset k fvs) r)) \<and>
    ent (snd (exec t (Hset k fvs) r)) =
      (ent r)(k := Some (DHash (hput fvs (hash_of (live t (ent r k)))), deadline_of (live t (ent r k)))) \<and>
    hash_ready t (ent (snd (exec t (Hset k fvs) r)) k) \<and>
    live t (ent (snd (exec t (Hset k fvs) r)) k) =
      Some (DHash (hput fvs (hash_of (live t (ent r k)))), deadline_of (live t (ent r k)))"
proof -
  have h: "is_hash_entry (live t (ent r k))" using assms by (simp add: hash_ready_def)
  have e: "ent (snd (exec t (Hset k fvs) r)) =
      (ent r)(k := Some (DHash (hput fvs (hash_of (live t (ent r k)))), deadline_of (live t (ent r k))))"
    and ok: "\<not> is_err (fst (exec t (Hset k fvs) r))"
    using hset [OF h, where fvs = fvs] by auto
  from assms have "deadline_of (live t (ent r k)) = None \<or> (\<exists>x > t. deadline_of (live t (ent r k)) = Some x)"
    by (simp add: hash_ready_def)
  from hash_ready_stored [OF this, of "hput fvs (hash_of (live t (ent r k)))"] e
    lua_run_call_ok [where exec = exec and t = t and r = r and p = p, OF ok]
  show ?thesis by simp
qed

lemma pexpire_step:
  assumes "live t (ent r k) = Some (d, dl)" and "0 < ttl"
  shows "lua_run exec t (redis_call (Pexpire k ttl) (\<lambda>_. Ret rep)) r = (Inr rep, snd (exec t (Pexpire k ttl) r)) \<and>
    ent (snd (exec t (Pexpire k ttl) r)) = (ent r)(k := Some (d, Some (t + ttl)))"
proof -
  have e: "fst (exec t (Pexpire k ttl) r) = RInt 1"
    "ent (snd (exec t (Pexpire k ttl) r)) = (ent r)(k := Some (d, Some (t + ttl)))"
    using pexpire [where t = t and k = k and ttl = ttl and r = r] unfolding assms(1) using assms(2) by simp_all
  then have "\<not> is_err (fst (exec t (Pexpire k ttl) r))" by simp
  from lua_run_call_ok [where exec = exec and t = t and r = r and p = "Ret rep", OF this] e
  show ?thesis by simp
qed

lemma hset_pexpire:
  assumes "hash_ready t (ent r k)" and "0 < ttl"
    and "lua_run exec t (redis_call (Hset k fvs) (\<lambda>_. redis_call (Pexpire k ttl) (\<lambda>_. Ret rep))) r = (res, r')"
  shows "res = Inr rep"
    and "ent r' = (ent r)(k := Some (DHash (hput fvs (hash_of (live t (ent r k)))), Some (t + ttl)))"
proof -
  note h = hset_step [OF assms(1), of fvs "redis_call (Pexpire k ttl) (\<lambda>_. Ret rep)"]
  note p = pexpire_step [OF conjunct2 [OF conjunct2 [OF conjunct2 [OF h]]] assms(2), of rep]
  show "res = Inr rep"
    and "ent r' = (ent r)(k := Some (DHash (hput fvs (hash_of (live t (ent r k)))), Some (t + ttl)))"
    using h p assms(3) by (simp_all del: lua_run_call)
qed

end

text \<open>The keys of the commands a script can send; a script changes no others.\<close>

primrec script_keys :: "lua \<Rightarrow> key set" where
  "script_keys (Ret a) = {}"
| "script_keys (Throw e) = {}"
| "script_keys (Do c k) = keys_of c \<union> (\<Union>r. script_keys (k r))"

lemma script_keys_call:
  "script_keys (redis_call c k) \<subseteq> K \<longleftrightarrow> keys_of c \<subseteq> K \<and> (\<forall>r. \<not> is_err r \<longrightarrow> script_keys (k r) \<subseteq> K)"
proof -
  have "script_keys (case r of RErr m \<Rightarrow> Throw (Failure m) | _ \<Rightarrow> k r) \<subseteq> K \<longleftrightarrow> (\<not> is_err r \<longrightarrow> script_keys (k r) \<subseteq> K)" for r
    by (cases r) auto
  then show ?thesis by (simp add: redis_call_def UN_subset_iff)
qed

lemma script_keys_loop:
  "script_keys rest \<subseteq> K \<Longrightarrow> (\<And>x next. script_keys next \<subseteq> K \<Longrightarrow> script_keys (body x next) \<subseteq> K) \<Longrightarrow>
     script_keys (for_each body xs rest) \<subseteq> K"
  by (induction xs) auto

context redis_server
begin

lemma lua_frame: "k \<notin> script_keys p \<Longrightarrow> ent (snd (lua_run exec t p r)) k = ent r k"
  by (induction p arbitrary: r) (auto simp: frame)

end

section \<open>Effects of the TypeScript code\<close>

datatype stmt =
    InsertJob string string string string "ms option"
  | SelectJob string
  | SelectJobsAny "string list"
  | UpdateJob string job_state int "string option" "ms option"
  | ResetJob string
  | SelectJobsWhere string "job_state option" int
  | SelectNextAttempt string
  | InsertAttempt attempt_record
  | SelectAttempts string
  | InsertWebhook string string string
  | SelectWebhook string
  | SelectSecret string
  | SelectWebhooksOf string
  | SelectOne

record http_request =
  url :: string
  headers :: "(string \<times> string) list"
  body :: string

datatype eff =
    RCmd rcmd
  | Eval script "key list" "val list"
  | Sql stmt
  | DateNow
  | MathRandom
  | RandomUUID
  | RandomBytes
  | Fetch http_request
  | ResponseText
  | Ping
  | ProcessUptime

datatype resp =
    Rep reply
  | JobRows "job_row list"
  | WebhookRows "webhook_row list"
  | SecretRows "string list"
  | AttemptRows "attempt_view list"
  | NextRow int
  | NoRows
  | Time ms
  | Rand rat
  | Text string
  | Status int
  | Rejected string

text \<open>A Redis error reply rejects the promise of its command.\<close>

fun resp_of :: "reply \<Rightarrow> resp" where
  "resp_of (RErr m) = Rejected m"
| "resp_of rep = Rep rep"

type_synonym 'a js = "(eff, resp, 'a) prog"

text \<open>\<open>await e\<close>: a rejected promise throws.\<close>

definition await :: "eff \<Rightarrow> (resp \<Rightarrow> 'a js) \<Rightarrow> 'a js" where
  "await e k = Do e (\<lambda>r. case r of Rejected m \<Rightarrow> Throw (Failure m) | _ \<Rightarrow> k r)"

fun rejected :: "resp \<Rightarrow> bool" where
  "rejected (Rejected m) = True"
| "rejected _ = False"

fun reason :: "resp \<Rightarrow> string" where
  "reason (Rejected m) = m"
| "reason _ = []"

text \<open>\<open>await e\<close> inside a try block: \<open>h\<close> is what the catch does with the message.\<close>

definition await_or :: "eff \<Rightarrow> (resp \<Rightarrow> 'a js) \<Rightarrow> (string \<Rightarrow> 'a js) \<Rightarrow> 'a js" where
  "await_or e k h = Do e (\<lambda>r. if rejected r then h (reason r) else k r)"

abbreviation seq :: "'a js \<Rightarrow> 'b js \<Rightarrow> 'b js" where
  "seq p q \<equiv> bind_prog p (\<lambda>_. q)"

text \<open>How the code reads the replies it gets.\<close>

fun as_int :: "resp \<Rightarrow> int" where
  "as_int (Rep (RInt n)) = n"
| "as_int (NextRow n) = n"
| "as_int (Time t) = t"
| "as_int _ = 0"

fun as_str :: "resp \<Rightarrow> string option" where
  "as_str (Rep (RBulk (VStr s))) = Some s"
| "as_str (Text s) = Some s"
| "as_str _ = None"

fun as_strs :: "resp \<Rightarrow> string list" where
  "as_strs (Rep r) = bulk_strs r"
| "as_strs _ = []"

fun as_rat :: "resp \<Rightarrow> rat" where
  "as_rat (Rand q) = q"
| "as_rat _ = 0"

fun job_rows :: "resp \<Rightarrow> job_row list" where
  "job_rows (JobRows rows) = rows"
| "job_rows _ = []"

fun webhook_rows :: "resp \<Rightarrow> webhook_row list" where
  "webhook_rows (WebhookRows rows) = rows"
| "webhook_rows _ = []"

fun secret_rows :: "resp \<Rightarrow> string list" where
  "secret_rows (SecretRows rows) = rows"
| "secret_rows _ = []"

fun attempt_rows :: "resp \<Rightarrow> attempt_view list" where
  "attempt_rows (AttemptRows rows) = rows"
| "attempt_rows _ = []"

end
