(* ===== verification/Database.thy ===== *)
theory Database
  imports Effects
begin

text \<open>
  The tables of \<open>src/migrations/001_init.sql\<close> and the SQL statements of the three repositories. A
  table is its rows in the order of insertion; a statement runs at a server time and with a fresh
  UUID. The constraints of the schema are checked where a statement can break them: a violated one
  rejects the statement and changes nothing. A text with a NUL character is refused in every column
  and parameter, as Postgres has no way to store one. The payload column is \<open>JSONB\<close>, which keeps the value
  and not the text (it reorders the keys of an object, drops duplicates, and refuses what it cannot
  represent, a \<open>\u0000\<close> in a string): the conversion is Postgres' own and a parameter of the model, the
  field \<open>jsonb\<close>, which no statement changes. Ids are texts: that a malformed UUID is an error of
  its own is left out. Where Postgres leaves the order of rows open (\<open>ANY\<close>, ties of \<open>ORDER BY\<close>) this
  model keeps the order of insertion; no property of the development depends on that choice.
\<close>

section \<open>Tables\<close>

text \<open>\<open>jsonb p\<close> is the text that serialising the payload read back gives for the text \<open>p\<close> put in, \<open>None\<close> when
  the column refuses it.\<close>

record db =
  webhooks_t :: "webhook_row list"
  jobs_t :: "job_row list"
  attempts_t :: "attempt_view list"
  jsonb :: "string \<Rightarrow> string option"

definition violates :: "string \<Rightarrow> db \<Rightarrow> resp \<times> db" where
  "violates constr d = (Rejected (''violates constraint '' @ constr), d)"

text \<open>What a text column or parameter takes.\<close>

definition storable :: "string \<Rightarrow> bool" where
  "storable s \<longleftrightarrow> CHR 0x00 \<notin> set s"

definition storable_opt :: "string option \<Rightarrow> bool" where
  "storable_opt x = (case x of None \<Rightarrow> True | Some s \<Rightarrow> storable s)"

definition refuses_text :: "db \<Rightarrow> resp \<times> db" where
  "refuses_text d = (Rejected ''invalid byte sequence for encoding'', d)"

definition max_attempts_default :: int where "max_attempts_default = 5"

section \<open>Statements on jobs\<close>

definition sql_insert_job :: "ms \<Rightarrow> string \<Rightarrow> string \<Rightarrow> string \<Rightarrow> string \<Rightarrow> string \<Rightarrow> ms option \<Rightarrow> db \<Rightarrow> resp \<times> db" where
  "sql_insert_job now uuid tenant webhookId eventType payload runAt d =
     (if \<not> storable tenant \<or> \<not> storable eventType then refuses_text d
      else case jsonb d payload of
        None \<Rightarrow> refuses_text d
      | Some stored \<Rightarrow>
          if uuid \<in> jr_id ` set (jobs_t d) then violates ''jobs_pkey'' d
          else if webhookId \<notin> wr_id ` set (webhooks_t d) then violates ''jobs_webhookid_fkey'' d
          else
            let row = \<lparr>jr_id = uuid, jr_tenant = tenant, jr_webhookid = webhookId, jr_eventtype = eventType,
                  jr_payload = stored, jr_state = Queued, jr_attempts = 0, jr_maxattempts = max_attempts_default,
                  jr_runat = the_default now runAt, jr_lasterror = None, jr_createdat = now, jr_updatedat = now\<rparr>
            in (JobRows [row], d\<lparr>jobs_t := jobs_t d @ [row]\<rparr>))"

definition sql_select_job :: "string \<Rightarrow> db \<Rightarrow> resp \<times> db" where
  "sql_select_job i d = (JobRows (filter (\<lambda>row. jr_id row = i) (jobs_t d)), d)"

definition sql_select_jobs_any :: "string list \<Rightarrow> db \<Rightarrow> resp \<times> db" where
  "sql_select_jobs_any ids d = (JobRows (filter (\<lambda>row. jr_id row \<in> set ids) (jobs_t d)), d)"

definition change_job :: "string \<Rightarrow> (job_row \<Rightarrow> job_row) \<Rightarrow> db \<Rightarrow> db" where
  "change_job i f d = d\<lparr>jobs_t := map (\<lambda>row. if jr_id row = i then f row else row) (jobs_t d)\<rparr>"

definition rows_of :: "string \<Rightarrow> db \<Rightarrow> job_row list" where
  "rows_of i d = filter (\<lambda>row. jr_id row = i) (jobs_t d)"

definition updated_row :: "ms \<Rightarrow> job_state \<Rightarrow> int \<Rightarrow> string option \<Rightarrow> ms option \<Rightarrow> job_row \<Rightarrow> job_row" where
  "updated_row now state n lastError runAt row =
     row\<lparr>jr_state := state, jr_attempts := jr_attempts row + n, jr_lasterror := lastError,
        jr_runat := the_default (jr_runat row) runAt, jr_updatedat := now\<rparr>"

definition sql_update_job :: "ms \<Rightarrow> string \<Rightarrow> job_state \<Rightarrow> int \<Rightarrow> string option \<Rightarrow> ms option \<Rightarrow> db \<Rightarrow> resp \<times> db" where
  "sql_update_job now i state n lastError runAt d =
     (if \<not> storable_opt lastError then refuses_text d
      else if \<exists>row \<in> set (rows_of i d). jr_attempts row + n > jr_maxattempts row then violates ''attempts_within_max'' d
      else let d' = change_job i (updated_row now state n lastError runAt) d in (JobRows (rows_of i d'), d'))"

definition reset_row :: "ms \<Rightarrow> job_row \<Rightarrow> job_row" where
  "reset_row now row = row\<lparr>jr_state := Queued, jr_attempts := 0, jr_lasterror := None, jr_runat := now, jr_updatedat := now\<rparr>"

definition sql_reset_job :: "ms \<Rightarrow> string \<Rightarrow> db \<Rightarrow> resp \<times> db" where
  "sql_reset_job now i d = (let d' = change_job i (reset_row now) d in (JobRows (rows_of i d'), d'))"

definition sql_select_jobs_where :: "string \<Rightarrow> job_state option \<Rightarrow> int \<Rightarrow> db \<Rightarrow> resp \<times> db" where
  "sql_select_jobs_where tenant state limit d =
     (if \<not> storable tenant then refuses_text d
      else
        let hits = filter (\<lambda>row. jr_tenant row = tenant \<and> (case state of None \<Rightarrow> True | Some st \<Rightarrow> jr_state row = st)) (jobs_t d)
        in (JobRows (take (nat limit) (sort_key (\<lambda>row. - jr_createdat row) hits)), d))"

section \<open>Statements on delivery attempts\<close>

definition attempt_numbers :: "string \<Rightarrow> db \<Rightarrow> int set" where
  "attempt_numbers i d = a_attemptNumber ` {a \<in> set (attempts_t d). a_jobId a = i}"

definition sql_next_attempt :: "string \<Rightarrow> db \<Rightarrow> resp \<times> db" where
  "sql_next_attempt i d =
     (let ns = map a_attemptNumber (filter (\<lambda>a. a_jobId a = i) (attempts_t d))
      in (NextRow ((if ns = [] then 0 else foldr max ns (hd ns)) + 1), d))"

definition sql_insert_attempt :: "ms \<Rightarrow> attempt_record \<Rightarrow> db \<Rightarrow> resp \<times> db" where
  "sql_insert_attempt now a d =
     (if \<not> storable_opt (a_responseBody a) \<or> \<not> storable_opt (a_error a) then refuses_text d
      else if a_jobId a \<notin> jr_id ` set (jobs_t d) then violates ''delivery_attempts_jobid_fkey'' d
      else if a_attemptNumber a \<in> attempt_numbers (a_jobId a) d
      then violates ''delivery_attempts_jobid_attemptnumber_key'' d
      else (NoRows, d\<lparr>attempts_t := attempts_t d @ [attempt_record.extend a \<lparr>a_attemptedAt = now\<rparr>]\<rparr>))"

definition sql_select_attempts :: "string \<Rightarrow> db \<Rightarrow> resp \<times> db" where
  "sql_select_attempts i d =
     (AttemptRows (sort_key a_attemptNumber (filter (\<lambda>a. a_jobId a = i) (attempts_t d))), d)"

section \<open>Statements on webhooks\<close>

definition sql_insert_webhook :: "ms \<Rightarrow> string \<Rightarrow> string \<Rightarrow> string \<Rightarrow> string \<Rightarrow> db \<Rightarrow> resp \<times> db" where
  "sql_insert_webhook now uuid tenant u secret d =
     (if \<not> storable tenant \<or> \<not> storable u \<or> \<not> storable secret then refuses_text d
      else if uuid \<in> wr_id ` set (webhooks_t d) then violates ''webhooks_pkey'' d
      else
        let row = \<lparr>wr_id = uuid, wr_tenant = tenant, wr_url = u, wr_secret = secret, wr_isactive = True, wr_createdat = now\<rparr>
        in (WebhookRows [row], d\<lparr>webhooks_t := webhooks_t d @ [row]\<rparr>))"

definition sql_select_webhook :: "string \<Rightarrow> db \<Rightarrow> resp \<times> db" where
  "sql_select_webhook i d = (WebhookRows (filter (\<lambda>row. wr_id row = i) (webhooks_t d)), d)"

definition sql_select_secret :: "string \<Rightarrow> db \<Rightarrow> resp \<times> db" where
  "sql_select_secret i d = (SecretRows (map wr_secret (filter (\<lambda>row. wr_id row = i) (webhooks_t d))), d)"

definition sql_select_webhooks_of :: "string \<Rightarrow> db \<Rightarrow> resp \<times> db" where
  "sql_select_webhooks_of tenant d =
     (if \<not> storable tenant then refuses_text d
      else (WebhookRows (sort_key (\<lambda>row. - wr_createdat row) (filter (\<lambda>row. wr_tenant row = tenant) (webhooks_t d))), d))"

section \<open>The database\<close>

fun sql_exec :: "ms \<Rightarrow> string \<Rightarrow> stmt \<Rightarrow> db \<Rightarrow> resp \<times> db" where
  "sql_exec now uuid (InsertJob t w e p ra) d = sql_insert_job now uuid t w e p ra d"
| "sql_exec now uuid (SelectJob i) d = sql_select_job i d"
| "sql_exec now uuid (SelectJobsAny ids) d = sql_select_jobs_any ids d"
| "sql_exec now uuid (UpdateJob i st n err ra) d = sql_update_job now i st n err ra d"
| "sql_exec now uuid (ResetJob i) d = sql_reset_job now i d"
| "sql_exec now uuid (SelectJobsWhere t st n) d = sql_select_jobs_where t st n d"
| "sql_exec now uuid (SelectNextAttempt i) d = sql_next_attempt i d"
| "sql_exec now uuid (InsertAttempt a) d = sql_insert_attempt now a d"
| "sql_exec now uuid (SelectAttempts i) d = sql_select_attempts i d"
| "sql_exec now uuid (InsertWebhook t u s) d = sql_insert_webhook now uuid t u s d"
| "sql_exec now uuid (SelectWebhook i) d = sql_select_webhook i d"
| "sql_exec now uuid (SelectSecret i) d = sql_select_secret i d"
| "sql_exec now uuid (SelectWebhooksOf t) d = sql_select_webhooks_of t d"
| "sql_exec now uuid SelectOne d = (NoRows, d)"

lemmas sql_defs = sql_insert_job_def sql_select_job_def sql_select_jobs_any_def sql_update_job_def sql_reset_job_def
  sql_select_jobs_where_def sql_next_attempt_def sql_insert_attempt_def sql_select_attempts_def
  sql_insert_webhook_def sql_select_webhook_def sql_select_secret_def sql_select_webhooks_of_def violates_def
  refuses_text_def

text \<open>What the schema promises of every state: keys are unique, references resolve, no job has spent
  more attempts than it has (and it has no less than none: the code never sets the column), no attempt number of a job occurs twice.\<close>

definition db_wf :: "db \<Rightarrow> bool" where
  "db_wf d \<longleftrightarrow> distinct (map wr_id (webhooks_t d)) \<and> distinct (map jr_id (jobs_t d)) \<and>
     jr_webhookid ` set (jobs_t d) \<subseteq> wr_id ` set (webhooks_t d) \<and>
     (\<forall>row \<in> set (jobs_t d). jr_attempts row \<le> jr_maxattempts row \<and> 0 \<le> jr_maxattempts row) \<and>
     a_jobId ` set (attempts_t d) \<subseteq> jr_id ` set (jobs_t d) \<and>
     distinct (map (\<lambda>a. (a_jobId a, a_attemptNumber a)) (attempts_t d))"

lemma change_job_keeps_ids [simp]:
  assumes "\<And>row. jr_id (f row) = jr_id row"
  shows "map jr_id (jobs_t (change_job i f d)) = map jr_id (jobs_t d)"
    and "jr_id ` set (jobs_t (change_job i f d)) = jr_id ` set (jobs_t d)"
    and "webhooks_t (change_job i f d) = webhooks_t d" and "attempts_t (change_job i f d) = attempts_t d"
proof -
  show ids: "map jr_id (jobs_t (change_job i f d)) = map jr_id (jobs_t d)"
    by (simp add: change_job_def assms)
  show "jr_id ` set (jobs_t (change_job i f d)) = jr_id ` set (jobs_t d)"
    using arg_cong [OF ids, of set] by simp
qed (simp_all add: change_job_def)

lemma set_change_job: "set (jobs_t (change_job i f d)) = (\<lambda>row. if jr_id row = i then f row else row) ` set (jobs_t d)"
  by (simp add: change_job_def)

lemma row_updates [simp]:
  "jr_id (updated_row now st n err ra row) = jr_id row" "jr_id (reset_row now row) = jr_id row"
  "jr_webhookid (updated_row now st n err ra row) = jr_webhookid row" "jr_webhookid (reset_row now row) = jr_webhookid row"
  "jr_maxattempts (updated_row now st n err ra row) = jr_maxattempts row" "jr_maxattempts (reset_row now row) = jr_maxattempts row"
  "jr_attempts (updated_row now st n err ra row) = jr_attempts row + n" "jr_attempts (reset_row now row) = 0"
  "jr_state (updated_row now st n err ra row) = st" "jr_state (reset_row now row) = Queued"
  by (simp_all add: updated_row_def reset_row_def)

lemma db_wf_change:
  assumes "db_wf d" and "\<And>row. jr_id (f row) = jr_id row" and "\<And>row. jr_webhookid (f row) = jr_webhookid row"
    and "\<forall>row \<in> set (rows_of i d). jr_attempts (f row) \<le> jr_maxattempts (f row) \<and> 0 \<le> jr_maxattempts (f row)"
  shows "db_wf (change_job i f d)"
  using assms(1,4) unfolding db_wf_def change_job_keeps_ids [OF assms(2)]
  by (auto simp: set_change_job rows_of_def assms(3) image_subset_iff)

lemma extend_attempt [simp]:
  "a_jobId (attempt_record.extend a x) = a_jobId a" "a_attemptNumber (attempt_record.extend a x) = a_attemptNumber a"
  by (simp_all add: attempt_record.defs)

lemma distinct_attempts_snoc:
  "distinct (map (\<lambda>a. (a_jobId a, a_attemptNumber a)) xs) \<Longrightarrow>
     (\<forall>b \<in> set xs. a_jobId b = a_jobId a \<longrightarrow> a_attemptNumber b \<noteq> a_attemptNumber a) \<Longrightarrow>
     distinct (map (\<lambda>a. (a_jobId a, a_attemptNumber a)) (xs @ [a]))"
  by auto

lemma rows_within: "db_wf d \<Longrightarrow> row \<in> set (rows_of i d) \<Longrightarrow> 0 \<le> jr_maxattempts row"
  by (simp add: db_wf_def rows_of_def)

lemma sql_update_wf: "db_wf d \<Longrightarrow> db_wf (snd (sql_update_job now i st n err ra d))"
  using rows_within [of d _ i] by (auto simp: sql_update_job_def violates_def refuses_text_def Let_def intro!: db_wf_change)

lemma sql_reset_wf: "db_wf d \<Longrightarrow> db_wf (snd (sql_reset_job now i d))"
  using rows_within [of d _ i] by (auto simp: sql_reset_job_def Let_def intro!: db_wf_change)

lemma sql_insert_attempt_wf: "db_wf d \<Longrightarrow> db_wf (snd (sql_insert_attempt now a d))"
  unfolding sql_insert_attempt_def
  by (auto simp: violates_def refuses_text_def db_wf_def attempt_numbers_def image_iff)

lemma sql_insert_job_wf: "db_wf d \<Longrightarrow> db_wf (snd (sql_insert_job now uuid t w e p ra d))"
  by (auto simp: sql_insert_job_def violates_def refuses_text_def Let_def db_wf_def max_attempts_default_def split: option.split)

lemma sql_insert_webhook_wf: "db_wf d \<Longrightarrow> db_wf (snd (sql_insert_webhook now uuid t u s d))"
  by (auto simp: sql_insert_webhook_def violates_def refuses_text_def Let_def db_wf_def)

lemma foldr_max_ge: "x \<in> set (ns :: int list) \<Longrightarrow> x \<le> foldr max ns z"
  by (induction ns) auto

lemma attempt_numbers_snoc:
  "a_jobId b = i \<Longrightarrow> attempt_numbers i (d\<lparr>attempts_t := attempts_t d @ [b]\<rparr>) = insert (a_attemptNumber b) (attempt_numbers i d)"
  by (auto simp: attempt_numbers_def image_iff)

lemma sql_exec_wf:
  assumes "db_wf d"
  shows "db_wf (snd (sql_exec now uuid st d))"
  using assms
  by (cases st) (simp_all add: sql_update_wf sql_reset_wf sql_insert_attempt_wf sql_insert_job_wf
      sql_insert_webhook_wf, simp_all add: sql_defs Let_def)

section \<open>Properties\<close>

text \<open>Every statement keeps the schema's promises: unique keys, references that resolve, attempts
  within the maximum, and one audit row per attempt number of a job.\<close>

theorem statements_keep_schema:
  assumes "db_wf d"
  shows "db_wf (snd (sql_exec now uuid st d))"
  using assms by (rule sql_exec_wf)

theorem statements_keep_schema_witness:
  "db_wf (snd (sql_exec 5 ''u'' (InsertWebhook ''t'' ''http://h/'' ''s'') \<lparr>webhooks_t = [], jobs_t = [], attempts_t = [], jsonb = Some\<rparr>))"
  by (rule statements_keep_schema) (simp add: db_wf_def)

text \<open>Audit numbers are never reused. For a job that has a row, the number that the query of
  \<open>nextAttemptNumber\<close> gives is larger than every number recorded for it, also after a replay has
  reset its attempts, so a row of storable texts recorded with it is accepted, unless a row of the
  same job was recorded in between.\<close>

theorem next_attempt_is_fresh:
  assumes "sql_next_attempt i d = (NextRow n, d0)" and "i \<in> jr_id ` set (jobs_t d)"
    and "a_jobId a = i" and "a_attemptNumber a = n" and "storable_opt (a_responseBody a)" and "storable_opt (a_error a)"
  shows "(\<forall>k \<in> attempt_numbers i d. k < n) \<and> fst (sql_insert_attempt now a d) = NoRows \<and>
    attempt_numbers i (snd (sql_insert_attempt now a d)) = insert n (attempt_numbers i d)"
proof -
  let ?ns = "map a_attemptNumber (filter (\<lambda>a. a_jobId a = i) (attempts_t d))"
  have n: "n = (if ?ns = [] then 0 else foldr max ?ns (hd ?ns)) + 1"
    using assms(1) by (auto simp: sql_next_attempt_def Let_def)
  have set: "attempt_numbers i d = set ?ns" by (auto simp: attempt_numbers_def)
  have below: "\<forall>k \<in> attempt_numbers i d. k < n"
  proof
    fix k
    assume k: "k \<in> attempt_numbers i d"
    then have "?ns \<noteq> []" unfolding set by (metis empty_iff empty_set)
    moreover have "k \<le> foldr max ?ns (hd ?ns)" using k unfolding set by (rule foldr_max_ge)
    ultimately show "k < n" unfolding n by (simp del: map_is_Nil_conv)
  qed
  then show ?thesis
    using assms(2-6) by (auto simp: sql_insert_attempt_def attempt_numbers_snoc)
qed

theorem next_attempt_is_fresh_witness:
  "fst (sql_insert_attempt 9 \<lparr>a_jobId = ''j'', a_attemptNumber = 4, a_statusCode = None, a_responseBody = None, a_error = None, a_durationMs = 1\<rparr>
     \<lparr>webhooks_t = [], jobs_t = [\<lparr>jr_id = ''j'', jr_tenant = ''t'', jr_webhookid = ''w'', jr_eventtype = ''e'', jr_payload = ''{}'',
         jr_state = Queued, jr_attempts = 0, jr_maxattempts = 5, jr_runat = 0, jr_lasterror = None, jr_createdat = 0, jr_updatedat = 0\<rparr>],
      attempts_t = [\<lparr>a_jobId = ''j'', a_attemptNumber = 3, a_statusCode = None, a_responseBody = None, a_error = None,
         a_durationMs = 1, a_attemptedAt = 0\<rparr>], jsonb = Some\<rparr>) = NoRows"
  (is "fst (sql_insert_attempt 9 ?a ?d) = NoRows")
proof -
  have "sql_next_attempt ''j'' ?d = (NextRow 4, ?d)" by (simp add: sql_next_attempt_def)
  from next_attempt_is_fresh [OF this, of ?a 9] show ?thesis by (simp add: storable_opt_def)
qed

end
