(* ===== verification/Queue.thy ===== *)
theory Queue
  imports Effects
begin

text \<open>
  The reliable queue, \<open>src/src/queue.ts\<close>: its keys, its Lua scripts and the TypeScript functions
  around them. Their specification, a queue of five structures with one pure operation per script,
  and the proof that the scripts refine it are in \<open>Queue_Model\<close>.
\<close>

section \<open>Keys and constants\<close>

definition READY_QUEUE :: key where "READY_QUEUE = ''queue:ready''"
definition INFLIGHT_QUEUE :: key where "INFLIGHT_QUEUE = ''queue:inflight''"
definition LEASES :: key where "LEASES = ''queue:leases''"
definition DELAYED :: key where "DELAYED = ''queue:delayed''"
definition DLQ :: key where "DLQ = ''queue:dlq''"

definition VISIBILITY_TIMEOUT_MS :: ms where "VISIBILITY_TIMEOUT_MS = 60000"

lemma queue_key_distinct [simp, key_simps]:
  "READY_QUEUE \<noteq> INFLIGHT_QUEUE" "READY_QUEUE \<noteq> LEASES" "READY_QUEUE \<noteq> DELAYED" "READY_QUEUE \<noteq> DLQ"
  "INFLIGHT_QUEUE \<noteq> READY_QUEUE" "INFLIGHT_QUEUE \<noteq> LEASES" "INFLIGHT_QUEUE \<noteq> DELAYED" "INFLIGHT_QUEUE \<noteq> DLQ"
  "LEASES \<noteq> READY_QUEUE" "LEASES \<noteq> INFLIGHT_QUEUE" "LEASES \<noteq> DELAYED" "LEASES \<noteq> DLQ"
  "DELAYED \<noteq> READY_QUEUE" "DELAYED \<noteq> INFLIGHT_QUEUE" "DELAYED \<noteq> LEASES" "DELAYED \<noteq> DLQ"
  "DLQ \<noteq> READY_QUEUE" "DLQ \<noteq> INFLIGHT_QUEUE" "DLQ \<noteq> LEASES" "DLQ \<noteq> DELAYED"
  by (simp_all add: READY_QUEUE_def INFLIGHT_QUEUE_def LEASES_def DELAYED_def DLQ_def)

section \<open>The Lua scripts\<close>

definition ack_script :: "key \<Rightarrow> key \<Rightarrow> jobid \<Rightarrow> lua" where
  "ack_script KEYS1 KEYS2 ARGV1 =
     redis_call (Lrem KEYS1 1 ARGV1) (\<lambda>_.
     redis_call (Zrem KEYS2 ARGV1) (\<lambda>_.
     Ret (RInt 1)))"

definition retry_script :: "key \<Rightarrow> key \<Rightarrow> key \<Rightarrow> jobid \<Rightarrow> ms \<Rightarrow> lua" where
  "retry_script KEYS1 KEYS2 KEYS3 ARGV1 ARGV2 =
     redis_call (Lrem KEYS1 1 ARGV1) (\<lambda>_.
     redis_call (Zrem KEYS2 ARGV1) (\<lambda>_.
     redis_call (Zadd KEYS3 ARGV2 ARGV1) (\<lambda>_.
     Ret (RInt 1))))"

definition dlq_script :: "key \<Rightarrow> key \<Rightarrow> key \<Rightarrow> jobid \<Rightarrow> lua" where
  "dlq_script KEYS1 KEYS2 KEYS3 ARGV1 =
     redis_call (Lrem KEYS1 1 ARGV1) (\<lambda>_.
     redis_call (Zrem KEYS2 ARGV1) (\<lambda>_.
     redis_call (Lpush KEYS3 ARGV1) (\<lambda>_.
     Ret (RInt 1))))"

definition promote_script :: "key \<Rightarrow> key \<Rightarrow> ms \<Rightarrow> int \<Rightarrow> lua" where
  "promote_script KEYS1 KEYS2 ARGV1 ARGV2 =
     redis_call (Zrangebyscore KEYS1 ARGV1 ARGV2) (\<lambda>due.
     for_each (\<lambda>jobId next.
         redis_call (Zrem KEYS1 jobId) (\<lambda>_.
         redis_call (Lpush KEYS2 jobId) (\<lambda>_. next)))
       (bulk_strs due)
       (Ret (RInt (int (length (bulk_strs due))))))"

definition reap_script :: "key \<Rightarrow> key \<Rightarrow> key \<Rightarrow> ms \<Rightarrow> int \<Rightarrow> lua" where
  "reap_script KEYS1 KEYS2 KEYS3 ARGV1 ARGV2 =
     redis_call (Zrangebyscore KEYS1 ARGV1 ARGV2) (\<lambda>expired.
     for_each (\<lambda>jobId next.
         redis_call (Zrem KEYS1 jobId) (\<lambda>_.
         redis_call (Lrem KEYS2 1 jobId) (\<lambda>_.
         redis_call (Lpush KEYS3 jobId) (\<lambda>_. next))))
       (bulk_strs expired)
       (Ret expired))"

section \<open>The TypeScript functions\<close>

definition push :: "jobid \<Rightarrow> int js" where
  "push jobId = await (RCmd (Lpush READY_QUEUE jobId)) (\<lambda>r. Ret (as_int r))"

definition pushDelayed :: "jobid \<Rightarrow> ms \<Rightarrow> unit js" where
  "pushDelayed jobId runAtMs = await (RCmd (Zadd DELAYED runAtMs jobId)) (\<lambda>_. Ret ())"

definition reserve :: "nat \<Rightarrow> jobid option js" where
  "reserve timeoutSeconds =
     await (RCmd (Brpoplpush READY_QUEUE INFLIGHT_QUEUE timeoutSeconds)) (\<lambda>r.
     case as_str r of
       None \<Rightarrow> Ret None
     | Some jobId \<Rightarrow>
         if jobId = [] then Ret None
         else await DateNow (\<lambda>now.
              await (RCmd (Zadd LEASES (as_int now + VISIBILITY_TIMEOUT_MS) jobId)) (\<lambda>_.
              Ret (Some jobId))))"

definition ack :: "jobid \<Rightarrow> unit js" where
  "ack jobId = await (Eval ACK_SCRIPT [INFLIGHT_QUEUE, LEASES] [VStr jobId]) (\<lambda>_. Ret ())"

definition retryLater :: "jobid \<Rightarrow> ms \<Rightarrow> unit js" where
  "retryLater jobId runAtMs =
     await (Eval RETRY_SCRIPT [INFLIGHT_QUEUE, LEASES, DELAYED] [VStr jobId, VNum (of_int runAtMs)])
       (\<lambda>_. Ret ())"

definition deadLetter :: "jobid \<Rightarrow> unit js" where
  "deadLetter jobId = await (Eval DLQ_SCRIPT [INFLIGHT_QUEUE, LEASES, DLQ] [VStr jobId]) (\<lambda>_. Ret ())"

definition promoteDue :: "ms \<Rightarrow> int \<Rightarrow> int js" where
  "promoteDue nowMs batchSize =
     await (Eval PROMOTE_SCRIPT [DELAYED, READY_QUEUE] [VNum (of_int nowMs), VNum (of_int batchSize)])
       (\<lambda>promoted. Ret (as_int promoted))"

definition reapExpired :: "ms \<Rightarrow> int \<Rightarrow> jobid list js" where
  "reapExpired nowMs batchSize =
     await (Eval REAP_SCRIPT [LEASES, INFLIGHT_QUEUE, READY_QUEUE]
              [VNum (of_int nowMs), VNum (of_int batchSize)])
       (\<lambda>reaped. Ret (as_strs reaped))"

record queue_stats =
  st_ready :: int
  st_inflight :: int
  st_delayed :: int
  st_dlq :: int

text \<open>A pipeline reports the error of a command in its slot instead of rejecting; the slot's value is
  then absent and counts 0.\<close>

definition stats :: "queue_stats js" where
  "stats =
     Do (RCmd (Llen READY_QUEUE)) (\<lambda>r0.
     Do (RCmd (Llen INFLIGHT_QUEUE)) (\<lambda>r1.
     Do (RCmd (Zcard DELAYED)) (\<lambda>r2.
     Do (RCmd (Llen DLQ)) (\<lambda>r3.
     Ret \<lparr>st_ready = as_int r0, st_inflight = as_int r1, st_delayed = as_int r2, st_dlq = as_int r3\<rparr>))))"

definition peekDlq :: "int \<Rightarrow> jobid list js" where
  "peekDlq limit = await (RCmd (Lrange DLQ 0 (limit - 1))) (\<lambda>r. Ret (as_strs r))"

definition popDlq :: "jobid option js" where
  "popDlq = await (RCmd (Rpop DLQ)) (\<lambda>r. Ret (as_str r))"

end
