(* ===== verification/RateLimit.thy ===== *)
theory RateLimit
  imports Effects
begin

text \<open>
  The per-webhook token bucket, \<open>src/src/ratelimit.ts\<close>: the Lua script and the TypeScript call.
  Lua numbers are exact rationals here (the rounding of doubles is not modelled). The pure bucket
  (\<open>bucket_take\<close>) is the specification; the script computes it on every server with the documented
  behaviour, and the expiry of an idle bucket is not observable.
\<close>

section \<open>The script and its caller\<close>

text \<open>A division by a rate of 0 gives Lua's infinity or NaN; the first place where the script could
  fail on it is the \<open>PEXPIRE\<close>, which rejects a lifetime that is no integer.\<close>

definition token_bucket_body :: "key \<Rightarrow> rat \<Rightarrow> rat \<Rightarrow> rat \<Rightarrow> rat \<Rightarrow> reply \<Rightarrow> lua" where
  "token_bucket_body key rate burst now cost state =
    (let state1 = (case state of RArr [a, b] \<Rightarrow> tonumber a | _ \<Rightarrow> None);
         state2 = (case state of RArr [a, b] \<Rightarrow> tonumber b | _ \<Rightarrow> None);
         tokens = (case state1 of None \<Rightarrow> burst | Some v \<Rightarrow> v);
         ts = (case state1 of None \<Rightarrow> Some now | Some _ \<Rightarrow> state2)
     in case ts of
          None \<Rightarrow> Throw (Failure ''attempt to perform arithmetic on a nil value'')
        | Some ts \<Rightarrow>
            let elapsedSec = max 0 (now - ts) / 1000;
                tokens = min burst (tokens + elapsedSec * rate);
                allowed = (if tokens \<ge> cost then 1 else 0 :: int);
                retryAfterMs = (if tokens \<ge> cost then 0 else \<lceil>((cost - tokens) / rate) * 1000\<rceil>);
                tokens = (if tokens \<ge> cost then tokens - cost else tokens)
            in redis_call (Hset key [(''tokens'', VNum tokens), (''ts'', VNum now)]) (\<lambda>_.
               if rate = 0 then Throw (Failure ''ERR value is not an integer or out of range'')
               else let ttlMs = \<lceil>(burst / rate) * 1000\<rceil> + 1000
                    in redis_call (Pexpire key ttlMs) (\<lambda>_.
                       Ret (RArr [RInt allowed, RInt retryAfterMs]))))"

definition token_bucket_script :: "key \<Rightarrow> rat \<Rightarrow> rat \<Rightarrow> rat \<Rightarrow> rat \<Rightarrow> lua" where
  "token_bucket_script key rate burst now cost =
     redis_call (Hmget key [''tokens'', ''ts'']) (token_bucket_body key rate burst now cost)"

record rate_result =
  rr_allowed :: bool
  rr_retryAfterMs :: int

text \<open>Reading the pair of the reply; any other reply has no \<open>[0]\<close> and \<open>[1]\<close> to read.\<close>

fun rate_reply :: "resp \<Rightarrow> rate_result option" where
  "rate_reply (Rep (RArr [RInt a, RInt d])) = Some \<lparr>rr_allowed = (a = 1), rr_retryAfterMs = d\<rparr>"
| "rate_reply _ = None"

definition take_token :: "key \<Rightarrow> int \<Rightarrow> int \<Rightarrow> int \<Rightarrow> rate_result js" where
  "take_token key ratePerSecond burst cost =
     await DateNow (\<lambda>now.
     await (Eval TOKEN_BUCKET_SCRIPT [key]
              [VNum (of_int ratePerSecond), VNum (of_int burst), VNum (of_int (as_int now)), VNum (of_int cost)])
       (\<lambda>result. case rate_reply result of
          Some res \<Rightarrow> Ret res
        | None \<Rightarrow> Throw (Failure ''Cannot read properties of null'')))"

section \<open>The pure bucket\<close>

text \<open>A bucket is its token count and the time of its last use; \<open>None\<close> is a bucket never used.\<close>

type_synonym bucket = "(rat \<times> rat) option"

definition refill :: "rat \<Rightarrow> rat \<Rightarrow> rat \<Rightarrow> bucket \<Rightarrow> rat" where
  "refill rate burst now b =
     (case b of None \<Rightarrow> burst
      | Some (tokens, ts) \<Rightarrow> min burst (tokens + max 0 (now - ts) / 1000 * rate))"

definition bucket_take :: "rat \<Rightarrow> rat \<Rightarrow> rat \<Rightarrow> rat \<Rightarrow> bucket \<Rightarrow> (bool \<times> int) \<times> bucket" where
  "bucket_take rate burst now cost b =
     (let tokens = refill rate burst now b in
      if tokens \<ge> cost then ((True, 0), Some (tokens - cost, now))
      else ((False, \<lceil>(cost - tokens) / rate * 1000\<rceil>), Some (tokens, now)))"

text \<open>The bucket stored at a key, whether or not it has expired, and the invariant of the entries
  that the script writes: between 0 and \<open>burst\<close> tokens, last used in the past, and due to expire
  only when a refill would have filled it anyway.\<close>

fun stored_bucket :: "entry \<Rightarrow> bucket" where
  "stored_bucket (Some (DHash m, _)) =
     (case (m ''tokens'', m ''ts'') of (Some (VNum q), Some (VNum ts)) \<Rightarrow> Some (q, ts) | _ \<Rightarrow> None)"
| "stored_bucket _ = None"

definition bucket_entry :: "rat \<Rightarrow> rat \<Rightarrow> ms \<Rightarrow> entry \<Rightarrow> bool" where
  "bucket_entry rate burst t e \<longleftrightarrow> e = None \<or>
     (\<exists>m x q ts. e = Some (DHash m, Some x) \<and> m ''tokens'' = Some (VNum q) \<and> m ''ts'' = Some (VNum ts) \<and>
        0 \<le> q \<and> q \<le> burst \<and> ts \<le> of_int t \<and> ts + burst / rate * 1000 \<le> of_int x)"

lemma refill_le: "refill rate burst now b \<le> burst"
  by (auto simp: refill_def split: option.splits)

lemma refill_nonneg: "0 \<le> rate \<Longrightarrow> 0 \<le> burst \<Longrightarrow> \<forall>q ts. b = Some (q, ts) \<longrightarrow> 0 \<le> q \<Longrightarrow> 0 \<le> refill rate burst now b"
  by (auto simp: refill_def split: option.splits intro!: add_nonneg_nonneg mult_nonneg_nonneg)

text \<open>An expired bucket is full: forgetting it changes nothing.\<close>

lemma expired_full:
  assumes e: "bucket_entry rate burst t0 e" and r: "0 < rate" and "live t e = None" and "t0 \<le> t"
  shows "refill rate burst (of_int t) (stored_bucket e) = burst"
proof (cases "e = None")
  case True
  then show ?thesis by (simp add: refill_def)
next
  case False
  with e obtain m x q ts where m: "e = Some (DHash m, Some x)" "m ''tokens'' = Some (VNum q)"
      "m ''ts'' = Some (VNum ts)" "0 \<le> q" "ts + burst / rate * 1000 \<le> of_int x"
    unfolding bucket_entry_def by blast
  with assms(3) have "x \<le> t" by (simp split: if_splits)
  then have "(of_int x :: rat) \<le> of_int t" by simp
  with m(5) have "burst / rate * 1000 \<le> of_int t - ts" by linarith
  then have "burst \<le> (of_int t - ts) / 1000 * rate" using r by (simp add: field_simps)
  also have "\<dots> \<le> max 0 (of_int t - ts) / 1000 * rate" using r by (intro mult_right_mono divide_right_mono) auto
  finally show ?thesis using m by (simp add: refill_def min_def)
qed

text \<open>The second half of the script, after the state has been read.\<close>

definition spend :: "key \<Rightarrow> rat \<Rightarrow> rat \<Rightarrow> rat \<Rightarrow> rat \<Rightarrow> rat \<Rightarrow> lua" where
  "spend key rate burst now cost tokens =
     redis_call (Hset key [(''tokens'', VNum (if tokens \<ge> cost then tokens - cost else tokens)), (''ts'', VNum now)]) (\<lambda>_.
     if rate = 0 then Throw (Failure ''ERR value is not an integer or out of range'')
     else redis_call (Pexpire key (\<lceil>(burst / rate) * 1000\<rceil> + 1000)) (\<lambda>_.
          Ret (RArr [RInt (if tokens \<ge> cost then 1 else 0),
                     RInt (if tokens \<ge> cost then 0 else \<lceil>((cost - tokens) / rate) * 1000\<rceil>)])))"

lemma body_fresh:
  "token_bucket_body k rate burst now cost (RArr [RNil, RNil]) = spend k rate burst now cost burst"
  by (simp add: token_bucket_body_def spend_def Let_def cong: if_cong)

lemma body_stored:
  "token_bucket_body k rate burst now cost (RArr [RBulk (VNum q), RBulk (VNum ts)]) =
     spend k rate burst now cost (refill rate burst now (Some (q, ts)))"
  by (simp add: token_bucket_body_def spend_def refill_def Let_def cong: if_cong)

lemma bucket_entry_live:
  assumes "bucket_entry rate burst t0 e" and "live t e \<noteq> None"
  shows "\<exists>m x q ts. live t e = Some (DHash m, Some x) \<and> e = Some (DHash m, Some x) \<and> t < x \<and>
           m ''tokens'' = Some (VNum q) \<and> m ''ts'' = Some (VNum ts) \<and> stored_bucket e = Some (q, ts)"
  using assms by (auto simp: bucket_entry_def split: if_splits)

context redis_server
begin

lemma script_reads:
  assumes "bucket_entry rate burst t0 (ent r k)" and "0 < rate" and "t0 \<le> t"
  shows "lua_run exec t (token_bucket_script k rate burst (of_int t) cost) r =
           lua_run exec t (spend k rate burst (of_int t) cost (refill rate burst (of_int t) (stored_bucket (ent r k))))
             (snd (exec t (Hmget k [''tokens'', ''ts'']) r)) \<and>
         ent (snd (exec t (Hmget k [''tokens'', ''ts'']) r)) = ent r"
proof (cases "live t (ent r k)")
  case None
  then have h: "is_hash_entry (live t (ent r k))" by simp
  show ?thesis
    using hmget [OF h, where fs = "[''tokens'', ''ts'']"] None
      expired_full [OF assms(1,2) None assms(3)]
    by (simp add: token_bucket_script_def body_fresh)
next
  case (Some d)
  then obtain m x q ts where m: "live t (ent r k) = Some (DHash m, Some x)"
      "m ''tokens'' = Some (VNum q)" "m ''ts'' = Some (VNum ts)" "stored_bucket (ent r k) = Some (q, ts)"
    using bucket_entry_live [OF assms(1), of t] by auto
  then have h: "is_hash_entry (live t (ent r k))" by simp
  show ?thesis
    using hmget [OF h, where fs = "[''tokens'', ''ts'']"] m
    by (simp add: token_bucket_script_def body_stored)
qed

lemma spend_effect:
  assumes h: "hash_ready t (ent r k)" and "0 < rate" and "0 \<le> burst"
    and s: "lua_run exec t (spend k rate burst now cost q) r = (res, r')"
  shows "res = Inr (RArr [RInt (if q \<ge> cost then 1 else 0), RInt (if q \<ge> cost then 0 else \<lceil>((cost - q) / rate) * 1000\<rceil>)])"
    and "ent r' = (ent r)(k := Some (DHash ((hash_of (live t (ent r k)))(''tokens'' \<mapsto> VNum (if q \<ge> cost then q - cost else q),
                                                   ''ts'' \<mapsto> VNum now)),
                              Some (t + (\<lceil>burst / rate * 1000\<rceil> + 1000))))"
proof -
  have "0 \<le> \<lceil>(burst / rate) * 1000\<rceil>"
    using assms(2,3) ceiling_mono [of 0 "(burst / rate) * 1000"] by simp
  then have ttl: "0 < \<lceil>(burst / rate) * 1000\<rceil> + 1000" by linarith
  have "rate \<noteq> 0" using assms(2) by simp
  note run = hset_pexpire [OF h ttl s [unfolded spend_def if_not_P [OF this]]]
  show "res = Inr (RArr [RInt (if q \<ge> cost then 1 else 0), RInt (if q \<ge> cost then 0 else \<lceil>((cost - q) / rate) * 1000\<rceil>)])"
    by (rule run(1))
  show "ent r' = (ent r)(k := Some (DHash ((hash_of (live t (ent r k)))(''tokens'' \<mapsto> VNum (if q \<ge> cost then q - cost else q),
                                                   ''ts'' \<mapsto> VNum now)),
                              Some (t + (\<lceil>burst / rate * 1000\<rceil> + 1000))))"
    unfolding run(2) by simp
qed

text \<open>The script is the pure operation on the stored bucket, expired or not, and keeps the invariant.\<close>

lemma token_bucket_refines:
  assumes e: "bucket_entry rate burst t0 (ent r k)" and t: "t0 \<le> t" and rate: "0 < rate"
    and cost: "0 \<le> cost" and burst: "0 \<le> burst"
    and b: "bucket_take rate burst (of_int t) cost (stored_bucket (ent r k)) = ((ok, d), b')"
    and s: "lua_run exec t (token_bucket_script k rate burst (of_int t) cost) r = (res, r')"
  shows "res = Inr (RArr [RInt (if ok then 1 else 0), RInt d])"
    and "stored_bucket (ent r' k) = b'" and "bucket_entry rate burst t (ent r' k)"
    and "k' \<noteq> k \<Longrightarrow> ent r' k' = ent r k'"
proof -
  let ?q = "refill rate burst (of_int t) (stored_bucket (ent r k))"
  let ?r = "snd (exec t (Hmget k [''tokens'', ''ts'']) r)"
  from script_reads [OF e rate t, of cost] s
  have run: "lua_run exec t (spend k rate burst (of_int t) cost ?q) ?r = (res, r')" and er: "ent ?r = ent r"
    by auto
  have h: "hash_ready t (ent ?r k)"
    using bucket_entry_live [OF e, of t] er by (cases "live t (ent r k) = None") (auto simp: hash_ready_def)
  have q: "0 \<le> ?q" "?q \<le> burst"
    using refill_le refill_nonneg [of rate burst "stored_bucket (ent r k)" "of_int t"] e rate burst
    by (auto simp: bucket_entry_def)
  have x: "of_int t + burst / rate * 1000 \<le> (of_int (t + (\<lceil>burst / rate * 1000\<rceil> + 1000)) :: rat)"
    using le_of_int_ceiling [of "burst / rate * 1000"] unfolding of_int_add of_int_numeral by linarith
  note eff = spend_effect [OF h rate burst run, unfolded er]
  show "res = Inr (RArr [RInt (if ok then 1 else 0), RInt d])"
    using eff(1) b by (auto simp: bucket_take_def Let_def split: if_splits)
  show "stored_bucket (ent r' k) = b'"
    using eff(2) b by (auto simp: bucket_take_def Let_def split: if_splits)
  show "bucket_entry rate burst t (ent r' k)"
    using q x cost unfolding eff(2) bucket_entry_def by (auto simp: max_def)
  show "k' \<noteq> k \<Longrightarrow> ent r' k' = ent r k'" using eff(2) by simp
qed

end

section \<open>Admission over time\<close>

text \<open>A series of calls at the given times, each asking for one token: how many are admitted.\<close>

primrec admitted :: "rat \<Rightarrow> rat \<Rightarrow> ms list \<Rightarrow> bucket \<Rightarrow> nat" where
  "admitted rate burst [] b = 0"
| "admitted rate burst (t # ts) b =
     (case bucket_take rate burst (of_int t) 1 b of
        ((ok, _), b') \<Rightarrow> (if ok then 1 else 0) + admitted rate burst ts b')"

lemma admitted_Cons:
  "(of_nat (admitted rate burst (t # ts) b) :: rat) =
     (if 1 \<le> refill rate burst (of_int t) b then 1 else 0) +
     of_nat (admitted rate burst ts (Some (if 1 \<le> refill rate burst (of_int t) b
       then refill rate burst (of_int t) b - 1 else refill rate burst (of_int t) b, of_int t)))"
  by (simp add: bucket_take_def Let_def)

lemma admitted_from:
  assumes "0 \<le> rate" and "sorted (t # ts)"
  shows "of_nat (admitted rate burst ts (Some (q, of_int t))) \<le>
           max 0 q + (of_int (last (t # ts)) - of_int t) / 1000 * rate"
  using assms(2)
proof (induction ts arbitrary: t q)
  case Nil
  then show ?case by simp
next
  case (Cons t' ts)
  let ?q = "refill rate burst (of_int t') (Some (q, of_int t))"
  let ?q' = "if 1 \<le> ?q then ?q - 1 else ?q" and ?l = "of_int (last (t' # ts)) :: rat"
  have t': "t \<le> t'" "sorted (t' # ts)" using Cons.prems by auto
  have q: "?q \<le> q + (of_int t' - of_int t) / 1000 * rate"
    using t' by (simp add: refill_def min_le_iff_disj)
  have g: "0 \<le> (of_int t' - of_int t) / 1000 * rate" using t' assms(1) by (intro mult_nonneg_nonneg) auto
  have "of_nat (admitted rate burst ts (Some (?q', of_int t'))) \<le> max 0 ?q' + (?l - of_int t') / 1000 * rate"
    by (rule Cons.IH [OF t'(2)])
  then have "of_nat (admitted rate burst (t' # ts) (Some (q, of_int t))) \<le>
      (if 1 \<le> ?q then 1 else 0) + (max 0 ?q' + (?l - of_int t') / 1000 * rate)"
    unfolding admitted_Cons by (rule add_left_mono)
  also have "\<dots> \<le> max 0 ?q + (?l - of_int t') / 1000 * rate" by auto
  also have "\<dots> \<le> max 0 q + (of_int t' - of_int t) / 1000 * rate + (?l - of_int t') / 1000 * rate"
    using q g by (auto simp: max_def)
  also have "\<dots> = max 0 q + (?l - of_int t) / 1000 * rate"
    by (simp add: algebra_simps diff_divide_distrib)
  finally show ?case by simp
qed

lemma admitted_window:
  assumes "0 \<le> rate" and "0 \<le> burst" and "sorted (t # ts)"
  shows "of_nat (admitted rate burst (t # ts) b) \<le>
           burst + (of_int (last (t # ts)) - of_int t) / 1000 * rate"
proof -
  let ?q = "refill rate burst (of_int t) b"
  let ?q' = "if 1 \<le> ?q then ?q - 1 else ?q"
  have "(of_nat (admitted rate burst (t # ts) b) :: rat) =
      (if 1 \<le> ?q then 1 else 0) + of_nat (admitted rate burst ts (Some (?q', of_int t)))"
    by (rule admitted_Cons)
  also have "\<dots> \<le> (if 1 \<le> ?q then 1 else 0) + (max 0 ?q' + (of_int (last (t # ts)) - of_int t) / 1000 * rate)"
    by (rule add_left_mono) (rule admitted_from [OF assms(1,3)])
  also have "\<dots> \<le> max 0 ?q + (of_int (last (t # ts)) - of_int t) / 1000 * rate" by auto
  also have "\<dots> \<le> burst + (of_int (last (t # ts)) - of_int t) / 1000 * rate"
    using refill_le [of rate burst "of_int t" b] assms(2) by auto
  finally show ?thesis .
qed

text \<open>The same series run as scripts on a server: the replies, in order.\<close>

primrec take_series :: "(ms \<Rightarrow> rcmd \<Rightarrow> 'r \<Rightarrow> reply \<times> 'r) \<Rightarrow> key \<Rightarrow> rat \<Rightarrow> rat \<Rightarrow> ms list \<Rightarrow> 'r \<Rightarrow> (err + reply) list" where
  "take_series exec k rate burst [] r = []"
| "take_series exec k rate burst (t # ts) r =
     (case lua_run exec t (token_bucket_script k rate burst (of_int t) 1) r of
        (res, r') \<Rightarrow> res # take_series exec k rate burst ts r')"

definition admits :: "err + reply \<Rightarrow> bool" where
  "admits res \<longleftrightarrow> (\<exists>d. res = Inr (RArr [RInt 1, d]))"

lemma admits_simp: "admits (Inr (RArr [RInt (if ok then 1 else 0), RInt d])) = ok"
  by (simp add: admits_def)

context redis_server
begin

lemma series_admitted:
  assumes "bucket_entry rate burst t0 (ent r k)" and "sorted (t0 # ts)" and "0 < rate" and "0 \<le> burst"
  shows "length (filter admits (take_series exec k rate burst ts r)) =
           admitted rate burst ts (stored_bucket (ent r k))"
  using assms(1,2)
proof (induction ts arbitrary: r t0)
  case Nil
  then show ?case by simp
next
  case (Cons t ts)
  obtain ok d b' where b: "bucket_take rate burst (of_int t) 1 (stored_bucket (ent r k)) = ((ok, d), b')"
    by (metis prod.exhaust)
  obtain res r' where s: "lua_run exec t (token_bucket_script k rate burst (of_int t) 1) r = (res, r')"
    by (metis prod.exhaust)
  have t: "t0 \<le> t" "sorted (t # ts)" using Cons.prems(2) by auto
  note ref = token_bucket_refines [OF Cons.prems(1) t(1) assms(3) _ assms(4) b s]
  have "length (filter admits (take_series exec k rate burst ts r')) = admitted rate burst ts b'"
    using Cons.IH [OF ref(3) t(2)] ref(2) by simp
  then show ?case using ref(1) b s admits_simp [of ok d] by simp
qed

end

lemma refill_time:
  assumes "0 < (rate :: rat)"
  shows "x / rate * 1000 \<le> d \<longleftrightarrow> x \<le> d / 1000 * rate"
    and "d < x / rate * 1000 \<longleftrightarrow> d / 1000 * rate < x"
  using assms by (simp_all add: field_simps)

section \<open>Properties\<close>

text \<open>C18: The limiter limits. On every server with the documented behaviour, for calls at
  non-decreasing times (one clock for the workers and the server), the number of deliveries
  admitted by a bucket in any window is at most \<open>burst\<close> plus \<open>rate\<close> per second of the window,
  whatever happened before the window and whether or not the bucket's key expired.\<close>

theorem rate_limit_window:
  assumes "redis_server exec ent" and "bucket_entry rate burst t0 (ent r k)"
    and "sorted (t0 # t # ts)" and "0 < rate" and "0 \<le> burst"
  shows "of_nat (length (filter admits (take_series exec k rate burst (t # ts) r))) \<le>
           burst + (of_int (last (t # ts)) - of_int t) / 1000 * rate"
proof -
  have "length (filter admits (take_series exec k rate burst (t # ts) r)) =
      admitted rate burst (t # ts) (stored_bucket (ent r k))"
    using redis_server.series_admitted [OF assms(1,2)] assms(3-5) by blast
  then show ?thesis
    using admitted_window [of rate burst t ts "stored_bucket (ent r k)"] assms(3-5) by simp
qed

theorem rate_limit_window_witness:
  "of_nat (length (filter admits (take_series mem_exec ''b'' 1 2 [0, 0, 0, 1000] (\<lambda>_. None)))) \<le> (3 :: rat)"
  using rate_limit_window [OF mem_server, of 1 2 0 "\<lambda>_. None" "''b''" 0 "[0, 0, 1000]"]
  by (simp add: bucket_entry_def del: take_series.simps)

text \<open>A throttled caller is told exactly when to come back: if a call is refused with
  \<open>retryAfterMs = d\<close>, then with no other call in between a call \<open>d\<close> milliseconds later is admitted,
  and a call one millisecond earlier than that is refused.\<close>

theorem retry_after_exact:
  assumes "bucket_take rate burst (of_int t) cost b = ((False, d), b')" and "0 < rate" and "cost \<le> burst"
  shows "0 < d \<and> fst (fst (bucket_take rate burst (of_int (t + d)) cost b')) \<and>
    \<not> fst (fst (bucket_take rate burst (of_int (t + d - 1)) cost b'))"
proof -
  let ?q = "refill rate burst (of_int t) b"
  let ?w = "(cost - ?q) / rate * 1000"
  have q: "?q < cost" and d: "d = \<lceil>?w\<rceil>" and b': "b' = Some (?q, of_int t)"
    using assms(1) by (auto simp: bucket_take_def Let_def split: if_splits)
  have w: "0 < ?w" using q assms(2) by simp
  have "0 < d" unfolding d using w by (simp only: zero_less_ceiling)
  have d1: "?w \<le> of_int d" and d2: "of_int d - 1 < ?w"
    unfolding d by (rule le_of_int_ceiling, rule ceiling_correct [THEN conjunct1])
  from d1 d2 have "cost - ?q \<le> of_int d / 1000 * rate" and "(of_int d - 1) / 1000 * rate < cost - ?q"
    unfolding refill_time [OF assms(2)] .
  with assms(3) \<open>0 < d\<close> show ?thesis
    by (auto simp: bucket_take_def Let_def b' refill_def min_le_iff_disj not_le max_def)
qed

theorem retry_after_exact_witness:
  "fst (fst (bucket_take 10 1 (of_int (7 + 100)) 1 (Some (0, of_int 7))))"
proof -
  have "bucket_take 10 1 (of_int 7) 1 (Some (0, of_int 7)) = ((False, 100), Some (0, of_int 7))"
    by (simp add: bucket_take_def refill_def Let_def)
  from retry_after_exact [OF this] show ?thesis by simp
qed

text \<open>The bound needs one clock. The script stores the caller's clock as the time of the last
  use even when it is older than the stored one. Two workers whose clocks differ by one second,
  calling in turn within one and the same millisecond of the server, are admitted again and again:
  at a rate of one per second and a burst of one, three deliveries pass although the callers'
  times span one second and no server time has passed.\<close>

primrec skewed_series :: "(ms \<Rightarrow> rcmd \<Rightarrow> 'r \<Rightarrow> reply \<times> 'r) \<Rightarrow> key \<Rightarrow> rat \<Rightarrow> rat \<Rightarrow> ms \<Rightarrow> ms list \<Rightarrow> 'r \<Rightarrow> (err + reply) list" where
  "skewed_series exec k rate burst t [] r = []"
| "skewed_series exec k rate burst t (now # nows) r =
     (case lua_run exec t (token_bucket_script k rate burst (of_int now) 1) r of
        (res, r') \<Rightarrow> res # skewed_series exec k rate burst t nows r')"

theorem clock_skew_mints_tokens:
  "map admits (skewed_series mem_exec ''b'' 1 1 5000 [5000, 4000, 5000, 4000, 5000] (\<lambda>_. None)) =
     [True, False, True, False, True]"
  by (simp add: token_bucket_script_def token_bucket_body_def admits_def Let_def)

end
