(* ===== verification/Circuit.thy ===== *)
theory Circuit
  imports Effects
begin

text \<open>
  The per-webhook circuit breaker, \<open>src/src/circuit.ts\<close>: the three Lua scripts, their callers, and
  the pure three-state machine (\<open>breaker\<close>) that they implement on every server with the documented
  behaviour. Times are whole milliseconds, as \<open>Date.now()\<close> gives them.
\<close>

section \<open>The scripts and their callers\<close>

definition STATE_TTL_MS :: ms where "STATE_TTL_MS = 60 * 60 * 1000"

datatype circuit_state = Closed | Open | Half_open

fun state_text :: "circuit_state \<Rightarrow> string" where
  "state_text Closed = ''closed''"
| "state_text Open = ''open''"
| "state_text Half_open = ''half_open''"

definition check_script :: "key \<Rightarrow> rat \<Rightarrow> rat \<Rightarrow> ms \<Rightarrow> lua" where
  "check_script key now cooldown ARGV3 =
     redis_call (Hget key ''state'') (\<lambda>state.
     if state = RNil \<or> state = RBulk (VStr ''closed'') then Ret (RBulk (VStr ''closed''))
     else if state = RBulk (VStr ''half_open'') then Ret (RBulk (VStr ''half_open''))
     else redis_call (Hget key ''openedAt'') (\<lambda>opened.
          let openedAt = (case tonumber opened of None \<Rightarrow> 0 | Some v \<Rightarrow> v)
          in if now - openedAt \<ge> cooldown then
               redis_call (Hset key [(''state'', VStr ''half_open'')]) (\<lambda>_.
               redis_call (Pexpire key ARGV3) (\<lambda>_.
               Ret (RBulk (VStr ''half_open''))))
             else Ret (RBulk (VStr ''open''))))"

definition success_script :: "key \<Rightarrow> ms \<Rightarrow> lua" where
  "success_script key ARGV1 =
     redis_call (Hset key [(''state'', VStr ''closed''), (''failures'', VNum 0)]) (\<lambda>_.
     redis_call (Pexpire key ARGV1) (\<lambda>_.
     Ret (RBulk (VStr ''closed''))))"

definition failure_script :: "key \<Rightarrow> rat \<Rightarrow> rat \<Rightarrow> ms \<Rightarrow> lua" where
  "failure_script key threshold now ttl =
     redis_call (Hget key ''state'') (\<lambda>state.
     if state = RBulk (VStr ''half_open'') then
       redis_call (Hset key [(''state'', VStr ''open''), (''openedAt'', VNum now), (''failures'', VNum threshold)]) (\<lambda>_.
       redis_call (Pexpire key ttl) (\<lambda>_.
       Ret (RBulk (VStr ''open''))))
     else
       redis_call (Hincrby key ''failures'' 1) (\<lambda>failures.
       case tonumber failures of
         None \<Rightarrow> Throw (Failure ''attempt to compare a number with nil'')
       | Some failures \<Rightarrow>
           if failures \<ge> threshold then
             redis_call (Hset key [(''state'', VStr ''open''), (''openedAt'', VNum now)]) (\<lambda>_.
             redis_call (Pexpire key ttl) (\<lambda>_.
             Ret (RBulk (VStr ''open''))))
           else
             redis_call (Pexpire key ttl) (\<lambda>_.
             Ret (RBulk (VStr ''closed'')))))"

fun as_circuit :: "resp \<Rightarrow> circuit_state" where
  "as_circuit (Rep (RBulk (VStr s))) =
     (if s = ''open'' then Open else if s = ''half_open'' then Half_open else Closed)"
| "as_circuit _ = Closed"

definition check :: "key \<Rightarrow> int \<Rightarrow> circuit_state js" where
  "check key cooldownMs =
     await DateNow (\<lambda>now.
     await (Eval CHECK_SCRIPT [key] [VNum (of_int (as_int now)), VNum (of_int cooldownMs), VNum (of_int STATE_TTL_MS)])
       (\<lambda>state. Ret (as_circuit state)))"

definition recordSuccess :: "key \<Rightarrow> unit js" where
  "recordSuccess key = await (Eval SUCCESS_SCRIPT [key] [VNum (of_int STATE_TTL_MS)]) (\<lambda>_. Ret ())"

definition recordFailure :: "key \<Rightarrow> int \<Rightarrow> circuit_state js" where
  "recordFailure key threshold =
     await DateNow (\<lambda>now.
     await (Eval FAILURE_SCRIPT [key] [VNum (of_int threshold), VNum (of_int (as_int now)), VNum (of_int STATE_TTL_MS)])
       (\<lambda>state. Ret (as_circuit state)))"

section \<open>The breaker\<close>

record breaker =
  b_state :: circuit_state
  b_failures :: int
  b_openedAt :: int

definition new_breaker :: breaker where
  "new_breaker = \<lparr>b_state = Closed, b_failures = 0, b_openedAt = 0\<rparr>"

definition check_b :: "int \<Rightarrow> int \<Rightarrow> breaker \<Rightarrow> circuit_state \<times> breaker" where
  "check_b now cooldown b =
     (case b_state b of
        Closed \<Rightarrow> (Closed, b)
      | Half_open \<Rightarrow> (Half_open, b)
      | Open \<Rightarrow> if now - b_openedAt b \<ge> cooldown then (Half_open, b\<lparr>b_state := Half_open\<rparr>) else (Open, b))"

definition success_b :: "breaker \<Rightarrow> breaker" where
  "success_b b = b\<lparr>b_state := Closed, b_failures := 0\<rparr>"

definition failure_b :: "int \<Rightarrow> int \<Rightarrow> breaker \<Rightarrow> circuit_state \<times> breaker" where
  "failure_b threshold now b =
     (if b_state b = Half_open then (Open, b\<lparr>b_state := Open, b_openedAt := now, b_failures := threshold\<rparr>)
      else if b_failures b + 1 \<ge> threshold then
        (Open, b\<lparr>b_failures := b_failures b + 1, b_state := Open, b_openedAt := now\<rparr>)
      else (Closed, b\<lparr>b_failures := b_failures b + 1\<rparr>))"

text \<open>The breaker that a live hash stores. \<open>breaker_hash\<close> says that the fields have their types;
  a key that is absent or expired is a new breaker.\<close>

definition hash_state :: "(string \<rightharpoonup> val) \<Rightarrow> circuit_state" where
  "hash_state m = (if m ''state'' = Some (VStr ''open'') then Open
     else if m ''state'' = Some (VStr ''half_open'') then Half_open else Closed)"

fun num_field :: "val option \<Rightarrow> int" where
  "num_field (Some (VNum q)) = \<lfloor>q\<rfloor>"
| "num_field _ = 0"

definition int_field :: "val option \<Rightarrow> bool" where
  "int_field v \<longleftrightarrow> v = None \<or> (\<exists>i. v = Some (VNum (of_int i)))"

definition breaker_hash :: "(string \<rightharpoonup> val) \<Rightarrow> bool" where
  "breaker_hash m \<longleftrightarrow> m ''state'' \<in> {None, Some (VStr ''closed''), Some (VStr ''open''), Some (VStr ''half_open'')} \<and>
     int_field (m ''failures'') \<and> int_field (m ''openedAt'')"

definition breaker_of_hash :: "(string \<rightharpoonup> val) \<Rightarrow> breaker" where
  "breaker_of_hash m = \<lparr>b_state = hash_state m, b_failures = num_field (m ''failures''),
     b_openedAt = num_field (m ''openedAt'')\<rparr>"

definition breaker_at :: "ms \<Rightarrow> entry \<Rightarrow> breaker" where
  "breaker_at t e = breaker_of_hash (hash_of (live t e))"

text \<open>What a write at server time \<open>t\<close> leaves: the fields of the breaker and a full lifetime.\<close>

definition stores :: "ms \<Rightarrow> breaker \<Rightarrow> entry \<Rightarrow> bool" where
  "stores t b e \<longleftrightarrow> (\<exists>m. e = Some (DHash m, Some (t + STATE_TTL_MS)) \<and> breaker_hash m \<and> breaker_of_hash m = b)"

definition breaker_entry :: "ms \<Rightarrow> entry \<Rightarrow> bool" where
  "breaker_entry t e \<longleftrightarrow> hash_ready t e \<and> breaker_hash (hash_of (live t e))"

lemma breaker_at_new: "live t e = None \<Longrightarrow> breaker_at t e = new_breaker"
  by (simp add: breaker_at_def breaker_of_hash_def new_breaker_def hash_state_def)

lemma int_field_simps [simp]: "int_field None" "int_field (Some (VNum (of_int i)))" "int_field (Some (VNum 0))"
  by (auto simp: int_field_def intro: exI [of _ 0])

lemma int_fieldE:
  assumes "int_field v"
  obtains "v = None" | i where "v = Some (VNum (of_int i))"
  using assms by (auto simp: int_field_def)

text \<open>What the scripts write is the breaker after the operation.\<close>

lemma breaker_write [simp]:
  assumes "breaker_hash m"
  shows "breaker_of_hash (m(''state'' \<mapsto> VStr ''half_open'')) = (breaker_of_hash m)\<lparr>b_state := Half_open\<rparr>"
    and "breaker_of_hash (m(''state'' \<mapsto> VStr ''closed'', ''failures'' \<mapsto> VNum 0)) = success_b (breaker_of_hash m)"
    and "breaker_of_hash (m(''state'' \<mapsto> VStr ''open'', ''openedAt'' \<mapsto> VNum (of_int now))) =
           (breaker_of_hash m)\<lparr>b_state := Open, b_openedAt := now\<rparr>"
    and "breaker_of_hash (m(''state'' \<mapsto> VStr ''open'', ''openedAt'' \<mapsto> VNum (of_int now), ''failures'' \<mapsto> VNum (of_int n))) =
           (breaker_of_hash m)\<lparr>b_state := Open, b_openedAt := now, b_failures := n\<rparr>"
    and "breaker_of_hash (m(''failures'' \<mapsto> VNum (of_int n))) = (breaker_of_hash m)\<lparr>b_failures := n\<rparr>"
    and "breaker_hash (m(''state'' \<mapsto> VStr ''half_open''))"
    and "breaker_hash (m(''state'' \<mapsto> VStr ''closed'', ''failures'' \<mapsto> VNum 0))"
    and "breaker_hash (m(''state'' \<mapsto> VStr ''open'', ''openedAt'' \<mapsto> VNum (of_int now)))"
    and "breaker_hash (m(''state'' \<mapsto> VStr ''open'', ''openedAt'' \<mapsto> VNum (of_int now), ''failures'' \<mapsto> VNum (of_int n)))"
    and "breaker_hash (m(''failures'' \<mapsto> VNum (of_int n)))"
  using assms by (simp_all add: breaker_of_hash_def breaker_hash_def hash_state_def success_b_def)

lemma state_field:
  assumes "breaker_hash m"
  shows "opt_bulk (m ''state'') = RNil \<or> opt_bulk (m ''state'') = RBulk (VStr ''closed'') \<longleftrightarrow>
           b_state (breaker_of_hash m) = Closed"
    and "opt_bulk (m ''state'') = RBulk (VStr ''half_open'') \<longleftrightarrow> b_state (breaker_of_hash m) = Half_open"
    and "\<not> is_err (opt_bulk v)"
  using assms by (cases v; auto simp: breaker_of_hash_def breaker_hash_def hash_state_def)+

lemma openedAt_field:
  "breaker_hash m \<Longrightarrow> (case tonumber (opt_bulk (m ''openedAt'')) of None \<Rightarrow> 0 | Some v \<Rightarrow> v) =
     of_int (b_openedAt (breaker_of_hash m))"
  by (auto simp: breaker_of_hash_def breaker_hash_def elim: int_fieldE)

lemma failures_field: "breaker_hash m \<Longrightarrow> hint (m ''failures'') = Some (b_failures (breaker_of_hash m))"
  by (auto simp: breaker_of_hash_def breaker_hash_def elim: int_fieldE)

lemma STATE_TTL_pos [simp]: "0 < STATE_TTL_MS" "\<not> STATE_TTL_MS \<le> 0"
  by (simp_all add: STATE_TTL_MS_def)

lemma rat_elapsed [simp]: "(of_int c :: rat) \<le> of_int a - of_int b \<longleftrightarrow> c \<le> a - b"
  by (simp only: of_int_diff [symmetric] of_int_le_iff)

context redis_server
begin

text \<open>Reading one field of the hash of a breaker.\<close>

lemma hget_step:
  assumes "breaker_entry t (ent r k)"
  shows "lua_run exec t (redis_call (Hget k f) p) r =
           lua_run exec t (p (opt_bulk (hash_of (live t (ent r k)) f))) (snd (exec t (Hget k f) r)) \<and>
         ent (snd (exec t (Hget k f) r)) = ent r"
proof -
  have "is_hash_entry (live t (ent r k))" using assms by (simp add: breaker_entry_def hash_ready_def)
  from hget [OF this, of f] show ?thesis
    by (cases "hash_of (live t (ent r k)) f") auto
qed

text \<open>Writing fields and renewing the lifetime leaves the breaker of the updated fields.\<close>

lemma write_breaker:
  assumes e: "breaker_entry t (ent r k)" and er: "ent r0 = ent r"
    and m: "breaker_hash (hput fvs (hash_of (live t (ent r k))))"
    and s: "lua_run exec t (redis_call (Hset k fvs) (\<lambda>_. redis_call (Pexpire k STATE_TTL_MS) (\<lambda>_. Ret rep))) r0 = (res, r')"
  shows "res = Inr rep \<and> stores t (breaker_of_hash (hput fvs (hash_of (live t (ent r k))))) (ent r' k) \<and>
    (\<forall>k'. k' \<noteq> k \<longrightarrow> ent r' k' = ent r k')"
proof -
  have "hash_ready t (ent r0 k)" using e er by (simp add: breaker_entry_def)
  from hset_pexpire [OF this STATE_TTL_pos(1) s] m er show ?thesis by (simp add: stores_def)
qed

lemma success_refines:
  assumes e: "breaker_entry t (ent r k)"
    and s: "lua_run exec t (success_script k STATE_TTL_MS) r = (res, r')"
  shows "res = Inr (RBulk (VStr ''closed'')) \<and> stores t (success_b (breaker_at t (ent r k))) (ent r' k) \<and> (\<forall>k'. k' \<noteq> k \<longrightarrow> ent r' k' = ent r k')"
  using write_breaker [OF e refl _ s [unfolded success_script_def]] e
  by (simp add: breaker_at_def breaker_entry_def)

lemma check_refines:
  assumes e: "breaker_entry t (ent r k)"
    and b: "check_b now cooldown (breaker_at t (ent r k)) = (st, b')"
    and s: "lua_run exec t (check_script k (of_int now) (of_int cooldown) STATE_TTL_MS) r = (res, r')"
  shows "res = Inr (RBulk (VStr (state_text st))) \<and> (if b' = breaker_at t (ent r k) then ent r' k = ent r k else stores t b' (ent r' k)) \<and> (\<forall>k'. k' \<noteq> k \<longrightarrow> ent r' k' = ent r k')"
proof -
  let ?m = "hash_of (live t (ent r k))"
  let ?r1 = "snd (exec t (Hget k ''state'') r)" and ?r2 = "snd (exec t (Hget k ''openedAt'') (snd (exec t (Hget k ''state'') r)))"
  have m: "breaker_hash ?m" using e by (simp add: breaker_entry_def)
  note g1 = hget_step [OF e, of "''state''"]
  have e1: "breaker_entry t (ent ?r1 k)" using e g1 by simp
  note g2 = hget_step [OF e1, of "''openedAt''"]
  show ?thesis
  proof (cases "b_state (breaker_at t (ent r k))")
    case Closed
    then show ?thesis
      using s b e g1 state_field [OF m] by (simp add: check_script_def check_b_def breaker_at_def del: lua_run_call)
  next
    case Half_open
    then show ?thesis
      using s b e g1 state_field [OF m] by (simp add: check_script_def check_b_def breaker_at_def del: lua_run_call)
  next
    case Open
    have run: "lua_run exec t
        (if now - b_openedAt (breaker_at t (ent r k)) \<ge> cooldown
         then redis_call (Hset k [(''state'', VStr ''half_open'')]) (\<lambda>_. redis_call (Pexpire k STATE_TTL_MS) (\<lambda>_. Ret (RBulk (VStr ''half_open''))))
         else Ret (RBulk (VStr ''open''))) ?r2 = (res, r')"
      using s g1 g2 state_field [OF m] Open openedAt_field [OF m]
      by (simp add: check_script_def Let_def breaker_at_def del: lua_run_call)
    have er: "ent ?r2 = ent r" using g1 g2 by simp
    show ?thesis
    proof (cases "now - b_openedAt (breaker_at t (ent r k)) \<ge> cooldown")
      case True
      from run True have w: "lua_run exec t (redis_call (Hset k [(''state'', VStr ''half_open'')])
          (\<lambda>_. redis_call (Pexpire k STATE_TTL_MS) (\<lambda>_. Ret (RBulk (VStr ''half_open''))))) ?r2 = (res, r')"
        by (simp del: lua_run_call)
      have "breaker_at t (ent r k)\<lparr>b_state := Half_open\<rparr> \<noteq> breaker_at t (ent r k)" using Open by (metis breaker.select_convs(1) breaker.surjective breaker.update_convs(1) circuit_state.distinct(5))
      with write_breaker [OF e er _ w] m b True Open show ?thesis
        by (simp add: check_b_def breaker_at_def)
    next
      case False
      with run er e b Open show ?thesis by (simp add: check_b_def)
    qed
  qed
qed


text \<open>Counting a failure: after \<open>HINCRBY\<close> the hash still stores a breaker, with the new count.\<close>

lemma hincrby_step:
  assumes e: "breaker_entry t (ent r k)"
  shows "fst (exec t (Hincrby k ''failures'' 1) r) = RInt (b_failures (breaker_at t (ent r k)) + 1)"
    and "ent (snd (exec t (Hincrby k ''failures'' 1) r)) =
           (ent r)(k := Some (DHash ((hash_of (live t (ent r k)))(''failures'' \<mapsto> VNum (of_int (b_failures (breaker_at t (ent r k)) + 1)))),
                              deadline_of (live t (ent r k))))"
    and "breaker_entry t (ent (snd (exec t (Hincrby k ''failures'' 1) r)) k)"
    and "live t (ent (snd (exec t (Hincrby k ''failures'' 1) r)) k) =
           Some (DHash ((hash_of (live t (ent r k)))(''failures'' \<mapsto> VNum (of_int (b_failures (breaker_at t (ent r k)) + 1)))),
                 deadline_of (live t (ent r k)))"
proof -
  let ?m = "hash_of (live t (ent r k))" and ?n = "b_failures (breaker_at t (ent r k)) + 1"
  have m: "breaker_hash ?m" and h: "is_hash_entry (live t (ent r k))"
    and d: "deadline_of (live t (ent r k)) = None \<or> (\<exists>x > t. deadline_of (live t (ent r k)) = Some x)"
    using e by (simp_all add: breaker_entry_def hash_ready_def)
  note i = hincrby [OF h failures_field [OF m], of 1, folded breaker_at_def]
  show "fst (exec t (Hincrby k ''failures'' 1) r) = RInt ?n" using i by simp
  show ent: "ent (snd (exec t (Hincrby k ''failures'' 1) r)) =
      (ent r)(k := Some (DHash (?m(''failures'' \<mapsto> VNum (of_int ?n))), deadline_of (live t (ent r k))))"
    using i by simp
  note st = hash_ready_stored [OF d, of "?m(''failures'' \<mapsto> VNum (of_int ?n))"]
  show "live t (ent (snd (exec t (Hincrby k ''failures'' 1) r)) k) =
      Some (DHash (?m(''failures'' \<mapsto> VNum (of_int ?n))), deadline_of (live t (ent r k)))"
    unfolding ent using st by simp
  show "breaker_entry t (ent (snd (exec t (Hincrby k ''failures'' 1) r)) k)"
    unfolding ent breaker_entry_def using st m by (simp del: of_int_add)
qed

lemma failure_refines:
  assumes e: "breaker_entry t (ent r k)"
    and b: "failure_b threshold now (breaker_at t (ent r k)) = (st, b')"
    and s: "lua_run exec t (failure_script k (of_int threshold) (of_int now) STATE_TTL_MS) r = (res, r')"
  shows "res = Inr (RBulk (VStr (state_text st))) \<and> stores t b' (ent r' k) \<and> (\<forall>k'. k' \<noteq> k \<longrightarrow> ent r' k' = ent r k')"
proof -
  let ?m = "hash_of (live t (ent r k))" and ?r1 = "snd (exec t (Hget k ''state'') r)"
  let ?r2 = "snd (exec t (Hincrby k ''failures'' 1) ?r1)" and ?n = "b_failures (breaker_at t (ent r k)) + 1"
  have m: "breaker_hash ?m" using e by (simp add: breaker_entry_def)
  note g1 = hget_step [OF e, of "''state''"]
  have e1: "breaker_entry t (ent ?r1 k)" using e g1 by simp
  note i = hincrby_step [OF e1, unfolded conjunct2 [OF g1]]
  show ?thesis
  proof (cases "b_state (breaker_at t (ent r k)) = Half_open")
    case True
    with s g1 state_field [OF m]
    have "lua_run exec t (redis_call (Hset k [(''state'', VStr ''open''), (''openedAt'', VNum (of_int now)), (''failures'', VNum (of_int threshold))])
        (\<lambda>_. redis_call (Pexpire k STATE_TTL_MS) (\<lambda>_. Ret (RBulk (VStr ''open''))))) ?r1 = (res, r')"
      by (simp add: failure_script_def breaker_at_def del: lua_run_call)
    from write_breaker [OF e conjunct2 [OF g1] _ this] m b True show ?thesis
      by (simp add: failure_b_def breaker_at_def)
  next
    case False
    have "lua_run exec t (failure_script k (of_int threshold) (of_int now) STATE_TTL_MS) r =
        lua_run exec t
          (if threshold \<le> ?n
           then redis_call (Hset k [(''state'', VStr ''open''), (''openedAt'', VNum (of_int now))]) (\<lambda>_. redis_call (Pexpire k STATE_TTL_MS) (\<lambda>_. Ret (RBulk (VStr ''open''))))
           else redis_call (Pexpire k STATE_TTL_MS) (\<lambda>_. Ret (RBulk (VStr ''closed'')))) ?r2"
      using False state_field [OF m] i(1)
      by (simp add: failure_script_def g1 breaker_at_def lua_run_call [of _ _ "Hincrby _ _ _"] del: lua_run_call of_int_add)
    with s have run: "lua_run exec t
          (if threshold \<le> ?n
           then redis_call (Hset k [(''state'', VStr ''open''), (''openedAt'', VNum (of_int now))]) (\<lambda>_. redis_call (Pexpire k STATE_TTL_MS) (\<lambda>_. Ret (RBulk (VStr ''open''))))
           else redis_call (Pexpire k STATE_TTL_MS) (\<lambda>_. Ret (RBulk (VStr ''closed'')))) ?r2 = (res, r')" by simp
    have m2: "breaker_hash (?m(''failures'' \<mapsto> VNum (of_int ?n)))" using m by (simp del: of_int_add)
    have o: "\<forall>k'. k' \<noteq> k \<longrightarrow> ent ?r2 k' = ent r k'" using i(2) by simp
    show ?thesis
    proof (cases "threshold \<le> ?n")
      case True
      from run True have "lua_run exec t (redis_call (Hset k [(''state'', VStr ''open''), (''openedAt'', VNum (of_int now))])
          (\<lambda>_. redis_call (Pexpire k STATE_TTL_MS) (\<lambda>_. Ret (RBulk (VStr ''open''))))) ?r2 = (res, r')"
        by (simp del: lua_run_call)
      from write_breaker [OF i(3) refl _ this] i(4) m m2 o b True False show ?thesis
        by (simp add: failure_b_def breaker_at_def del: of_int_add)
    next
      case nt: False
      with run have run: "lua_run exec t (redis_call (Pexpire k STATE_TTL_MS) (\<lambda>_. Ret (RBulk (VStr ''closed'')))) ?r2 = (res, r')"
        by (simp del: lua_run_call)
      from pexpire_step [OF i(4) STATE_TTL_pos(1), of "RBulk (VStr ''closed'')"] run m m2 o b nt False show ?thesis
        by (simp add: stores_def failure_b_def breaker_at_def del: of_int_add lua_run_call)
    qed
  qed
qed

end

section \<open>Sequences of calls\<close>

text \<open>A call runs at a server time with the caller's clock. The abstract state is the breaker last
  written and when its key expires (\<open>None\<close>: never written); an expired breaker is a new one, which
  is the lapse to closed that \<open>STATE_TTL_MS\<close> is for.\<close>

datatype breaker_op = Check_op | Success_op | Failure_op

type_synonym breaker_call = "ms \<times> int \<times> breaker_op"
type_synonym kept_breaker = "(breaker \<times> ms) option"

fun op_script :: "key \<Rightarrow> int \<Rightarrow> int \<Rightarrow> int \<Rightarrow> breaker_op \<Rightarrow> lua" where
  "op_script k threshold cooldown now Check_op = check_script k (of_int now) (of_int cooldown) STATE_TTL_MS"
| "op_script k threshold cooldown now Success_op = success_script k STATE_TTL_MS"
| "op_script k threshold cooldown now Failure_op = failure_script k (of_int threshold) (of_int now) STATE_TTL_MS"

definition breaker_exec ::
    "(ms \<Rightarrow> rcmd \<Rightarrow> 'r \<Rightarrow> reply \<times> 'r) \<Rightarrow> key \<Rightarrow> int \<Rightarrow> int \<Rightarrow> breaker_call \<Rightarrow> 'r \<Rightarrow> (err + reply) \<times> 'r" where
  "breaker_exec exec k threshold cooldown c r =
     (case c of (t, now, oper) \<Rightarrow> lua_run exec t (op_script k threshold cooldown now oper) r)"

definition lapse :: "ms \<Rightarrow> kept_breaker \<Rightarrow> breaker" where
  "lapse t s = (case s of None \<Rightarrow> new_breaker | Some (b, x) \<Rightarrow> if x \<le> t then new_breaker else b)"

fun breaker_step :: "int \<Rightarrow> int \<Rightarrow> breaker_call \<Rightarrow> kept_breaker \<Rightarrow> circuit_state \<times> kept_breaker" where
  "breaker_step threshold cooldown (t, now, Check_op) s =
     (case check_b now cooldown (lapse t s) of (st, b) \<Rightarrow>
        (st, if b = lapse t s then s else Some (b, t + STATE_TTL_MS)))"
| "breaker_step threshold cooldown (t, now, Success_op) s =
     (Closed, Some (success_b (lapse t s), t + STATE_TTL_MS))"
| "breaker_step threshold cooldown (t, now, Failure_op) s =
     (case failure_b threshold now (lapse t s) of (st, b) \<Rightarrow> (st, Some (b, t + STATE_TTL_MS)))"

text \<open>What is kept at the key of a breaker.\<close>

definition keeps :: "kept_breaker \<Rightarrow> entry \<Rightarrow> bool" where
  "keeps s e \<longleftrightarrow> (case s of None \<Rightarrow> e = None
     | Some (b, x) \<Rightarrow> \<exists>m. e = Some (DHash m, Some x) \<and> breaker_hash m \<and> breaker_of_hash m = b)"

lemma keeps_stores: "stores t b e \<Longrightarrow> keeps (Some (b, t + STATE_TTL_MS)) e"
  by (auto simp: stores_def keeps_def)

lemma breaker_hash_empty: "breaker_hash Map.empty" "breaker_of_hash Map.empty = new_breaker"
  by (simp_all add: breaker_hash_def breaker_of_hash_def new_breaker_def hash_state_def)

lemma keeps_entry: "keeps s e \<Longrightarrow> breaker_entry t e \<and> breaker_at t e = lapse t s"
  by (auto simp: keeps_def lapse_def breaker_at_new breaker_entry_def breaker_at_def hash_ready_def
      breaker_hash_empty split: option.splits)

context redis_server
begin

lemma op_refines:
  assumes "keeps s (ent r k) \<and> (\<forall>k'. k' \<noteq> k \<longrightarrow> ent r k' = e0 k')"
  shows "fst (breaker_exec exec k threshold cooldown c r) = Inr (RBulk (VStr (state_text (fst (breaker_step threshold cooldown c s))))) \<and>
    keeps (snd (breaker_step threshold cooldown c s)) (ent (snd (breaker_exec exec k threshold cooldown c r)) k) \<and>
    (\<forall>k'. k' \<noteq> k \<longrightarrow> ent (snd (breaker_exec exec k threshold cooldown c r)) k' = e0 k')"
proof -
  obtain t now oper where c: "c = (t, now, oper)" by (metis prod.exhaust)
  from assms have k: "keeps s (ent r k)" and o: "\<forall>k'. k' \<noteq> k \<longrightarrow> ent r k' = e0 k'" by auto
  from keeps_entry [OF k, of t] have e: "breaker_entry t (ent r k)" and l: "breaker_at t (ent r k) = lapse t s" by auto
  obtain res r' where run: "lua_run exec t (op_script k threshold cooldown now oper) r = (res, r')" by (metis prod.exhaust)
  show ?thesis
  proof (cases oper)
    case Check_op
    obtain st1 b1 where b: "check_b now cooldown (breaker_at t (ent r k)) = (st1, b1)" by (metis prod.exhaust)
    from check_refines [OF e b] run b c l k o Check_op show ?thesis
      by (auto simp: breaker_exec_def intro: keeps_stores split: if_splits)
  next
    case Success_op
    from success_refines [OF e] run l c o Success_op show ?thesis by (auto simp: breaker_exec_def intro: keeps_stores)
  next
    case Failure_op
    obtain st1 b1 where b: "failure_b threshold now (breaker_at t (ent r k)) = (st1, b1)" by (metis prod.exhaust)
    from failure_refines [OF e b] run b c l o Failure_op show ?thesis
      by (auto simp: breaker_exec_def intro: keeps_stores)
  qed
qed

sublocale breaker: simulation "breaker_exec exec k threshold cooldown" "breaker_step threshold cooldown"
  "\<lambda>s r. keeps s (ent r k) \<and> (\<forall>k'. k' \<noteq> k \<longrightarrow> ent r k' = e0 k')" "\<lambda>st. Inr (RBulk (VStr (state_text st)))"
  for k threshold cooldown e0
  by unfold_locales (rule op_refines)

text \<open>The same for one key with any surroundings.\<close>

lemma series_refines:
  assumes "keeps s (ent r k)"
  shows "fst (run_calls (breaker_exec exec k threshold cooldown) cs r) =
      map (\<lambda>st. Inr (RBulk (VStr (state_text st)))) (fst (run_calls (breaker_step threshold cooldown) cs s))"
    and "keeps (snd (run_calls (breaker_step threshold cooldown) cs s))
      (ent (snd (run_calls (breaker_exec exec k threshold cooldown) cs r)) k)"
    and "k' \<noteq> k \<Longrightarrow> ent (snd (run_calls (breaker_exec exec k threshold cooldown) cs r)) k' = ent r k'"
  using assms breaker.run_replies [of s r k "ent r" threshold cooldown cs]
    breaker.run_related [of s r k "ent r" threshold cooldown cs] by auto

end

interpretation mem_breaker: simulation "breaker_exec mem_exec k threshold cooldown" "breaker_step threshold cooldown"
  "\<lambda>s r. keeps s (r k) \<and> (\<forall>k'. k' \<noteq> k \<longrightarrow> r k' = e0 k')" "\<lambda>st. Inr (RBulk (VStr (state_text st)))"
  for k threshold cooldown e0
  by unfold_locales (rule mem.op_refines)

section \<open>How the breaker behaves over time\<close>

text \<open>Failures at times \<open>ts\<close>, each less than the state's lifetime after the one before.\<close>

primrec within_ttl :: "ms \<Rightarrow> (ms \<times> int) list \<Rightarrow> bool" where
  "within_ttl t0 [] = True"
| "within_ttl t0 (c # cs) = (fst c < t0 + STATE_TTL_MS \<and> within_ttl (fst c) cs)"

abbreviation calls_of :: "breaker_op \<Rightarrow> (ms \<times> int) list \<Rightarrow> breaker_call list" where
  "calls_of oper \<equiv> map (\<lambda>(t, now). (t, now, oper))"

definition nth_failure :: "int \<Rightarrow> int \<Rightarrow> circuit_state" where
  "nth_failure threshold i = (if i < threshold then Closed else Open)"

lemma failures_count:
  assumes "within_ttl t0 fs" and "b_state b \<noteq> Half_open"
  shows "fst (run_calls (breaker_step threshold cooldown) (calls_of Failure_op fs) (Some (b, t0 + STATE_TTL_MS))) =
    map (\<lambda>i. nth_failure threshold (b_failures b + int i)) [1..<length fs + 1]"
  using assms
proof (induction fs arbitrary: t0 b)
  case Nil
  then show ?case by simp
next
  case (Cons c fs)
  obtain t now where c: "c = (t, now)" by (metis prod.exhaust)
  obtain st b1 where f: "failure_b threshold now b = (st, b1)" by (metis prod.exhaust)
  have b1: "b_failures b1 = b_failures b + 1" "b_state b1 \<noteq> Half_open" "st = nth_failure threshold (b_failures b + 1)"
    using f Cons.prems(2) by (auto simp: failure_b_def nth_failure_def split: if_splits)
  have u: "[1..<length (c # fs) + 1] = 1 # map Suc [1..<length fs + 1]"
    by (simp add: map_Suc_upt upt_conv_Cons del: upt_Suc)
  from Cons.IH [of t b1] Cons.prems b1 c f show ?case
    unfolding u by (auto simp: lapse_def add.assoc split: prod.splits)
qed

text \<open>The failures among some calls. Checks of a closed breaker answer closed and change nothing, so they
  may come in between.\<close>

definition failures_in :: "breaker_call list \<Rightarrow> (ms \<times> int) list" where
  "failures_in cs = map (\<lambda>(t, now, oper). (t, now)) (filter (\<lambda>(t, now, oper). oper = Failure_op) cs)"

lemma failures_in_simps [simp]:
  "failures_in [] = []" "failures_in ((t, now, Failure_op) # cs) = (t, now) # failures_in cs"
  "failures_in ((t, now, Check_op) # cs) = failures_in cs"
  by (simp_all add: failures_in_def)

lemma below_threshold:
  assumes "\<forall>(t, now, oper) \<in> set cs. oper \<noteq> Success_op" and "b_state b = Closed"
    and "failures_in cs = [] \<or> b_failures b + int (length (failures_in cs)) < threshold"
    and "within_ttl t0 (failures_in cs @ fs)"
  shows "\<exists>b' t1. run_calls (breaker_step threshold cooldown) cs (Some (b, t0 + STATE_TTL_MS)) =
      (replicate (length cs) Closed, Some (b', t1 + STATE_TTL_MS)) \<and> b_state b' = Closed \<and>
    b_failures b' = b_failures b + int (length (failures_in cs)) \<and> within_ttl t1 fs"
  using assms
proof (induction cs arbitrary: b t0)
  case Nil
  then show ?case by auto
next
  case (Cons c cs)
  obtain t now oper where c: "c = (t, now, oper)" by (metis prod.exhaust)
  consider (check) "oper = Check_op" | (failure) "oper = Failure_op" using Cons.prems(1) c by (cases oper) auto
  then show ?case
  proof cases
    case check
    have st: "breaker_step threshold cooldown c (Some (b, t0 + STATE_TTL_MS)) = (Closed, Some (b, t0 + STATE_TTL_MS))"
      using Cons.prems(2) by (simp add: c check lapse_def check_b_def new_breaker_def)
    from Cons.IH [of b t0] Cons.prems show ?thesis by (auto simp: st [unfolded c check] c check simp del: breaker_step.simps)
  next
    case failure
    let ?b = "b\<lparr>b_failures := b_failures b + 1\<rparr>"
    have n: "b_failures b + 1 + int (length (failures_in cs)) < threshold" using Cons.prems(3) by (simp add: c failure)
    then have "b_failures b + 1 < threshold" by linarith
    then have st: "breaker_step threshold cooldown c (Some (b, t0 + STATE_TTL_MS)) = (Closed, Some (?b, t + STATE_TTL_MS))"
      using Cons.prems(2,4) by (simp add: c failure lapse_def failure_b_def)
    from Cons.IH [of ?b t] Cons.prems n show ?thesis by (fastforce simp: st [unfolded c failure] c failure simp del: breaker_step.simps)
  qed
qed

lemma failure_opens:
  "breaker_step threshold cooldown (t, now, Failure_op) s = (Open, s') \<Longrightarrow>
     \<exists>b. s' = Some (b, t + STATE_TTL_MS) \<and> b_state b = Open \<and> b_openedAt b = now \<and> threshold \<le> b_failures b"
  by (auto simp: failure_b_def split: if_splits prod.splits)

lemma check_after_cooldown:
  "b_state b = Open \<Longrightarrow> t < x \<Longrightarrow> now \<ge> b_openedAt b + cooldown \<Longrightarrow>
     breaker_step threshold cooldown (t, now, Check_op) (Some (b, x)) = (Half_open, Some (b\<lparr>b_state := Half_open\<rparr>, t + STATE_TTL_MS))"
proof -
  assume a: "b_state b = Open" "t < x" "now \<ge> b_openedAt b + cooldown"
  have "b\<lparr>b_state := Half_open\<rparr> \<noteq> b"
    using a(1) by (metis breaker.select_convs(1) breaker.surjective breaker.update_convs(1) circuit_state.distinct(5))
  with a show ?thesis by (simp add: lapse_def check_b_def)
qed

lemma failed_probe:
  "b_state b = Half_open \<Longrightarrow> t < x \<Longrightarrow> \<exists>b'. b_state b' = Open \<and> b_openedAt b' = now \<and> threshold \<le> b_failures b' \<and>
     breaker_step threshold cooldown (t, now, Failure_op) (Some (b, x)) = (Open, Some (b', t + STATE_TTL_MS))"
  by (simp add: lapse_def failure_b_def)

text \<open>Calls that reach a breaker that a failure at \<open>(t0, now0)\<close> has opened: checks before the cooldown is over
  and late failures, which start the cooldown again.\<close>

primrec held_open :: "int \<Rightarrow> ms \<times> int \<Rightarrow> breaker_call list \<Rightarrow> bool" where
  "held_open cooldown f [] = True"
| "held_open cooldown f (c # cs) = (case c of (t, now, oper) \<Rightarrow> t < fst f + STATE_TTL_MS \<and>
     (case oper of
        Check_op \<Rightarrow> now < snd f + cooldown \<and> held_open cooldown f cs
      | Failure_op \<Rightarrow> held_open cooldown (t, now) cs
      | Success_op \<Rightarrow> False))"

definition last_failure :: "ms \<times> int \<Rightarrow> breaker_call list \<Rightarrow> ms \<times> int" where
  "last_failure f cs = last (f # failures_in cs)"

lemma held_open_calls:
  assumes "held_open cooldown (t0, now0) cs" and "b_state b = Open" and "b_openedAt b = now0" and "threshold \<le> b_failures b"
  shows "\<exists>b'. run_calls (breaker_step threshold cooldown) cs (Some (b, t0 + STATE_TTL_MS)) =
      (replicate (length cs) Open, Some (b', fst (last_failure (t0, now0) cs) + STATE_TTL_MS)) \<and>
    b_state b' = Open \<and> b_openedAt b' = snd (last_failure (t0, now0) cs)"
  using assms
proof (induction cs arbitrary: b t0 now0)
  case Nil
  then show ?case by (auto simp: last_failure_def)
next
  case (Cons c cs)
  obtain t now oper where c: "c = (t, now, oper)" by (metis prod.exhaust)
  show ?case
  proof (cases oper)
    case Check_op
    have st: "breaker_step threshold cooldown c (Some (b, t0 + STATE_TTL_MS)) = (Open, Some (b, t0 + STATE_TTL_MS))"
      using Cons.prems(1-3) by (simp add: c Check_op lapse_def check_b_def)
    from Cons.IH [of t0 now0 b] Cons.prems show ?thesis
      by (auto simp: st [unfolded c Check_op] c Check_op last_failure_def simp del: breaker_step.simps)
  next
    case Failure_op
    let ?b = "b\<lparr>b_failures := b_failures b + 1, b_state := Open, b_openedAt := now\<rparr>"
    have st: "breaker_step threshold cooldown c (Some (b, t0 + STATE_TTL_MS)) = (Open, Some (?b, t + STATE_TTL_MS))"
      using Cons.prems by (simp add: c Failure_op lapse_def failure_b_def)
    from Cons.IH [of t now ?b] Cons.prems show ?thesis
      by (auto simp: st [unfolded c Failure_op] c Failure_op last_failure_def simp del: breaker_step.simps)
  next
    case Success_op
    with Cons.prems(1) show ?thesis by (simp add: c)
  qed
qed

text \<open>One round: tripped at \<open>(t0, now0)\<close>, checks within the cooldown, the first check after it.\<close>

lemma open_round:
  assumes "b_state b = Open" and "b_openedAt b = now0" and "threshold \<le> b_failures b" and "held_open cooldown (t0, now0) cs"
    and "t1 < fst (last_failure (t0, now0) cs) + STATE_TTL_MS" and "snd (last_failure (t0, now0) cs) + cooldown \<le> now1"
  shows "\<exists>b'. run_calls (breaker_step threshold cooldown) (cs @ [(t1, now1, Check_op)]) (Some (b, t0 + STATE_TTL_MS)) =
     (replicate (length cs) Open @ [Half_open], Some (b', t1 + STATE_TTL_MS)) \<and> b_state b' = Half_open"
proof -
  obtain b1 where b1: "run_calls (breaker_step threshold cooldown) cs (Some (b, t0 + STATE_TTL_MS)) =
      (replicate (length cs) Open, Some (b1, fst (last_failure (t0, now0) cs) + STATE_TTL_MS))"
    "b_state b1 = Open" "b_openedAt b1 = snd (last_failure (t0, now0) cs)"
    using held_open_calls [OF assms(4,1-3)] by blast
  have "breaker_step threshold cooldown (t1, now1, Check_op) (Some (b1, fst (last_failure (t0, now0) cs) + STATE_TTL_MS)) =
      (Half_open, Some (b1\<lparr>b_state := Half_open\<rparr>, t1 + STATE_TTL_MS))"
    using check_after_cooldown [OF b1(2) assms(5), of cooldown now1] b1(3) assms(6) by simp
  then show ?thesis using b1(1) by (simp add: run_calls_append del: breaker_step.simps)
qed

section \<open>Properties\<close>

definition replies :: "circuit_state list \<Rightarrow> (err + reply) list" where
  "replies sts = map (\<lambda>st. Inr (RBulk (VStr (state_text st)))) sts"

lemma replies_simps [simp]:
  "replies (a @ b) = replies a @ replies b"
  "replies [] = []" "replies (x # xs) = Inr (RBulk (VStr (state_text x))) # replies xs"
  by (simp_all add: replies_def)

text \<open>C15: The three scripts implement the breaker. On every server with the documented behaviour,
  every sequence of checks, successes and failures of one webhook, at any times and with any
  clocks of the callers, gets the replies of the three-state machine that lapses to closed an hour
  after its last write, leaves that machine's state at the key, and touches no other key.\<close>

theorem breaker_scripts_refine:
  assumes "redis_server exec ent" and "keeps s (ent r k)"
    and "run_calls (breaker_step threshold cooldown) cs s = (sts, s')"
    and "run_calls (breaker_exec exec k threshold cooldown) cs r = (ress, r')"
  shows "ress = replies sts \<and> keeps s' (ent r' k) \<and> (\<forall>k'. k' \<noteq> k \<longrightarrow> ent r' k' = ent r k')"
  using redis_server.series_refines [OF assms(1,2), where threshold = threshold and cooldown = cooldown and cs = cs] assms(3,4)
  by (simp add: replies_def)

theorem breaker_scripts_refine_witness:
  "fst (run_calls (breaker_exec mem_exec ''cb'' 2 100) [(0, 0, Failure_op), (1, 1, Failure_op), (50, 50, Check_op)] (\<lambda>_. None)) =
     replies [Closed, Open, Open]"
proof -
  let ?cs = "[(0, 0, Failure_op), (1, 1, Failure_op), (50, 50, Check_op)]"
  have k: "keeps None ((\<lambda>_. None) ''cb'')" by (simp add: keeps_def)
  have b: "fst (run_calls (breaker_step 2 100) ?cs None) = [Closed, Open, Open]"
    by (simp add: lapse_def failure_b_def check_b_def new_breaker_def STATE_TTL_MS_def)
  show ?thesis
    using breaker_scripts_refine [OF mem_server, of None "\<lambda>_. None" "''cb''" 2 100 ?cs,
        OF k prod.collapse [symmetric] prod.collapse [symmetric]] b
    by simp
qed

text \<open>C16: The breaker trips exactly at the threshold of consecutive failures, and a success starts
  the count again. Whatever the webhook's history, let a success be recorded, and then failures,
  each within an hour of the one before (a longer silence lets the state lapse and the count start
  again), with any checks between them. Up to the failure before the \<open>threshold\<close>-th all replies, to
  checks and to failures, are closed; of the failures that follow those one after the other, each
  is answered closed while the count is below the threshold, and open from the \<open>threshold\<close>-th on.\<close>

theorem trips_at_threshold:
  assumes "redis_server exec ent" and "keeps s (ent r k)"
    and "\<forall>(t, now, oper) \<in> set cs. oper \<noteq> Success_op" and "failures_in cs = [] \<or> int (length (failures_in cs)) < threshold"
    and "within_ttl t0 (failures_in cs @ fs)"
  shows "fst (run_calls (breaker_exec exec k threshold cooldown) ((t0, now0, Success_op) # cs @ calls_of Failure_op fs) r) =
    replies (Closed # replicate (length cs) Closed @
      map (\<lambda>i. if int (length (failures_in cs) + i) < threshold then Closed else Open) [1..<length fs + 1])"
proof -
  let ?cs = "(t0, now0, Success_op) # cs @ calls_of Failure_op fs"
  let ?b = "success_b (lapse t0 s)"
  have b: "b_state ?b = Closed" "b_failures ?b = 0" by (simp_all add: success_b_def)
  obtain b' t1 where m: "run_calls (breaker_step threshold cooldown) cs (Some (?b, t0 + STATE_TTL_MS)) =
      (replicate (length cs) Closed, Some (b', t1 + STATE_TTL_MS))" "b_state b' = Closed"
    "b_failures b' = int (length (failures_in cs))" "within_ttl t1 fs"
    using below_threshold [OF assms(3) b(1), of threshold t0 fs cooldown] assms(4,5) b(2) by auto
  have "fst (run_calls (breaker_step threshold cooldown) ?cs s) =
      Closed # replicate (length cs) Closed @
        map (\<lambda>i. if int (length (failures_in cs) + i) < threshold then Closed else Open) [1..<length fs + 1]"
    using failures_count [OF m(4), of b' threshold cooldown] m(1-3)
    by (simp add: run_calls_append nth_failure_def case_prod_unfold del: upt_Suc)
  then show ?thesis
    using redis_server.series_refines [OF assms(1,2), where threshold = threshold and cooldown = cooldown and cs = "?cs"]
    by (simp add: replies_def)
qed

theorem trips_at_threshold_witness:
  "fst (run_calls (breaker_exec mem_exec ''cb'' 3 100)
     ((0, 0, Success_op) # [(1, 1, Failure_op), (2, 2, Check_op)] @ [(3, 3, Failure_op), (4, 4, Failure_op), (5, 5, Failure_op)]) (\<lambda>_. None)) =
     replies [Closed, Closed, Closed, Closed, Open, Open]"
  using trips_at_threshold [OF mem_server, of None "\<lambda>_. None" "''cb''" "[(1, 1, Failure_op), (2, 2, Check_op)]" 3 0 "[(3, 3), (4, 4), (5, 5)]" 100 0]
  by (simp add: keeps_def STATE_TTL_MS_def upt_rec del: run_calls.simps)

text \<open>C17: A tripped breaker blocks until its cooldown is over, then lets a probe through; a failed
  probe trips it again at once, for a fresh cooldown from the probe. Let a failure at the caller's
  time \<open>now0\<close> get the reply open, and then no success be recorded. Every check before the end of the
  cooldown answers open, and so does every late failure of a delivery that was under way, which
  starts the cooldown again; the first check at or after \<open>now + cooldown\<close>, \<open>now\<close> the time of the last
  of these failures, answers half_open; the probe's failure at \<open>now2\<close> answers open, whatever the
  threshold; and the same holds from it on. All this while the state is kept, an hour after its last
  change. (A late success closes the breaker at once: \<open>breaker_scripts_refine\<close>.)\<close>

theorem open_blocks_for_cooldown:
  assumes "redis_server exec ent" and "keeps s (ent r k)"
    and "fst (breaker_step threshold cooldown (t0, now0, Failure_op) s) = Open"
    and "held_open cooldown (t0, now0) cs"
    and "t1 < fst (last_failure (t0, now0) cs) + STATE_TTL_MS" and "snd (last_failure (t0, now0) cs) + cooldown \<le> now1"
    and "t2 < t1 + STATE_TTL_MS" and "held_open cooldown (t2, now2) ds"
  shows "fst (run_calls (breaker_exec exec k threshold cooldown)
      ([(t0, now0, Failure_op)] @ (cs @ [(t1, now1, Check_op)]) @ [(t2, now2, Failure_op)] @ ds) r) =
    replies ([Open] @ (replicate (length cs) Open @ [Half_open]) @ [Open] @ replicate (length ds) Open)"
proof -
  let ?cs = "[(t0, now0, Failure_op)] @ (cs @ [(t1, now1, Check_op)]) @ [(t2, now2, Failure_op)] @ ds"
  obtain b where b: "breaker_step threshold cooldown (t0, now0, Failure_op) s = (Open, Some (b, t0 + STATE_TTL_MS))"
      "b_state b = Open" "b_openedAt b = now0" "threshold \<le> b_failures b"
    using failure_opens assms(3) by (metis prod.collapse)
  obtain b1 where rnd: "run_calls (breaker_step threshold cooldown) (cs @ [(t1, now1, Check_op)]) (Some (b, t0 + STATE_TTL_MS)) =
      (replicate (length cs) Open @ [Half_open], Some (b1, t1 + STATE_TTL_MS))" "b_state b1 = Half_open"
    using open_round [OF b(2-4) assms(4-6)] by blast
  obtain b' where b': "b_state b' = Open" "b_openedAt b' = now2" "threshold \<le> b_failures b'"
      "breaker_step threshold cooldown (t2, now2, Failure_op) (Some (b1, t1 + STATE_TTL_MS)) = (Open, Some (b', t2 + STATE_TTL_MS))"
    using failed_probe [OF rnd(2) assms(7), of now2 threshold cooldown] by blast
  obtain b'' where ds: "run_calls (breaker_step threshold cooldown) ds (Some (b', t2 + STATE_TTL_MS)) =
      (replicate (length ds) Open, b'')"
    using held_open_calls [OF assms(8) b'(1-3)] by blast
  have "fst (run_calls (breaker_step threshold cooldown) ?cs s) =
      [Open] @ (replicate (length cs) Open @ [Half_open]) @ [Open] @ replicate (length ds) Open"
    unfolding run_calls_append [of _ "[_]"] run_calls_append [of _ "cs @ [(t1, now1, Check_op)]"]
    using b rnd b' ds by (simp del: breaker_step.simps)
  then show ?thesis
    using redis_server.series_refines [OF assms(1,2), where threshold = threshold and cooldown = cooldown and cs = "?cs"]
    by (simp add: replies_def)
qed

theorem open_blocks_for_cooldown_witness:
  "fst (run_calls (breaker_exec mem_exec ''cb'' 1 100)
     ([(0, 0, Failure_op)] @ ([(9, 9, Failure_op), (108, 108, Check_op)] @ [(109, 109, Check_op)]) @ [(120, 120, Failure_op)] @ [(219, 219, Check_op)])
     (\<lambda>_. None)) = replies [Open, Open, Open, Half_open, Open, Open]"
  using open_blocks_for_cooldown [OF mem_server, of None "\<lambda>_. None" "''cb''" 1 100 0 0 "[(9, 9, Failure_op), (108, 108, Check_op)]"
      109 109 120 120 "[(219, 219, Check_op)]"]
  by (simp add: keeps_def STATE_TTL_MS_def lapse_def failure_b_def new_breaker_def last_failure_def del: run_calls.simps)

end
