(* ===== verification/Idempotency.thy ===== *)
theory Idempotency
  imports Effects
begin

text \<open>
  Idempotency keys of the producers, \<open>src/src/idempotency.ts\<close>: a slot per (tenant, key) in Redis,
  claimed by \<open>SET NX\<close>, then holding the job's id for a day. The specification of a slot is free,
  pending or done with a job id, and when it lapses.
\<close>

section \<open>The code\<close>

definition TTL_MS :: ms where "TTL_MS = 24 * 60 * 60 * 1000"

definition PENDING :: string where "PENDING = ''PENDING''"

definition redisKey :: "string \<Rightarrow> string \<Rightarrow> key" where
  "redisKey tenant key = ''idem:'' @ tenant @ '':'' @ key"

datatype begin_result = New | Duplicate jobid | Pending

definition begin_slot :: "string \<Rightarrow> string \<Rightarrow> begin_result js" where
  "begin_slot tenant key =
    (let k = redisKey tenant key in
     await (RCmd (SetNxPx k (VStr PENDING) TTL_MS)) (\<lambda>reserved.
     if as_str reserved = Some ''OK'' then Ret New
     else await (RCmd (Get k)) (\<lambda>existing.
          case as_str existing of
            None \<Rightarrow> Ret Pending
          | Some v \<Rightarrow> if v \<noteq> [] \<and> v \<noteq> PENDING then Ret (Duplicate v) else Ret Pending)))"

definition complete_slot :: "string \<Rightarrow> string \<Rightarrow> jobid \<Rightarrow> unit js" where
  "complete_slot tenant key jobId =
     await (RCmd (SetPx (redisKey tenant key) (VStr jobId) TTL_MS)) (\<lambda>_. Ret ())"

definition abort_slot :: "string \<Rightarrow> string \<Rightarrow> unit js" where
  "abort_slot tenant key = await (RCmd (Del (redisKey tenant key))) (\<lambda>_. Ret ())"

section \<open>Calls on one slot\<close>

text \<open>The commands that reach the server, with its time. \<open>begin_slot\<close> is two of them, so other
  commands may come between its reservation and its reading.\<close>

datatype slot_op = Reserve | Read | Complete jobid | Abort

type_synonym slot_call = "ms \<times> slot_op"

fun slot_cmd :: "key \<Rightarrow> slot_op \<Rightarrow> rcmd" where
  "slot_cmd k Reserve = SetNxPx k (VStr PENDING) TTL_MS"
| "slot_cmd k Read = Get k"
| "slot_cmd k (Complete j) = SetPx k (VStr j) TTL_MS"
| "slot_cmd k Abort = Del k"

definition slot_exec :: "(ms \<Rightarrow> rcmd \<Rightarrow> 'r \<Rightarrow> reply \<times> 'r) \<Rightarrow> key \<Rightarrow> slot_call \<Rightarrow> 'r \<Rightarrow> reply \<times> 'r" where
  "slot_exec exec k c r = exec (fst c) (slot_cmd k (snd c)) r"

text \<open>A slot holds a text (\<open>PENDING\<close> or the job's id) until a deadline.\<close>

type_synonym slot = "(string \<times> ms) option"

definition content :: "ms \<Rightarrow> slot \<Rightarrow> string option" where
  "content t s = (case s of None \<Rightarrow> None | Some (v, x) \<Rightarrow> if x \<le> t then None else Some v)"

definition OK :: reply where "OK = RBulk (VStr ''OK'')"

fun slot_op_step :: "ms \<Rightarrow> slot_op \<Rightarrow> slot \<Rightarrow> reply \<times> slot" where
  "slot_op_step t Reserve s = (if content t s = None then (OK, Some (PENDING, t + TTL_MS)) else (RNil, s))"
| "slot_op_step t Read s = (opt_bulk (map_option VStr (content t s)), s)"
| "slot_op_step t (Complete j) s = (OK, Some (j, t + TTL_MS))"
| "slot_op_step t Abort s = (RInt (if content t s = None then 0 else 1), None)"

definition slot_step :: "slot_call \<Rightarrow> slot \<Rightarrow> reply \<times> slot" where
  "slot_step c s = slot_op_step (fst c) (snd c) s"

fun slot_at :: "slot \<Rightarrow> entry \<Rightarrow> bool" where
  "slot_at None e = (e = None)"
| "slot_at (Some (v, x)) e = (e = Some (DStr (VStr v), Some x))"

lemma slot_at_live:
  "slot_at s e \<Longrightarrow> is_str_entry (live t e) \<and> (live t e = None \<longleftrightarrow> content t s = None) \<and>
     str_of (live t e) = map_option VStr (content t s)"
  by (cases "(s, e)" rule: slot_at.cases) (auto simp: content_def)

lemma TTL_pos [simp]: "0 < TTL_MS"
  by (simp add: TTL_MS_def)

context redis_server
begin

lemma slot_refines:
  assumes "slot_at s (ent r k) \<and> (\<forall>k'. k' \<noteq> k \<longrightarrow> ent r k' = e0 k')"
  shows "fst (slot_exec exec k c r) = fst (slot_step c s) \<and>
    slot_at (snd (slot_step c s)) (ent (snd (slot_exec exec k c r)) k) \<and>
    (\<forall>k'. k' \<noteq> k \<longrightarrow> ent (snd (slot_exec exec k c r)) k' = e0 k')"
proof -
  obtain t oper where c: "c = (t, oper)" by (metis prod.exhaust)
  from assms have h: "slot_at s (ent r k)" by simp
  note l = slot_at_live [OF h, of t]
  show ?thesis
    using c assms l get [of t r k] set_nx_px [OF TTL_pos, of t k "VStr PENDING" r] del [of t k r]
      set_px [OF TTL_pos, of t k _ r]
    by (cases oper) (auto simp: slot_exec_def slot_step_def OK_def)
qed

sublocale slot: simulation "slot_exec exec k" slot_step
  "\<lambda>s r. slot_at s (ent r k) \<and> (\<forall>k'. k' \<noteq> k \<longrightarrow> ent r k' = e0 k')" "\<lambda>b. b" for k e0
  by unfold_locales (rule slot_refines)

lemma slot_calls_refine:
  assumes "slot_at s (ent r k)"
  shows "fst (run_calls (slot_exec exec k) cs r) = fst (run_calls slot_step cs s)"
    and "slot_at (snd (run_calls slot_step cs s)) (ent (snd (run_calls (slot_exec exec k) cs r)) k)"
    and "k' \<noteq> k \<Longrightarrow> ent (snd (run_calls (slot_exec exec k) cs r)) k' = ent r k'"
  using assms slot.run_replies [of s r k "ent r" cs] slot.run_related [of s r k "ent r" cs] by auto

end

interpretation mem_slot: simulation "slot_exec mem_exec k" slot_step
  "\<lambda>s r. slot_at s (r k) \<and> (\<forall>k'. k' \<noteq> k \<longrightarrow> r k' = e0 k')" "\<lambda>b. b" for k e0
  by unfold_locales (rule mem.slot_refines)


lemma content_step:
  assumes "fst c < x" and "snd c = Reserve \<or> snd c = Read"
  shows "slot_step c (Some (v, x)) = (if snd c = Reserve then RNil else RBulk (VStr v), Some (v, x))"
  using assms by (auto simp: slot_step_def content_def)



text \<open>A run of code that talks to one slot, beside other processes: before each of its commands the
  others' calls on the slot run, then the command runs at its own time.\<close>

fun beside :: "(ms \<Rightarrow> rcmd \<Rightarrow> 'r \<Rightarrow> reply \<times> 'r) \<Rightarrow> key \<Rightarrow> eff \<Rightarrow> (slot_call list \<times> ms) list \<times> 'r \<Rightarrow>
    resp \<times> ((slot_call list \<times> ms) list \<times> 'r)" where
  "beside exec k (RCmd c) ((cs, t) # bs, r) =
     (let r' = snd (run_calls (slot_exec exec k) cs r) in (resp_of (fst (exec t c r')), (bs, snd (exec t c r'))))"
| "beside exec k e (bs, r) = (Rejected ''connection closed'', (bs, r))"

definition asks :: "ms \<Rightarrow> slot_call \<Rightarrow> bool" where
  "asks x c \<longleftrightarrow> fst c < x \<and> (snd c = Reserve \<or> snd c = Read)"

lemma asks_keep: "\<forall>c \<in> set cs. asks x c \<Longrightarrow> snd (run_calls slot_step cs (Some (v, x))) = Some (v, x)"
  by (rule run_calls_keeps) (auto simp: asks_def content_step)

section \<open>Properties\<close>



text \<open>Retries get the original job. Once the slot of \<open>(tenant, key)\<close> is completed with a job's id
  at \<open>t0\<close>, a \<open>begin\<close> for that key whose commands run within a day of it answers "duplicate" with that
  id, with any number of other requests asking before it and between its two commands, and it
  leaves the slot as it is.\<close>

theorem retries_get_the_job:
  assumes "redis_server exec ent" and "k = redisKey tenant key"
    and "slot_at (Some (j, x)) (ent r k)" and "j \<noteq> []" and "j \<noteq> PENDING"
    and "t1 < x" and "t2 < x" and "\<forall>c \<in> set cs \<union> set ds. asks x c"
  shows "\<exists>r'. interp (beside exec k) (begin_slot tenant key) ([(cs, t1), (ds, t2)], r) = (Inr (Duplicate j), ([], r')) \<and>
    slot_at (Some (j, x)) (ent r' k)"
proof -
  note ref = redis_server.slot_calls_refine [OF assms(1)]
  let ?r1 = "snd (run_calls (slot_exec exec k) cs r)"
  let ?r2 = "snd (run_calls (slot_exec exec k) [(t1, Reserve)] ?r1)"
  let ?r3 = "snd (run_calls (slot_exec exec k) ds ?r2)"
  let ?r4 = "snd (run_calls (slot_exec exec k) [(t2, Read)] ?r3)"
  have s1: "slot_at (Some (j, x)) (ent ?r1 k)" using ref(2) [OF assms(3), of cs] asks_keep assms(8) by simp
  have s2: "slot_at (Some (j, x)) (ent ?r2 k)" and rep1: "fst (exec t1 (SetNxPx k (VStr PENDING) TTL_MS) ?r1) = RNil"
    using ref(1,2) [OF s1, of "[(t1, Reserve)]"] assms(6) by (simp_all add: content_step slot_exec_def)
  have s3: "slot_at (Some (j, x)) (ent ?r3 k)" using ref(2) [OF s2, of ds] asks_keep assms(8) by simp
  have s4: "slot_at (Some (j, x)) (ent ?r4 k)" and rep2: "fst (exec t2 (Get k) ?r3) = RBulk (VStr j)"
    using ref(1,2) [OF s3, of "[(t2, Read)]"] assms(7) by (simp_all add: content_step slot_exec_def)
  show ?thesis
    using s4 rep1 rep2 assms(2,4,5) by (simp add: begin_slot_def await_def slot_exec_def Let_def)
qed

theorem retries_get_the_job_witness:
  "\<exists>r'. interp (beside mem_exec (redisKey ''t'' ''k'')) (begin_slot ''t'' ''k'')
     ([([(1, Reserve)], 2), ([(3, Reserve), (4, Read)], 5)],
      snd (slot_exec mem_exec (redisKey ''t'' ''k'') (0, Complete ''job'') (\<lambda>_. None))) = (Inr (Duplicate ''job''), ([], r'))"
proof -
  have "slot_at (Some (''job'', TTL_MS)) (snd (slot_exec mem_exec (redisKey ''t'' ''k'') (0, Complete ''job'') (\<lambda>_. None)) (redisKey ''t'' ''k''))"
    by (simp add: slot_exec_def TTL_MS_def)
  moreover have "2 < TTL_MS" "5 < TTL_MS" "\<forall>c \<in> set [(1, Reserve)] \<union> set [(3, Reserve), (4, Read)]. asks TTL_MS c"
    by (simp_all add: TTL_MS_def asks_def)
  ultimately show ?thesis
    using retries_get_the_job [OF mem_server refl, of "''job''" TTL_MS _ "''t''" "''k''" 2 5 "[(1, Reserve)]" "[(3, Reserve), (4, Read)]"]
    unfolding PENDING_def by blast
qed

text \<open>The slots of two tenants are apart when neither name contains a colon: then the Redis keys of
  two (tenant, key) pairs are equal only if the pairs are.\<close>

theorem redisKey_separates:
  assumes "CHR '':'' \<notin> set tenant" and "CHR '':'' \<notin> set tenant'"
  shows "redisKey tenant key = redisKey tenant' key' \<longleftrightarrow> tenant = tenant' \<and> key = key'"
  using append_delim_inject [OF assms, of key key'] by (simp add: redisKey_def)

theorem redisKey_separates_witness:
  "redisKey ''acme'' ''b:c'' \<noteq> redisKey ''acme2'' ''b:c''"
  using redisKey_separates [of "''acme''" "''acme2''" "''b:c''" "''b:c''"] by simp

text \<open>With a colon in a tenant's name the slots are not apart: tenant \<open>a\<close> with key \<open>b:c\<close> and tenant
  \<open>a:b\<close> with key \<open>c\<close> share one slot, and once the first has created its job, the other's request is
  answered as a duplicate of the first tenant's job.\<close>

theorem tenants_collide:
  "fst (interp (beside mem_exec (redisKey ''a:b'' ''c'')) (begin_slot ''a:b'' ''c'')
     ([([], 1), ([], 2)], snd (slot_exec mem_exec (redisKey ''a'' ''b:c'') (0, Complete ''job-of-a'') (\<lambda>_. None)))) =
   Inr (Duplicate ''job-of-a'')"
  by (simp add: begin_slot_def await_def slot_exec_def redisKey_def TTL_MS_def PENDING_def Let_def)

end
