(* ===== verification/Traces.thy ===== *)
theory Traces
  imports Effects
begin

text \<open>
  What an asynchronous function of the platform can do, whatever the outside answers. \<open>play p rs\<close>
  runs a program against a list of replies: any replies at all, so it covers every behaviour of
  Redis, Postgres, the clocks and the endpoints, every rejection, and every interleaving with
  other processes. When the replies run out the process has stopped (a crash, a kill, a lost
  connection) with one command sent and unanswered. \<open>wp\<close> is the verification-condition generator
  for claims about all plays.
\<close>

section \<open>Plays\<close>

type_synonym event = "eff \<times> resp"

datatype 'a outcome =
    Done 'a
  | Threw err
  | Cut eff

primrec play :: "'a js \<Rightarrow> resp list \<Rightarrow> event list \<times> 'a outcome" where
  "play (Ret a) = (\<lambda>rs. ([], Done a))"
| "play (Throw e) = (\<lambda>rs. ([], Threw e))"
| "play (Do c k) = (\<lambda>rs. case rs of
       [] \<Rightarrow> ([], Cut c)
     | r # rs' \<Rightarrow> (case play (k r) rs' of (tr, out) \<Rightarrow> ((c, r) # tr, out)))"

text \<open>The commands sent, answered or not.\<close>

fun sent :: "event list \<times> 'a outcome \<Rightarrow> eff list" where
  "sent (tr, Cut c) = map fst tr @ [c]"
| "sent (tr, _) = map fst tr"

section \<open>Verification conditions\<close>

text \<open>\<open>wp p Q E C tr\<close>: run after the events \<open>tr\<close>, the program returns only with \<open>Q\<close>, throws only with
  \<open>E\<close>, and every command it sends satisfies \<open>C\<close> together with the events before it.\<close>

primrec wp :: "'a js \<Rightarrow> (event list \<Rightarrow> 'a \<Rightarrow> bool) \<Rightarrow> (event list \<Rightarrow> err \<Rightarrow> bool) \<Rightarrow>
    (event list \<Rightarrow> eff \<Rightarrow> bool) \<Rightarrow> event list \<Rightarrow> bool" where
  "wp (Ret a) Q E C tr = Q tr a"
| "wp (Throw e) Q E C tr = E tr e"
| "wp (Do c k) Q E C tr = (C tr c \<and> (\<forall>r. wp (k r) Q E C (tr @ [(c, r)])))"

named_theorems wp_simps \<open>verification conditions of the operations\<close>

lemma wp_bind [wp_simps]:
  "wp (bind_prog p f) Q E C tr = wp p (\<lambda>tr a. wp (f a) Q E C tr) E C tr"
  by (induction p arbitrary: tr) auto

lemma wp_catch [wp_simps]:
  "wp (catch_prog p h) Q E C tr = wp p Q (\<lambda>tr e. wp (h e) Q E C tr) C tr"
  by (induction p arbitrary: tr) auto

lemma wp_await [wp_simps]:
  "wp (await c k) Q E C tr =
     (C tr c \<and> (\<forall>m. E (tr @ [(c, Rejected m)]) (Failure m)) \<and>
      (\<forall>r. \<not> rejected r \<longrightarrow> wp (k r) Q E C (tr @ [(c, r)])))"
proof -
  have "(\<forall>r. case r of Rejected m \<Rightarrow> E (tr @ [(c, r)]) (Failure m) | _ \<Rightarrow> wp (k r) Q E C (tr @ [(c, r)])) =
      ((\<forall>m. E (tr @ [(c, Rejected m)]) (Failure m)) \<and>
       (\<forall>r. \<not> rejected r \<longrightarrow> wp (k r) Q E C (tr @ [(c, r)])))" (is "?l = ?r")
  proof
    assume l: ?l
    have "wp (k r) Q E C (tr @ [(c, r)])" if "\<not> rejected r" for r
      using spec [OF l, of r] that by (cases r) auto
    moreover have "E (tr @ [(c, Rejected m)]) (Failure m)" for m
      using spec [OF l, of "Rejected m"] by simp
    ultimately show ?r by blast
  qed (auto split: resp.splits)
  moreover have "wp (await c k) Q E C tr =
      (C tr c \<and> (\<forall>r. case r of Rejected m \<Rightarrow> E (tr @ [(c, r)]) (Failure m) | _ \<Rightarrow> wp (k r) Q E C (tr @ [(c, r)])))"
    by (auto simp: await_def split: resp.splits)
  ultimately show ?thesis by simp
qed

lemma wp_await_or [wp_simps]:
  "wp (await_or c k h) Q E C tr =
     (C tr c \<and> (\<forall>m. wp (h m) Q E C (tr @ [(c, Rejected m)])) \<and>
      (\<forall>r. \<not> rejected r \<longrightarrow> wp (k r) Q E C (tr @ [(c, r)])))"
proof -
  have "(\<forall>r. wp (if rejected r then h (reason r) else k r) Q E C (tr @ [(c, r)])) =
      ((\<forall>m. wp (h m) Q E C (tr @ [(c, Rejected m)])) \<and>
       (\<forall>r. \<not> rejected r \<longrightarrow> wp (k r) Q E C (tr @ [(c, r)])))" (is "?l = ?r")
  proof
    assume l: ?l
    have "wp (h m) Q E C (tr @ [(c, Rejected m)])" for m using spec [OF l, of "Rejected m"] by simp
    moreover have "wp (k r) Q E C (tr @ [(c, r)])" if "\<not> rejected r" for r using spec [OF l, of r] that by simp
    ultimately show ?r by blast
  next
    assume r: ?r
    show ?l
    proof
      fix x
      show "wp (if rejected x then h (reason x) else k x) Q E C (tr @ [(c, x)])"
        using r by (cases x) auto
    qed
  qed
  then show ?thesis by (simp add: await_or_def)
qed

lemma wp_option [wp_simps]:
  "wp (case x of None \<Rightarrow> p | Some a \<Rightarrow> q a) Q E C tr =
     ((x = None \<longrightarrow> wp p Q E C tr) \<and> (\<forall>a. x = Some a \<longrightarrow> wp (q a) Q E C tr))"
  by (cases x) auto

lemma wp_list [wp_simps]:
  "wp (case xs of [] \<Rightarrow> p | a # as \<Rightarrow> q a as) Q E C tr =
     ((xs = [] \<longrightarrow> wp p Q E C tr) \<and> (\<forall>a as. xs = a # as \<longrightarrow> wp (q a as) Q E C tr))"
  by (cases xs) auto

lemma wp_Let [wp_simps]: "wp (let x = a in p x) Q E C tr = wp (p a) Q E C tr"
  by simp

lemma wp_if [wp_simps]:
  "wp (if b then p else q) Q E C tr = (if b then wp p Q E C tr else wp q Q E C tr)"
  by simp

lemma wp_mono:
  assumes "wp p Q E C tr"
    and "\<And>tr a. Q tr a \<Longrightarrow> Q' tr a" and "\<And>tr e. E tr e \<Longrightarrow> E' tr e" and "\<And>tr c. C tr c \<Longrightarrow> C' tr c"
  shows "wp p Q' E' C' tr"
  using assms(1) by (induction p arbitrary: tr) (auto intro: assms)

text \<open>The conditions hold of every play.\<close>

lemma wp_play:
  assumes "wp p Q E C tr" and "play p rs = (tr', out)"
  shows "(\<forall>a. out = Done a \<longrightarrow> Q (tr @ tr') a) \<and> (\<forall>e. out = Threw e \<longrightarrow> E (tr @ tr') e) \<and>
    (\<forall>c. out = Cut c \<longrightarrow> C (tr @ tr') c) \<and>
    (\<forall>n < length tr'. C (tr @ take n tr') (fst (tr' ! n)))"
  using assms
proof (induction p arbitrary: tr rs tr' out)
  case (Do c k)
  show ?case
  proof (cases rs)
    case Nil
    with Do.prems show ?thesis by auto
  next
    case (Cons r rs')
    obtain tr1 out1 where p: "play (k r) rs' = (tr1, out1)" by (metis prod.exhaust)
    with Do.prems(2) Cons have t: "tr' = (c, r) # tr1" "out = out1" by auto
    have w: "wp (k r) Q E C (tr @ [(c, r)])" and c0: "C tr c" using Do.prems(1) by auto
    from Do.IH [OF _ w p] have ih: "(\<forall>a. out = Done a \<longrightarrow> Q (tr @ tr') a) \<and> (\<forall>e. out = Threw e \<longrightarrow> E (tr @ tr') e) \<and>
        (\<forall>c. out = Cut c \<longrightarrow> C (tr @ tr') c)" "\<forall>n < length tr1. C (tr @ (c, r) # take n tr1) (fst (tr1 ! n))"
      using t by auto
    have "\<forall>n < length tr'. C (tr @ take n tr') (fst (tr' ! n))"
      using ih(2) c0 unfolding t(1) by (auto simp: nth_Cons take_Cons less_Suc_eq_0_disj split: nat.splits)
    with ih(1) show ?thesis by blast
  qed
qed auto

lemma wp_done: "wp p Q E C [] \<Longrightarrow> play p rs = (tr, Done a) \<Longrightarrow> Q tr a"
  using wp_play [of p Q E C "[]" rs tr "Done a"] by simp

lemma wp_threw: "wp p Q E C [] \<Longrightarrow> play p rs = (tr, Threw e) \<Longrightarrow> E tr e"
  using wp_play [of p Q E C "[]" rs tr "Threw e"] by simp

lemma wp_cut: "wp p Q E C [] \<Longrightarrow> play p rs = (tr, Cut c) \<Longrightarrow> C tr c"
  using wp_play [of p Q E C "[]" rs tr "Cut c"] by simp

lemma wp_sent_nth: "wp p Q E C [] \<Longrightarrow> play p rs = (tr, out) \<Longrightarrow> n < length tr \<Longrightarrow> C (take n tr) (fst (tr ! n))"
  using wp_play [of p Q E C "[]" rs tr out] by simp

text \<open>A property of the commands sent, answered or not.\<close>

lemma wp_sent:
  assumes "wp p (\<lambda>tr _. P (map fst tr)) (\<lambda>tr _. P (map fst tr)) (\<lambda>tr c. P (map fst tr @ [c])) []"
  shows "P (sent (play p rs))"
proof -
  obtain tr out where p: "play p rs = (tr, out)" by (metis prod.exhaust)
  from wp_play [OF assms p] show ?thesis unfolding p by (cases out) auto
qed

lemma wp_sent_all:
  assumes "wp p (\<lambda>tr _. True) (\<lambda>tr _. True) (\<lambda>tr c. P c) []"
  shows "\<forall>c \<in> set (sent (play p rs)). P c"
proof -
  obtain tr out where p: "play p rs = (tr, out)" by (metis prod.exhaust)
  have "P (fst ev)" if "ev \<in> set tr" for ev
    using that wp_play [OF assms p] by (metis in_set_conv_nth)
  with wp_play [OF assms p] show ?thesis unfolding p by (cases out) auto
qed

text \<open>Every command sent, answered or not, with the events before it.\<close>

lemma wp_sent_each:
  assumes "wp p Q E C []" and "play p rs = (tr, out)" and "n < length (sent (tr, out))"
  shows "C (take n tr) (sent (tr, out) ! n)"
proof (cases "n < length tr")
  case True
  then have "sent (tr, out) ! n = fst (tr ! n)" by (cases out) (simp_all add: nth_append)
  with wp_sent_nth [OF assms(1,2) True] show ?thesis by simp
next
  case False
  with assms(3) obtain c where "out = Cut c" "n = length tr" by (cases out) auto
  with wp_cut [OF assms(1)] assms(2) show ?thesis by (simp add: nth_append)
qed

text \<open>A play of a sequence that throws: its first part threw, or returned and the rest threw. A play of
  a \<open>try\<close> that throws: its body threw, and then its handler.\<close>

lemma play_replies: "play p rs = (tr, Threw e) \<Longrightarrow> play p (map snd tr) = (tr, Threw e)"
proof (induction p arbitrary: rs tr)
  case (Do c k)
  then obtain r rs' tr' where rs: "rs = r # rs'" "tr = (c, r) # tr'" "play (k r) rs' = (tr', Threw e)"
    by (auto split: list.splits prod.splits)
  from Do.IH [OF rangeI rs(3)] show ?case by (simp add: rs(2))
qed auto

lemma play_bind_threw:
  assumes "play (bind_prog p f) rs = (tr, Threw e)"
  obtains "play p (map snd tr) = (tr, Threw e)"
  | tr1 tr2 a where "tr = tr1 @ tr2" "play p (map snd tr1) = (tr1, Done a)" "play (f a) (map snd tr2) = (tr2, Threw e)"
proof -
  have "play p (map snd tr) = (tr, Threw e) \<or> (\<exists>tr1 tr2 a. tr = tr1 @ tr2 \<and>
      play p (map snd tr1) = (tr1, Done a) \<and> play (f a) (map snd tr2) = (tr2, Threw e))"
    using assms
  proof (induction p arbitrary: rs tr)
    case (Ret a)
    then have "play (f a) (map snd tr) = (tr, Threw e)" by (simp add: play_replies)
    then show ?case by (metis append_Nil list.map(1) play.simps(1))
  next
    case (Do c k)
    then obtain r rs' tr' where rs: "rs = r # rs'" "tr = (c, r) # tr'" "play (bind_prog (k r) f) rs' = (tr', Threw e)"
      by (auto split: list.splits prod.splits)
    from Do.IH [OF rangeI rs(3)] show ?case
    proof (elim disjE exE conjE)
      fix tr1 tr2 a
      assume "tr' = tr1 @ tr2" "play (k r) (map snd tr1) = (tr1, Done a)" "play (f a) (map snd tr2) = (tr2, Threw e)"
      then show ?thesis unfolding rs(2) by - (rule disjI2, rule exI [of _ "(c, r) # tr1"], rule exI [of _ tr2], rule exI [of _ a], simp)
    qed (simp add: rs(2))
  qed auto
  then show thesis using that by blast
qed

lemma play_catch_threw:
  assumes "play (catch_prog p h) rs = (tr, Threw e)"
  obtains tr1 tr2 e0 where "tr = tr1 @ tr2" "play p (map snd tr1) = (tr1, Threw e0)" "play (h e0) (map snd tr2) = (tr2, Threw e)"
proof -
  have "\<exists>tr1 tr2 e0. tr = tr1 @ tr2 \<and> play p (map snd tr1) = (tr1, Threw e0) \<and> play (h e0) (map snd tr2) = (tr2, Threw e)"
    using assms
  proof (induction p arbitrary: rs tr)
    case (Throw e0)
    then have "play (h e0) (map snd tr) = (tr, Threw e)" by (simp add: play_replies)
    then show ?case by (metis append_Nil list.map(1) play.simps(2))
  next
    case (Do c k)
    then obtain r rs' tr' where rs: "rs = r # rs'" "tr = (c, r) # tr'" "play (catch_prog (k r) h) rs' = (tr', Threw e)"
      by (auto split: list.splits prod.splits)
    from Do.IH [OF rangeI rs(3)] obtain tr1 tr2 e0
      where "tr' = tr1 @ tr2" "play (k r) (map snd tr1) = (tr1, Threw e0)" "play (h e0) (map snd tr2) = (tr2, Threw e)" by blast
    then show ?case unfolding rs(2) by - (rule exI [of _ "(c, r) # tr1"], rule exI [of _ tr2], rule exI [of _ e0], simp)
  qed auto
  then show thesis using that by blast
qed

text \<open>A program answers long enough replies with a result: no function of the platform other than
  the process loops waits for ever on its own account.\<close>

primrec depth_le :: "'a js \<Rightarrow> nat \<Rightarrow> bool" where
  "depth_le (Ret a) = (\<lambda>n. True)"
| "depth_le (Throw e) = (\<lambda>n. True)"
| "depth_le (Do c k) = (\<lambda>n. 0 < n \<and> (\<forall>r. depth_le (k r) (n - 1)))"

lemma depth_play: "depth_le p n \<Longrightarrow> n \<le> length rs \<Longrightarrow> snd (play p rs) \<noteq> Cut c"
proof (induction p arbitrary: n rs)
  case (Do d k)
  then obtain r rs' where rs: "rs = r # rs'" by (cases rs) auto
  with Do.prems have "depth_le (k r) (n - 1)" "n - 1 \<le> length rs'" by auto
  from Do.IH [OF _ this] rs show ?case by (auto split: prod.split)
qed auto

end
