(* ===== verification/Webhooks.thy ===== *)
theory Webhooks
  imports Traces
begin

text \<open>
  Webhooks: the repository \<open>src/src/modules/webhooks/webhook.repository.ts\<close> and the business rules
  of \<open>webhook.service.ts\<close>. The URL parser is the runtime's \<open>URL\<close> class, a parameter here:
  \<open>protocol_of u\<close> is the protocol it reads, \<open>None\<close> when it throws.
\<close>

section \<open>The repository\<close>

definition toWebhook :: "webhook_row \<Rightarrow> webhook" where
  "toWebhook row = \<lparr>w_id = wr_id row, w_tenant = wr_tenant row, w_url = wr_url row,
     w_isActive = wr_isactive row, w_createdAt = wr_createdat row\<rparr>"

definition insert_webhook :: "string \<Rightarrow> string \<Rightarrow> string \<Rightarrow> webhook js" where
  "insert_webhook tenant u secret =
     await (Sql (InsertWebhook tenant u secret)) (\<lambda>result.
     case webhook_rows result of
       [] \<Rightarrow> Throw (Failure ''insert returned no row'')
     | row # _ \<Rightarrow> Ret (toWebhook row))"

definition find_webhook :: "string \<Rightarrow> webhook option js" where
  "find_webhook i =
     await (Sql (SelectWebhook i)) (\<lambda>result.
     case webhook_rows result of [] \<Rightarrow> Ret None | row # _ \<Rightarrow> Ret (Some (toWebhook row)))"

definition findSecretById :: "string \<Rightarrow> string option js" where
  "findSecretById i =
     await (Sql (SelectSecret i)) (\<lambda>result.
     case secret_rows result of [] \<Rightarrow> Ret None | secret # _ \<Rightarrow> Ret (Some secret))"

definition find_webhooks_of :: "string \<Rightarrow> webhook list js" where
  "find_webhooks_of tenant =
     await (Sql (SelectWebhooksOf tenant)) (\<lambda>result. Ret (map toWebhook (webhook_rows result)))"

section \<open>The service\<close>

definition assertDeliverableUrl :: "(string \<Rightarrow> string option) \<Rightarrow> string \<Rightarrow> unit js" where
  "assertDeliverableUrl protocol_of u =
     (case protocol_of u of
        None \<Rightarrow> Throw (ValidationError ''url is not a valid URL'')
      | Some protocol \<Rightarrow>
          if protocol \<noteq> ''http:'' \<and> protocol \<noteq> ''https:'' then Throw (ValidationError ''url must use http or https'')
          else Ret ())"

text \<open>\<open>RandomBytes\<close> is \<open>randomBytes(32).toString('hex')\<close>; the reply is the text.\<close>

definition register :: "(string \<Rightarrow> string option) \<Rightarrow> string \<Rightarrow> string \<Rightarrow> (webhook \<times> string) js" where
  "register protocol_of tenant u =
     seq (assertDeliverableUrl protocol_of u)
       (await RandomBytes (\<lambda>bytes.
        let secret = the_default [] (as_str bytes)
        in bind_prog (insert_webhook tenant u secret) (\<lambda>w. Ret (w, secret))))"

definition get_webhook :: "string \<Rightarrow> webhook js" where
  "get_webhook i =
     bind_prog (find_webhook i) (\<lambda>w. case w of
       None \<Rightarrow> Throw (NotFoundError ''webhook not found'')
     | Some w \<Rightarrow> Ret w)"

definition list_webhooks :: "string \<Rightarrow> webhook list js" where
  "list_webhooks tenant = find_webhooks_of tenant"

definition getSecret :: "string \<Rightarrow> string js" where
  "getSecret i =
     bind_prog (findSecretById i) (\<lambda>secret. case secret of
       None \<Rightarrow> Throw (NotFoundError ''webhook not found'')
     | Some s \<Rightarrow> if s = [] then Throw (NotFoundError ''webhook not found'') else Ret s)"

definition getOwnedBy :: "string \<Rightarrow> string \<Rightarrow> webhook js" where
  "getOwnedBy i tenant =
     bind_prog (find_webhook i) (\<lambda>w. case w of
       None \<Rightarrow> Throw (NotFoundError ''webhook not found'')
     | Some w \<Rightarrow> if w_tenant w \<noteq> tenant then Throw (NotFoundError ''webhook not found'') else Ret w)"

end
