(* ===== verification/Backoff.thy ===== *)
theory Backoff
  imports Effects
begin

text \<open>
  Retry backoff, \<open>src/src/backoff.ts\<close>: exponential delay with full jitter, and the classification of
  failures into retryable and permanent. \<open>Math.random()\<close> is an effect whose reply is a number in
  \<open>[0, 1)\<close>.
\<close>

section \<open>The code\<close>

definition BASE_DELAY_MS :: int where "BASE_DELAY_MS = 1000"
definition MAX_DELAY_MS :: int where "MAX_DELAY_MS = 60000"

definition capped_delay :: "int \<Rightarrow> int" where
  "capped_delay attempts =
     (let exponential = BASE_DELAY_MS * 2 ^ nat (max 0 (attempts - 1)) in min exponential MAX_DELAY_MS)"

definition backoffMs :: "int \<Rightarrow> int js" where
  "backoffMs attempts = await MathRandom (\<lambda>u. Ret \<lfloor>as_rat u * of_int (capped_delay attempts)\<rfloor>)"

definition isRetryable :: "int option \<Rightarrow> bool" where
  "isRetryable statusCode =
     (case statusCode of
        None \<Rightarrow> True
      | Some c \<Rightarrow>
          if c = 408 \<or> c = 429 then True
          else if c \<ge> 500 then True
          else False)"

section \<open>Lemmas\<close>

lemma capped_delay_bounds: "0 < capped_delay a \<and> capped_delay a \<le> MAX_DELAY_MS"
  by (simp add: capped_delay_def Let_def BASE_DELAY_MS_def MAX_DELAY_MS_def min_def)

lemma capped_delay_mono: "a \<le> b \<Longrightarrow> capped_delay a \<le> capped_delay b"
  unfolding capped_delay_def Let_def BASE_DELAY_MS_def
  by (intro min.mono mult_left_mono power_increasing nat_mono) auto

lemma capped_delay_doubles:
  assumes "1 \<le> a" and "2 * capped_delay a \<le> MAX_DELAY_MS"
  shows "capped_delay (a + 1) = 2 * capped_delay a"
proof -
  have "nat a = Suc (nat (a - 1))" using assms(1) by simp
  then show ?thesis
    using assms by (simp add: capped_delay_def Let_def BASE_DELAY_MS_def MAX_DELAY_MS_def max_def min_def
        split: if_splits)
qed

lemma floor_jitter:
  assumes "0 \<le> u" and "u < 1" and "0 < n"
  shows "0 \<le> \<lfloor>u * of_int n\<rfloor> \<and> \<lfloor>u * of_int n\<rfloor> < (n :: int)"
proof -
  have "u * of_int n < of_int n" using assms by (simp add: mult_less_cancel_right1)
  then show ?thesis using assms by (simp add: floor_less_iff)
qed

text \<open>The delay computed when \<open>Math.random()\<close> answers \<open>u\<close>.\<close>

definition delay_for :: "int \<Rightarrow> rat \<Rightarrow> err + int" where
  "delay_for attempts u = fst (interp (\<lambda>_ s. (Rand u, s)) (backoffMs attempts) ())"

lemma delay_for: "delay_for a u = Inr \<lfloor>u * of_int (capped_delay a)\<rfloor>"
  by (simp add: delay_for_def backoffMs_def await_def)

section \<open>Properties\<close>

text \<open>The delay before a retry is full jitter below an exponential cap: for every random number
  in \<open>[0, 1)\<close> the delay is a whole number of milliseconds in \<open>[0, cap)\<close>, and every such number is
  the delay of some random number. The cap is one second after the first attempt, doubles with
  every further attempt as long as twice the cap is at most a minute, and never exceeds a minute.\<close>

theorem backoff_full_jitter:
  "{d. \<exists>u. 0 \<le> u \<and> u < 1 \<and> delay_for a u = Inr d} = {0..<capped_delay a} \<and>
   capped_delay 1 = 1000 \<and> capped_delay a \<le> 60000 \<and>
   (1 \<le> a \<and> 2 * capped_delay a \<le> 60000 \<longrightarrow> capped_delay (a + 1) = 2 * capped_delay a)"
proof (intro conjI impI set_eqI iffI)
  fix d assume "d \<in> {d. \<exists>u. 0 \<le> u \<and> u < 1 \<and> delay_for a u = Inr d}"
  then show "d \<in> {0..<capped_delay a}"
    using floor_jitter capped_delay_bounds [of a] by (auto simp: delay_for)
next
  fix d assume d: "d \<in> {0..<capped_delay a}"
  have c: "0 < capped_delay a" using capped_delay_bounds by simp
  let ?u = "of_int d / of_int (capped_delay a) :: rat"
  have "0 \<le> ?u" and "?u < 1" and "?u * of_int (capped_delay a) = of_int d"
    using d c by (auto simp: divide_less_eq)
  then show "d \<in> {d. \<exists>u. 0 \<le> u \<and> u < 1 \<and> delay_for a u = Inr d}"
    by (auto simp: delay_for intro!: exI [of _ ?u])
next
  show "capped_delay 1 = 1000"
    by (simp add: capped_delay_def Let_def BASE_DELAY_MS_def MAX_DELAY_MS_def)
  show "capped_delay a \<le> 60000"
    using capped_delay_bounds [of a] by (simp add: MAX_DELAY_MS_def)
  show "capped_delay (a + 1) = 2 * capped_delay a" if "1 \<le> a \<and> 2 * capped_delay a \<le> 60000"
    using that by (intro capped_delay_doubles) (auto simp: MAX_DELAY_MS_def)
qed

theorem backoff_full_jitter_witness:
  "capped_delay 4 = 8000 \<and> capped_delay 5 = 16000"
proof -
  have "capped_delay 4 = 8000"
    by (simp add: capped_delay_def Let_def BASE_DELAY_MS_def MAX_DELAY_MS_def)
  then show ?thesis using backoff_full_jitter [of 4] by simp
qed

text \<open>A failed delivery is retried exactly when no response arrived, or the status was 408, 429 or
  at least 500; every other status, in particular every other 4xx, is permanent.\<close>

theorem isRetryable_iff:
  "isRetryable s \<longleftrightarrow> s = None \<or> s = Some 408 \<or> s = Some 429 \<or> (\<exists>c. s = Some c \<and> 500 \<le> c)"
  by (cases s) (auto simp: isRetryable_def)

end
