(* ===== verification/Deliveries.thy ===== *)
theory Deliveries
  imports Traces Backoff
begin

text \<open>
  One delivery over HTTP: the audit trail \<open>src/src/modules/deliveries/delivery.repository.ts\<close> and
  the signed request of \<open>delivery.service.ts\<close>. The HMAC is the crypto library's, a parameter
  \<open>hmac secret message\<close> (the hex digest). \<open>fetch\<close> is two waits: for the response's status, then
  for its text; either may reject (timeout, DNS, connection).
\<close>

section \<open>The repository\<close>

fun next_row :: "resp \<Rightarrow> int option" where
  "next_row (NextRow n) = Some n"
| "next_row _ = None"

definition nextAttemptNumber :: "string \<Rightarrow> int js" where
  "nextAttemptNumber jobId =
     await (Sql (SelectNextAttempt jobId)) (\<lambda>result. Ret (the_default 1 (next_row result)))"

definition insert_attempt :: "attempt_record \<Rightarrow> unit js" where
  "insert_attempt a = await (Sql (InsertAttempt a)) (\<lambda>_. Ret ())"

definition findByJobId :: "string \<Rightarrow> attempt_view list js" where
  "findByJobId jobId = await (Sql (SelectAttempts jobId)) (\<lambda>result. Ret (attempt_rows result))"

section \<open>The service\<close>

definition MAX_BODY_CHARS :: nat where "MAX_BODY_CHARS = 2000"

record delivery_result =
  dr_success :: bool
  dr_statusCode :: "int option"
  dr_error :: "string option"
  dr_durationMs :: ms
  dr_retryable :: bool

definition listAttempts :: "string \<Rightarrow> attempt_view list js" where
  "listAttempts jobId = findByJobId jobId"

definition sign :: "(string \<Rightarrow> string \<Rightarrow> string) \<Rightarrow> string \<Rightarrow> string \<Rightarrow> string \<Rightarrow> string" where
  "sign hmac secret timestamp b = hmac secret (timestamp @ ''.'' @ b)"

definition delivery_request :: "job \<Rightarrow> string \<Rightarrow> int \<Rightarrow> string \<Rightarrow> string \<Rightarrow> string \<Rightarrow> http_request" where
  "delivery_request j webhookUrl attemptNumber timestamp signature b =
     \<lparr>url = webhookUrl,
      headers = [(''content-type'', ''application/json''),
                 (''user-agent'', ''webhook-delivery-platform/1.0''),
                 (''x-event-type'', j_eventType j),
                 (''x-job-id'', j_id j),
                 (''x-attempt'', show_int attemptNumber),
                 (''idempotency-key'', j_id j),
                 (''x-signature-timestamp'', timestamp),
                 (''x-signature'', ''v1='' @ signature)],
      body = b\<rparr>"

fun as_status :: "resp \<Rightarrow> int" where
  "as_status (Status n) = n"
| "as_status _ = 0"

definition ok_status :: "int \<Rightarrow> bool" where
  "ok_status n \<longleftrightarrow> 200 \<le> n \<and> n < 300"

text \<open>The try block: the three variables it assigns (\<open>statusCode\<close>, \<open>responseBody\<close>, \<open>error\<close>), as they
  are when it ends or when its catch has run.\<close>

definition http_exchange :: "http_request \<Rightarrow> (int option \<times> string option \<times> string option) js" where
  "http_exchange req =
     await_or (Fetch req)
       (\<lambda>response.
         let statusCode = as_status response
         in await_or ResponseText
              (\<lambda>txt. Ret (Some statusCode, Some (take MAX_BODY_CHARS (the_default [] (as_str txt))),
                 if ok_status statusCode then None else Some (''HTTP '' @ show_int statusCode)))
              (\<lambda>err. Ret (Some statusCode, None, Some err)))
       (\<lambda>err. Ret (None, None, Some err))"

definition deliver :: "(string \<Rightarrow> string \<Rightarrow> string) \<Rightarrow> job \<Rightarrow> string \<Rightarrow> string \<Rightarrow> delivery_result js" where
  "deliver hmac j webhookUrl secret =
     bind_prog (nextAttemptNumber (j_id j)) (\<lambda>attemptNumber.
     await DateNow (\<lambda>started.
     await DateNow (\<lambda>now.
     let b = j_payload j;
         timestamp = show_int (as_int now);
         signature = sign hmac secret timestamp b
     in bind_prog (http_exchange (delivery_request j webhookUrl attemptNumber timestamp signature b))
          (\<lambda>(statusCode, responseBody, error).
        await DateNow (\<lambda>finished.
        let durationMs = as_int finished - as_int started;
            success = (case statusCode of None \<Rightarrow> False | Some n \<Rightarrow> ok_status n)
        in seq (insert_attempt \<lparr>a_jobId = j_id j, a_attemptNumber = attemptNumber, a_statusCode = statusCode,
                  a_responseBody = responseBody, a_error = error, a_durationMs = durationMs\<rparr>)
             (Ret \<lparr>dr_success = success, dr_statusCode = statusCode, dr_error = error,
                dr_durationMs = durationMs, dr_retryable = \<not> success \<and> isRetryable statusCode\<rparr>))))))"

end
