(* ===== verification/Jobs.thy ===== *)
theory Jobs
  imports Queue RateLimit Circuit Idempotency Webhooks Deliveries
begin

text \<open>
  Jobs: the repository \<open>src/src/modules/jobs/job.repository.ts\<close> and the business rules of
  \<open>job.service.ts\<close>, which put the queue, the breaker, the rate limiter, the idempotency slots and
  the delivery together. A payload is its serialised text, so \<open>JSON.stringify\<close> of it is the
  identity. Log calls are left out: nothing waits for them and nothing reads them.
\<close>

section \<open>The repository\<close>

definition toJob :: "job_row \<Rightarrow> job" where
  "toJob row = \<lparr>j_id = jr_id row, j_tenant = jr_tenant row, j_webhookId = jr_webhookid row,
     j_eventType = jr_eventtype row, j_payload = jr_payload row, j_state = jr_state row,
     j_attempts = jr_attempts row, j_maxAttempts = jr_maxattempts row, j_runAt = jr_runat row,
     j_lastError = jr_lasterror row, j_createdAt = jr_createdat row\<rparr>"

definition insert_job :: "string \<Rightarrow> string \<Rightarrow> string \<Rightarrow> string \<Rightarrow> ms option \<Rightarrow> job js" where
  "insert_job tenant webhookId eventType payload runAt =
     await (Sql (InsertJob tenant webhookId eventType payload runAt)) (\<lambda>result.
     case job_rows result of
       [] \<Rightarrow> Throw (Failure ''insert returned no row'')
     | row # _ \<Rightarrow> Ret (toJob row))"

definition first_job :: "resp \<Rightarrow> job option js" where
  "first_job result = (case job_rows result of [] \<Rightarrow> Ret None | row # _ \<Rightarrow> Ret (Some (toJob row)))"

definition find_job :: "string \<Rightarrow> job option js" where
  "find_job i = await (Sql (SelectJob i)) first_job"

text \<open>A \<open>Map\<close> built from the rows: of two rows with one id the last counts.\<close>

definition findByIds :: "string list \<Rightarrow> job list js" where
  "findByIds ids =
     (if ids = [] then Ret []
      else await (Sql (SelectJobsAny ids)) (\<lambda>result.
        let byId = map_of (rev (map (\<lambda>row. (jr_id row, toJob row)) (job_rows result)))
        in Ret (List.map_filter byId ids)))"

definition updateState ::
    "string \<Rightarrow> job_state \<Rightarrow> bool \<Rightarrow> string option \<Rightarrow> ms option \<Rightarrow> job option js" where
  "updateState i state incrementAttempts lastError runAt =
     await (Sql (UpdateJob i state (if incrementAttempts then 1 else 0) lastError runAt)) first_job"

definition resetForReplay :: "string \<Rightarrow> job option js" where
  "resetForReplay i = await (Sql (ResetJob i)) first_job"

definition find_jobs_of :: "string \<Rightarrow> job_state option \<Rightarrow> int \<Rightarrow> job list js" where
  "find_jobs_of tenant state limit =
     await (Sql (SelectJobsWhere tenant state limit)) (\<lambda>result. Ret (map toJob (job_rows result)))"

section \<open>Accepting an event\<close>

record config =
  perSecond :: int
  burst :: int
  failureThreshold :: int
  cooldownMs :: int

record enqueue_input =
  in_tenant :: string
  in_webhookId :: string
  in_eventType :: string
  in_payload :: string
  in_runAt :: "ms option"
  in_idempotencyKey :: "string option"

text \<open>\<open>if (idempotencyKey)\<close>: absent and empty keys are none.\<close>

fun key_of :: "string option \<Rightarrow> string option" where
  "key_of None = None"
| "key_of (Some k) = (if k = [] then None else Some k)"

definition idempotency_gate :: "enqueue_input \<Rightarrow> job option js" where
  "idempotency_gate i =
     (case key_of (in_idempotencyKey i) of
        None \<Rightarrow> Ret None
      | Some k \<Rightarrow>
          bind_prog (begin_slot (in_tenant i) k) (\<lambda>outcome. case outcome of
            Duplicate jobId \<Rightarrow> find_job jobId
          | Pending \<Rightarrow> Throw (ConflictError ''a request with this idempotency key is in progress'')
          | New \<Rightarrow> Ret None))"

definition create_job :: "enqueue_input \<Rightarrow> job js" where
  "create_job i =
     bind_prog (insert_job (in_tenant i) (in_webhookId i) (in_eventType i) (in_payload i) (in_runAt i)) (\<lambda>j.
     let runAtMs = j_runAt j
     in await DateNow (\<lambda>now.
        seq (if runAtMs > as_int now then pushDelayed (j_id j) runAtMs
             else bind_prog (push (j_id j)) (\<lambda>_. Ret ()))
       (seq (case key_of (in_idempotencyKey i) of
               None \<Rightarrow> Ret ()
             | Some k \<Rightarrow> complete_slot (in_tenant i) k (j_id j))
       (Ret j))))"

definition enqueue :: "enqueue_input \<Rightarrow> job js" where
  "enqueue i =
     bind_prog (getOwnedBy (in_webhookId i) (in_tenant i)) (\<lambda>w.
     if \<not> w_isActive w then Throw (ConflictError ''webhook is inactive'')
     else bind_prog (idempotency_gate i) (\<lambda>found. case found of
       Some existing \<Rightarrow> Ret existing
     | None \<Rightarrow>
         catch_prog (create_job i) (\<lambda>err.
           seq (case key_of (in_idempotencyKey i) of
                  None \<Rightarrow> Ret ()
                | Some k \<Rightarrow> abort_slot (in_tenant i) k)
             (Throw err))))"

section \<open>Processing a claimed job\<close>

definition circuit_key :: "string \<Rightarrow> key" where
  "circuit_key webhookId = ''circuit:webhook:'' @ webhookId"

definition ratelimit_key :: "string \<Rightarrow> key" where
  "ratelimit_key webhookId = ''ratelimit:webhook:'' @ webhookId"

text \<open>Putting a job off without spending an attempt.\<close>

definition defer_job :: "job \<Rightarrow> jobid \<Rightarrow> ms \<Rightarrow> unit js" where
  "defer_job j jobId delay =
     await DateNow (\<lambda>now.
     let runAtMs = as_int now + delay
     in seq (updateState (j_id j) Queued False None (Some runAtMs))
          (retryLater jobId runAtMs))"

text \<open>After the delivery: \<open>settle\<close> records the outcome in Postgres and releases the claim.\<close>

definition settle :: "config \<Rightarrow> job \<Rightarrow> jobid \<Rightarrow> delivery_result \<Rightarrow> unit js" where
  "settle cfg j jobId result =
    (if dr_success result then
       seq (recordSuccess (circuit_key (j_webhookId j)))
      (seq (updateState (j_id j) Succeeded True None None)
           (ack jobId))
     else
       seq (recordFailure (circuit_key (j_webhookId j)) (failureThreshold cfg))
        (let attemptsAfter = j_attempts j + 1;
             exhausted = attemptsAfter \<ge> j_maxAttempts j
         in if \<not> dr_retryable result \<or> exhausted then
              seq (updateState (j_id j) Dead True (dr_error result) None)
                  (deadLetter jobId)
            else
              bind_prog (backoffMs attemptsAfter) (\<lambda>delayMs.
              await DateNow (\<lambda>now.
              let runAtMs = as_int now + delayMs
              in seq (updateState (j_id j) Queued True (dr_error result) (Some runAtMs))
                     (retryLater jobId runAtMs)))))"

text \<open>\<open>process\<close> on a live row: the two gates, the delivery, and \<open>settle\<close>.\<close>

definition process_live :: "config \<Rightarrow> (string \<Rightarrow> string \<Rightarrow> string) \<Rightarrow> jobid \<Rightarrow> job \<Rightarrow> unit js" where
  "process_live cfg hmac jobId j =
     bind_prog (check (circuit_key (j_webhookId j)) (cooldownMs cfg)) (\<lambda>circuitState.
     if circuitState = Open then defer_job j jobId (cooldownMs cfg)
     else
     bind_prog (take_token (ratelimit_key (j_webhookId j)) (perSecond cfg) (burst cfg) 1) (\<lambda>rate.
     if \<not> rr_allowed rate then defer_job j jobId (max (rr_retryAfterMs rate) 100)
     else
     seq (updateState (j_id j) In_flight False None None)
    (bind_prog (get_webhook (j_webhookId j)) (\<lambda>w.
     bind_prog (getSecret (j_webhookId j)) (\<lambda>secret.
     bind_prog (deliver hmac j (w_url w) secret) (\<lambda>result.
     settle cfg j jobId result))))))"

definition process :: "config \<Rightarrow> (string \<Rightarrow> string \<Rightarrow> string) \<Rightarrow> jobid \<Rightarrow> unit js" where
  "process cfg hmac jobId =
     bind_prog (find_job jobId) (\<lambda>found. case found of
       None \<Rightarrow> ack jobId
     | Some j \<Rightarrow>
         if j_state j = Succeeded \<or> j_state j = Dead then ack jobId
         else process_live cfg hmac jobId j)"

section \<open>The dead-letter queue and the reads\<close>

text \<open>The loop of \<open>replay\<close> with \<open>n\<close> iterations left.\<close>

primrec replay_loop :: "nat \<Rightarrow> jobid list \<Rightarrow> jobid list js" where
  "replay_loop 0 replayed = Ret replayed"
| "replay_loop (Suc n) replayed =
     bind_prog popDlq (\<lambda>popped. case popped of
       None \<Rightarrow> Ret replayed
     | Some jobId \<Rightarrow>
         if jobId = [] then Ret replayed
         else bind_prog (resetForReplay jobId) (\<lambda>found. case found of
           None \<Rightarrow> replay_loop n replayed
         | Some _ \<Rightarrow> seq (push jobId) (replay_loop n (replayed @ [jobId]))))"

definition replay :: "int \<Rightarrow> jobid list js" where
  "replay limit = replay_loop (nat limit) []"

definition get_job :: "string \<Rightarrow> job js" where
  "get_job i =
     bind_prog (find_job i) (\<lambda>found. case found of
       None \<Rightarrow> Throw (NotFoundError ''job not found'')
     | Some j \<Rightarrow> Ret j)"

definition listDlq :: "int \<Rightarrow> job list js" where
  "listDlq limit = bind_prog (peekDlq limit) findByIds"

definition list_jobs :: "string \<Rightarrow> job_state option \<Rightarrow> int \<Rightarrow> job list js" where
  "list_jobs tenant state limit = find_jobs_of tenant state limit"

end
