(* ===== verification/Lock.thy ===== *)
theory Lock
  imports Effects
begin

text \<open>
  The lock behind leader election, \<open>src/src/lock.ts\<close>: acquisition by \<open>SET NX PX\<close> with a random
  token, and the two Lua scripts that release and renew only a lock that still holds the caller's
  token. The specification is one owner and one deadline; every process's calls, at any times of
  the server, are calls on it.
\<close>

section \<open>The code\<close>

record lock =
  l_key :: key
  l_token :: string

definition acquire :: "key \<Rightarrow> ms \<Rightarrow> lock option js" where
  "acquire key ttlMs =
     await RandomUUID (\<lambda>u.
     let token = the_default [] (as_str u)
     in await (RCmd (SetNxPx key (VStr token) ttlMs)) (\<lambda>result.
        Ret (if as_str result = Some ''OK'' then Some \<lparr>l_key = key, l_token = token\<rparr> else None)))"

definition release_script :: "key \<Rightarrow> string \<Rightarrow> lua" where
  "release_script KEYS1 ARGV1 =
     redis_call (Get KEYS1) (\<lambda>v.
     if v = RBulk (VStr ARGV1) then redis_call (Del KEYS1) Ret else Ret (RInt 0))"

definition release :: "lock \<Rightarrow> bool js" where
  "release l = await (Eval RELEASE_SCRIPT [l_key l] [VStr (l_token l)]) (\<lambda>result. Ret (as_int result = 1))"

definition renew_script :: "key \<Rightarrow> string \<Rightarrow> ms \<Rightarrow> lua" where
  "renew_script KEYS1 ARGV1 ARGV2 =
     redis_call (Get KEYS1) (\<lambda>v.
     if v = RBulk (VStr ARGV1) then redis_call (Pexpire KEYS1 ARGV2) Ret else Ret (RInt 0))"

definition renew :: "lock \<Rightarrow> ms \<Rightarrow> bool js" where
  "renew l ttlMs =
     await (Eval RENEW_SCRIPT [l_key l] [VStr (l_token l), VNum (of_int ttlMs)]) (\<lambda>result. Ret (as_int result = 1))"

section \<open>Calls on one lock\<close>

text \<open>The calls that reach the server, with its time: an acquisition with the token drawn for it, a
  release, a renewal. The reply is whether the call took hold.\<close>

datatype lock_op =
    Acquire string ms
  | Release string
  | Renew string ms

type_synonym lock_call = "ms \<times> lock_op"

definition took :: "err + reply \<Rightarrow> bool" where
  "took res \<longleftrightarrow> res = Inr (RInt 1) \<or> res = Inr (RBulk (VStr ''OK''))"

fun op_exec :: "(ms \<Rightarrow> rcmd \<Rightarrow> 'r \<Rightarrow> reply \<times> 'r) \<Rightarrow> key \<Rightarrow> ms \<Rightarrow> lock_op \<Rightarrow> 'r \<Rightarrow> (err + reply) \<times> 'r" where
  "op_exec exec k t (Acquire tok ttl) r = lua_run exec t (redis_call (SetNxPx k (VStr tok) ttl) Ret) r"
| "op_exec exec k t (Release tok) r = lua_run exec t (release_script k tok) r"
| "op_exec exec k t (Renew tok ttl) r = lua_run exec t (renew_script k tok ttl) r"

definition lock_exec :: "(ms \<Rightarrow> rcmd \<Rightarrow> 'r \<Rightarrow> reply \<times> 'r) \<Rightarrow> key \<Rightarrow> lock_call \<Rightarrow> 'r \<Rightarrow> bool \<times> 'r" where
  "lock_exec exec k c r = (case op_exec exec k (fst c) (snd c) r of (res, r') \<Rightarrow> (took res, r'))"

text \<open>The specification: the owner's token and when it lapses.\<close>

type_synonym held = "(string \<times> ms) option"

definition owner :: "ms \<Rightarrow> held \<Rightarrow> string option" where
  "owner t s = (case s of None \<Rightarrow> None | Some (tok, x) \<Rightarrow> if x \<le> t then None else Some tok)"

fun op_step :: "ms \<Rightarrow> lock_op \<Rightarrow> held \<Rightarrow> bool \<times> held" where
  "op_step t (Acquire tok ttl) s =
     (if owner t s = None \<and> 0 < ttl then (True, Some (tok, t + ttl)) else (False, s))"
| "op_step t (Release tok) s = (if owner t s = Some tok then (True, None) else (False, s))"
| "op_step t (Renew tok ttl) s =
     (if owner t s = Some tok then (True, if 0 < ttl then Some (tok, t + ttl) else None) else (False, s))"

definition lock_step :: "lock_call \<Rightarrow> held \<Rightarrow> bool \<times> held" where
  "lock_step c s = op_step (fst c) (snd c) s"

fun holds :: "held \<Rightarrow> entry \<Rightarrow> bool" where
  "holds None e = (e = None)"
| "holds (Some (tok, x)) e = (e = Some (DStr (VStr tok), Some x))"

lemma holds_live:
  "holds s e \<Longrightarrow> is_str_entry (live t e) \<and> (live t e = None \<longleftrightarrow> owner t s = None) \<and>
     (opt_bulk (str_of (live t e)) = RBulk (VStr tok) \<longleftrightarrow> owner t s = Some tok) \<and>
     (\<forall>m. opt_bulk (str_of (live t e)) \<noteq> RErr m)"
  by (cases "(s, e)" rule: holds.cases) (auto simp: owner_def)

context redis_server
begin

lemma lock_refines:
  assumes "holds s (ent r k) \<and> (\<forall>k'. k' \<noteq> k \<longrightarrow> ent r k' = e0 k')"
  shows "fst (lock_exec exec k c r) = fst (lock_step c s) \<and>
    holds (snd (lock_step c s)) (ent (snd (lock_exec exec k c r)) k) \<and>
    (\<forall>k'. k' \<noteq> k \<longrightarrow> ent (snd (lock_exec exec k c r)) k' = e0 k')"
proof -
  obtain t oper where c: "c = (t, oper)" by (metis prod.exhaust)
  from assms have h: "holds s (ent r k)" by simp
  note l = holds_live [OF h, of t]
  have g: "fst (exec t (Get k) r) = opt_bulk (str_of (live t (ent r k)))" "ent (snd (exec t (Get k) r)) = ent r"
    using get [of t r k] l by simp_all
  show ?thesis
  proof (cases oper)
    case (Acquire tok ttl)
    show ?thesis
    proof (cases "0 < ttl")
      case True
      from set_nx_px [OF this, of t k "VStr tok" r] c Acquire l [of tok] h assms True show ?thesis
        by (auto simp: lock_exec_def lock_step_def took_def split: if_splits)
    next
      case False
      with set_bad_ttl [of ttl "SetNxPx k (VStr tok) ttl" k "VStr tok" t r] c Acquire h assms show ?thesis
        by (auto simp: lock_exec_def lock_step_def took_def)
    qed
  next
    case (Release tok)
    with c l [of tok] g h assms del [of t k "snd (exec t (Get k) r)"] show ?thesis
      by (auto simp: lock_exec_def lock_step_def took_def release_script_def split: reply.splits)
  next
    case (Renew tok ttl)
    with c l [of tok] g h assms pexpire [of t k ttl "snd (exec t (Get k) r)"] show ?thesis
      by (auto simp: lock_exec_def lock_step_def took_def renew_script_def owner_def split: reply.splits option.splits if_splits)
  qed
qed

sublocale locked: simulation "lock_exec exec k" lock_step
  "\<lambda>s r. holds s (ent r k) \<and> (\<forall>k'. k' \<noteq> k \<longrightarrow> ent r k' = e0 k')" "\<lambda>b. b" for k e0
  by unfold_locales (rule lock_refines)

lemma lock_calls_refine:
  assumes "holds s (ent r k)"
  shows "fst (run_calls (lock_exec exec k) cs r) = fst (run_calls lock_step cs s)"
    and "holds (snd (run_calls lock_step cs s)) (ent (snd (run_calls (lock_exec exec k) cs r)) k)"
    and "k' \<noteq> k \<Longrightarrow> ent (snd (run_calls (lock_exec exec k) cs r)) k' = ent r k'"
  using assms locked.run_replies [of s r k "ent r" cs] locked.run_related [of s r k "ent r" cs] by auto

end

interpretation mem_lock: simulation "lock_exec mem_exec k" lock_step
  "\<lambda>s r. holds s (r k) \<and> (\<forall>k'. k' \<noteq> k \<longrightarrow> r k' = e0 k')" "\<lambda>b. b" for k e0
  by unfold_locales (rule mem.lock_refines)

section \<open>What the owner can rely on\<close>

text \<open>A call of someone else before \<open>x\<close>, or a renewal by the owner that does not shorten the lease.\<close>

fun leaves_alone :: "string \<Rightarrow> ms \<Rightarrow> lock_call \<Rightarrow> bool" where
  "leaves_alone tok x (t, Acquire tok' ttl) = (t < x)"
| "leaves_alone tok x (t, Release tok') = (t < x \<and> tok' \<noteq> tok)"
| "leaves_alone tok x (t, Renew tok' ttl) = (t < x \<and> (tok' = tok \<longrightarrow> 0 < ttl \<and> x \<le> t + ttl))"

fun own_renewal :: "string \<Rightarrow> lock_call \<Rightarrow> bool" where
  "own_renewal tok (t, Renew tok' ttl) = (tok' = tok)"
| "own_renewal tok _ = False"

lemma left_alone_step:
  assumes "leaves_alone tok x c" and "\<exists>y \<ge> x. s = Some (tok, y)"
  shows "(\<exists>y \<ge> x. snd (lock_step c s) = Some (tok, y)) \<and> (fst (lock_step c s) \<longrightarrow> own_renewal tok c)"
  using assms by (cases "(tok, x, c)" rule: leaves_alone.cases) (auto simp: lock_step_def owner_def)

lemma left_alone_fixed:
  assumes "leaves_alone tok x c" and "\<not> own_renewal tok c"
  shows "lock_step c (Some (tok, x)) = (False, Some (tok, x))"
  using assms by (cases "(tok, x, c)" rule: leaves_alone.cases) (auto simp: lock_step_def owner_def)

lemma granted:
  "fst (lock_step (t, Acquire tok ttl) s) \<Longrightarrow> snd (lock_step (t, Acquire tok ttl) s) = Some (tok, t + ttl)"
  by (auto simp: lock_step_def split: if_splits)

section \<open>Properties\<close>

text \<open>C19: The lock excludes. Once an acquisition with token \<open>tok\<close> is granted at time \<open>t0\<close>, then until
  \<open>t0 + ttl\<close>, whatever the other processes call in whatever order (acquisitions, releases and
  renewals with their own tokens, the late ones of an owner who lost the lock included), every call
  but the owner's renewals is refused, and the lock stays the owner's.\<close>

theorem lock_excludes:
  assumes "redis_server exec ent" and "holds s (ent r k)"
    and "lock_exec exec k (t0, Acquire tok ttl) r = (True, r0)"
    and "\<forall>c \<in> set cs. leaves_alone tok (t0 + ttl) c"
  shows "list_all2 (\<lambda>c reply. reply \<longrightarrow> own_renewal tok c) cs (fst (run_calls (lock_exec exec k) cs r0)) \<and>
    (\<exists>x \<ge> t0 + ttl. holds (Some (tok, x)) (ent (snd (run_calls (lock_exec exec k) cs r0)) k))"
proof -
  note ref = redis_server.lock_calls_refine [OF assms(1)]
  have s0: "holds (Some (tok, t0 + ttl)) (ent r0 k)"
    using ref(1) [OF assms(2), of "[(t0, Acquire tok ttl)]"] ref(2) [OF assms(2), of "[(t0, Acquire tok ttl)]"]
      assms(3) granted by auto
  have "list_all2 (\<lambda>c reply. reply \<longrightarrow> own_renewal tok c) cs (fst (run_calls lock_step cs (Some (tok, t0 + ttl))))"
    by (rule run_calls_reply [where I = "\<lambda>s. \<exists>y \<ge> t0 + ttl. s = Some (tok, y)"])
       (use assms(4) left_alone_step in blast)+
  moreover have "\<exists>y \<ge> t0 + ttl. snd (run_calls lock_step cs (Some (tok, t0 + ttl))) = Some (tok, y)"
    by (rule run_calls_keeps) (use assms(4) left_alone_step in blast)+
  ultimately show ?thesis using ref(1,2) [OF s0, of cs] by auto
qed

theorem lock_excludes_witness:
  "\<exists>x \<ge> 10. holds (Some (''a'', x)) (snd (run_calls (lock_exec mem_exec ''leader'')
     [(1, Acquire ''b'' 50), (2, Release ''b''), (3, Renew ''a'' 15), (9, Acquire ''b'' 50)]
     (snd (lock_exec mem_exec ''leader'' (0, Acquire ''a'' 10) (\<lambda>_. None)))) ''leader'')"
proof -
  have g: "lock_exec mem_exec ''leader'' (0, Acquire ''a'' 10) (\<lambda>_. None) =
      (True, snd (lock_exec mem_exec ''leader'' (0, Acquire ''a'' 10) (\<lambda>_. None)))"
    by (simp add: lock_exec_def took_def)
  show ?thesis
    using lock_excludes [OF mem_server _ g, of None
        "[(1, Acquire ''b'' 50), (2, Release ''b''), (3, Renew ''a'' 15), (9, Acquire ''b'' 50)]"]
    by (simp del: run_calls.simps)
qed

text \<open>The lock is never stuck. If the owner stops, whatever the others call before its lease runs
  out, the first acquisition at or after that time is granted.\<close>

theorem lock_recovers:
  assumes "redis_server exec ent" and "holds (Some (tok, x)) (ent r k)"
    and "\<forall>c \<in> set cs. leaves_alone tok x c \<and> \<not> own_renewal tok c"
    and "x \<le> t" and "0 < ttl"
  shows "last (fst (run_calls (lock_exec exec k) (cs @ [(t, Acquire tok' ttl)]) r)) \<and>
    holds (Some (tok', t + ttl)) (ent (snd (run_calls (lock_exec exec k) (cs @ [(t, Acquire tok' ttl)]) r)) k)"
proof -
  have "snd (run_calls lock_step cs (Some (tok, x))) = Some (tok, x)"
    by (rule run_calls_keeps) (use assms(3) left_alone_fixed in auto)
  then show ?thesis
    using redis_server.lock_calls_refine [OF assms(1,2), where cs = "cs @ [(t, Acquire tok' ttl)]"] assms(4,5)
    by (simp add: run_calls_append lock_step_def owner_def)
qed

theorem lock_recovers_witness:
  "last (fst (run_calls (lock_exec mem_exec ''leader'') ([(5, Acquire ''b'' 50)] @ [(10, Acquire ''b'' 50)])
     ((\<lambda>_. None)(''leader'' := Some (DStr (VStr ''a''), Some 10)))))"
  using lock_recovers [OF mem_server, of "''a''" 10 "(\<lambda>_. None)(''leader'' := Some (DStr (VStr ''a''), Some 10))" "''leader''"
      "[(5, Acquire ''b'' 50)]" 10 50 "''b''"] by simp

end
