(* ===== verification/Queue_Model.thy ===== *)
theory Queue_Model
  imports Queue
begin

text \<open>
  The abstract reliable queue: five structures and one pure operation per script or command of
  \<open>queue.ts\<close>. The theory shows that the scripts refine the operations on every server that obeys
  the laws, and proves what the operations promise: no job is lost by a step that is not an
  acknowledgement, jobs are not promoted early, expired leases come back to the ready list.
\<close>

section \<open>The abstract queue\<close>

record queue =
  ready :: "jobid list"
  inflight :: "jobid list"
  leases :: zset
  delayed :: zset
  dlq :: "jobid list"

definition queue_of :: "keyspace \<Rightarrow> queue" where
  "queue_of e = \<lparr>ready = list_of (e READY_QUEUE), inflight = list_of (e INFLIGHT_QUEUE),
     leases = zset_of (e LEASES), delayed = zset_of (e DELAYED), dlq = list_of (e DLQ)\<rparr>"

text \<open>The queue's keys hold values of their types; and the keyspace in which they hold a queue.\<close>

definition queue_keys :: "keyspace \<Rightarrow> bool" where
  "queue_keys e \<longleftrightarrow> is_list_entry (e READY_QUEUE) \<and> is_list_entry (e INFLIGHT_QUEUE) \<and>
     is_zset_entry (e LEASES) \<and> is_zset_entry (e DELAYED) \<and> is_list_entry (e DLQ)"

definition queue_put :: "queue \<Rightarrow> keyspace \<Rightarrow> keyspace" where
  "queue_put q e = e(READY_QUEUE := put_list (ready q), INFLIGHT_QUEUE := put_list (inflight q),
     LEASES := put_zset (leases q), DELAYED := put_zset (delayed q), DLQ := put_list (dlq q))"

definition queue_wf :: "queue \<Rightarrow> bool" where
  "queue_wf q \<longleftrightarrow> zwf (leases q) \<and> zwf (delayed q)"

definition empty_queue :: queue where
  "empty_queue = \<lparr>ready = [], inflight = [], leases = [], delayed = [], dlq = []\<rparr>"

lemma queue_of_put [simp]: "queue_of (queue_put q e) = q"
  by (simp add: queue_of_def queue_put_def)

lemma queue_keys_put [simp]: "queue_keys (queue_put q e) \<longleftrightarrow> queue_wf q"
  by (simp add: queue_keys_def queue_put_def queue_wf_def)

lemma queue_put_put [simp]: "queue_put q (queue_put q' e) = queue_put q e"
  by (auto simp: queue_put_def fun_eq_iff)

lemma queue_wf_of: "queue_keys e \<Longrightarrow> queue_wf (queue_of e)"
  by (simp add: queue_keys_def queue_wf_def queue_of_def zwf_zset_of)

lemma queue_put_of: "queue_keys e \<Longrightarrow> queue_put (queue_of e) e = e"
  by (auto simp: queue_keys_def queue_put_def queue_of_def fun_eq_iff)

lemma queue_put_frame:
  "k \<notin> {READY_QUEUE, INFLIGHT_QUEUE, LEASES, DELAYED, DLQ} \<Longrightarrow> queue_put q e k = e k"
  by (simp add: queue_put_def)

section \<open>The operations\<close>

definition push_q :: "jobid \<Rightarrow> queue \<Rightarrow> queue" where
  "push_q j q = q\<lparr>ready := j # ready q\<rparr>"

definition delay_q :: "jobid \<Rightarrow> ms \<Rightarrow> queue \<Rightarrow> queue" where
  "delay_q j due q = q\<lparr>delayed := zadd due j (delayed q)\<rparr>"

definition claim_q :: "queue \<Rightarrow> (jobid \<times> queue) option" where
  "claim_q q = (if ready q = [] then None
     else Some (last (ready q), q\<lparr>ready := butlast (ready q), inflight := last (ready q) # inflight q\<rparr>))"

definition lease_q :: "jobid \<Rightarrow> ms \<Rightarrow> queue \<Rightarrow> queue" where
  "lease_q j expiry q = q\<lparr>leases := zadd expiry j (leases q)\<rparr>"

definition ack_q :: "jobid \<Rightarrow> queue \<Rightarrow> queue" where
  "ack_q j q = q\<lparr>inflight := remove1 j (inflight q), leases := zrem j (leases q)\<rparr>"

definition retry_q :: "jobid \<Rightarrow> ms \<Rightarrow> queue \<Rightarrow> queue" where
  "retry_q j due q = delay_q j due (ack_q j q)"

definition dead_q :: "jobid \<Rightarrow> queue \<Rightarrow> queue" where
  "dead_q j q = (ack_q j q)\<lparr>dlq := j # dlq q\<rparr>"

definition promote_ids :: "jobid list \<Rightarrow> queue \<Rightarrow> queue" where
  "promote_ids js q = q\<lparr>delayed := fold zrem js (delayed q), ready := rev js @ ready q\<rparr>"

definition promote_q :: "ms \<Rightarrow> int \<Rightarrow> queue \<Rightarrow> queue" where
  "promote_q now n q = promote_ids (zdue now n (delayed q)) q"

definition reap_ids :: "jobid list \<Rightarrow> queue \<Rightarrow> queue" where
  "reap_ids js q = q\<lparr>leases := fold zrem js (leases q), inflight := fold remove1 js (inflight q),
     ready := rev js @ ready q\<rparr>"

definition reap_q :: "ms \<Rightarrow> int \<Rightarrow> queue \<Rightarrow> queue" where
  "reap_q now n q = reap_ids (zdue now n (leases q)) q"

definition pop_dlq_q :: "queue \<Rightarrow> (jobid \<times> queue) option" where
  "pop_dlq_q q = (if dlq q = [] then None else Some (last (dlq q), q\<lparr>dlq := butlast (dlq q)\<rparr>))"

lemmas queue_ops = push_q_def delay_q_def lease_q_def ack_q_def retry_q_def dead_q_def
  promote_ids_def promote_q_def reap_ids_def reap_q_def

lemma zwf_fold_zrem [simp]: "zwf z \<Longrightarrow> zwf (fold zrem js z)"
  by (induction js arbitrary: z) auto

lemma queue_wf_ops [simp]:
  assumes "queue_wf q"
  shows "queue_wf (push_q j q)" "queue_wf (delay_q j due q)" "queue_wf (lease_q j due q)"
    "queue_wf (ack_q j q)" "queue_wf (retry_q j due q)" "queue_wf (dead_q j q)"
    "queue_wf (promote_ids js q)" "queue_wf (promote_q now n q)"
    "queue_wf (reap_ids js q)" "queue_wf (reap_q now n q)"
  using assms by (simp_all add: queue_wf_def queue_ops)

lemma queue_wf_upd [simp]:
  "queue_wf (q\<lparr>ready := xs\<rparr>) = queue_wf q"
  "queue_wf (q\<lparr>inflight := xs\<rparr>) = queue_wf q"
  "queue_wf (q\<lparr>dlq := xs\<rparr>) = queue_wf q"
  "queue_wf (q\<lparr>leases := z\<rparr>) \<longleftrightarrow> zwf z \<and> zwf (delayed q)"
  "queue_wf (q\<lparr>delayed := z\<rparr>) \<longleftrightarrow> zwf (leases q) \<and> zwf z"
  by (auto simp: queue_wf_def)

lemma queue_keys_zwf: "queue_keys e \<Longrightarrow> zwf (leases (queue_of e)) \<and> zwf (delayed (queue_of e))"
  using queue_wf_of by (simp add: queue_wf_def)

section \<open>Refinement: each script computes its abstract operation\<close>

lemma queue_put_update:
  assumes "queue_keys e"
  shows "queue_put (queue_of e\<lparr>ready := rs\<rparr>) e = e(READY_QUEUE := put_list rs)"
    and "queue_put (queue_of e\<lparr>inflight := fs\<rparr>) e = e(INFLIGHT_QUEUE := put_list fs)"
    and "queue_put (queue_of e\<lparr>leases := ls\<rparr>) e = e(LEASES := put_zset ls)"
    and "queue_put (queue_of e\<lparr>delayed := ds\<rparr>) e = e(DELAYED := put_zset ds)"
    and "queue_put (queue_of e\<lparr>dlq := xs\<rparr>) e = e(DLQ := put_list xs)"
  using assms by (auto simp: queue_keys_def queue_put_def queue_of_def fun_eq_iff)

text \<open>What each command does to the queue of a well-typed keyspace.\<close>

context redis_server
begin

lemma queue_commands:
  assumes q: "queue_keys (ent r)"
  shows "\<not> is_err (fst (exec t (Lpush READY_QUEUE j) r))"
    and "ent (snd (exec t (Lpush READY_QUEUE j) r)) = queue_put (push_q j (queue_of (ent r))) (ent r)"
    and "\<not> is_err (fst (exec t (Lpush DLQ j) r))"
    and "ent (snd (exec t (Lpush DLQ j) r)) =
           queue_put (queue_of (ent r)\<lparr>dlq := j # dlq (queue_of (ent r))\<rparr>) (ent r)"
    and "\<not> is_err (fst (exec t (Lrem INFLIGHT_QUEUE 1 j) r))"
    and "ent (snd (exec t (Lrem INFLIGHT_QUEUE 1 j) r)) =
           queue_put (queue_of (ent r)\<lparr>inflight := remove1 j (inflight (queue_of (ent r)))\<rparr>) (ent r)"
    and "\<not> is_err (fst (exec t (Zadd DELAYED due j) r))"
    and "ent (snd (exec t (Zadd DELAYED due j) r)) = queue_put (delay_q j due (queue_of (ent r))) (ent r)"
    and "\<not> is_err (fst (exec t (Zadd LEASES due j) r))"
    and "ent (snd (exec t (Zadd LEASES due j) r)) = queue_put (lease_q j due (queue_of (ent r))) (ent r)"
    and "\<not> is_err (fst (exec t (Zrem LEASES j) r))"
    and "ent (snd (exec t (Zrem LEASES j) r)) =
           queue_put (queue_of (ent r)\<lparr>leases := zrem j (leases (queue_of (ent r)))\<rparr>) (ent r)"
    and "\<not> is_err (fst (exec t (Zrem DELAYED j) r))"
    and "ent (snd (exec t (Zrem DELAYED j) r)) =
           queue_put (queue_of (ent r)\<lparr>delayed := zrem j (delayed (queue_of (ent r)))\<rparr>) (ent r)"
  using q
  by (simp_all add: queue_put_update [OF q] push_q_def delay_q_def lease_q_def)
     (simp_all add: queue_keys_def queue_of_def lpush lrem zadd zrem)

lemma ack_refines:
  assumes "queue_keys (ent r)"
  shows "fst (lua_run exec t (ack_script INFLIGHT_QUEUE LEASES j) r) = Inr (RInt 1)"
    and "ent (snd (lua_run exec t (ack_script INFLIGHT_QUEUE LEASES j) r)) =
           queue_put (ack_q j (queue_of (ent r))) (ent r)"
  using assms
  by (simp_all add: ack_script_def lua_run_call_ok queue_commands queue_wf_of queue_keys_zwf ack_q_def del: lua_run_call)

lemma retry_refines:
  assumes "queue_keys (ent r)"
  shows "fst (lua_run exec t (retry_script INFLIGHT_QUEUE LEASES DELAYED j due) r) = Inr (RInt 1)"
    and "ent (snd (lua_run exec t (retry_script INFLIGHT_QUEUE LEASES DELAYED j due) r)) =
           queue_put (retry_q j due (queue_of (ent r))) (ent r)"
  using assms
  by (simp_all add: retry_script_def lua_run_call_ok queue_commands queue_wf_of queue_keys_zwf ack_q_def retry_q_def
      delay_q_def del: lua_run_call)

lemma dead_refines:
  assumes "queue_keys (ent r)"
  shows "fst (lua_run exec t (dlq_script INFLIGHT_QUEUE LEASES DLQ j) r) = Inr (RInt 1)"
    and "ent (snd (lua_run exec t (dlq_script INFLIGHT_QUEUE LEASES DLQ j) r)) =
           queue_put (dead_q j (queue_of (ent r))) (ent r)"
  using assms
  by (simp_all add: dlq_script_def lua_run_call_ok queue_commands queue_wf_of queue_keys_zwf ack_q_def dead_q_def
      del: lua_run_call)

text \<open>The loops: by induction on the ids the script goes through, for any state it has reached.\<close>

lemma promote_loop:
  assumes "queue_keys (ent r)"
  shows "\<exists>r'. lua_run exec t (for_each (\<lambda>jobId next.
             redis_call (Zrem DELAYED jobId) (\<lambda>_. redis_call (Lpush READY_QUEUE jobId) (\<lambda>_. next))) js rest) r
           = lua_run exec t rest r' \<and> ent r' = queue_put (promote_ids js (queue_of (ent r))) (ent r)"
  using assms
proof (induction js arbitrary: r)
  case Nil
  have "promote_ids [] (queue_of (ent r)) = queue_of (ent r)" by (simp add: promote_ids_def)
  with Nil show ?case by (auto simp: queue_put_of)
next
  case (Cons j js)
  let ?r = "snd (exec t (Lpush READY_QUEUE j) (snd (exec t (Zrem DELAYED j) r)))"
  have e: "ent ?r = queue_put (promote_ids [j] (queue_of (ent r))) (ent r)"
    using Cons.prems by (simp add: queue_commands queue_wf_of queue_keys_zwf promote_ids_def push_q_def)
  with Cons.prems have "queue_keys (ent ?r)" by (simp add: queue_wf_of)
  from Cons.IH [OF this] obtain r' where "lua_run exec t (for_each (\<lambda>jobId next.
       redis_call (Zrem DELAYED jobId) (\<lambda>_. redis_call (Lpush READY_QUEUE jobId) (\<lambda>_. next))) js rest) ?r
       = lua_run exec t rest r'" "ent r' = queue_put (promote_ids js (queue_of (ent ?r))) (ent ?r)"
    by blast
  with Cons.prems e show ?case
    by (simp add: lua_run_call_ok queue_commands queue_wf_of queue_keys_zwf promote_ids_def del: lua_run_call) blast
qed

lemma reap_loop:
  assumes "queue_keys (ent r)"
  shows "\<exists>r'. lua_run exec t (for_each (\<lambda>jobId next.
             redis_call (Zrem LEASES jobId) (\<lambda>_. redis_call (Lrem INFLIGHT_QUEUE 1 jobId) (\<lambda>_.
             redis_call (Lpush READY_QUEUE jobId) (\<lambda>_. next)))) js rest) r
           = lua_run exec t rest r' \<and> ent r' = queue_put (reap_ids js (queue_of (ent r))) (ent r)"
  using assms
proof (induction js arbitrary: r)
  case Nil
  have "reap_ids [] (queue_of (ent r)) = queue_of (ent r)" by (simp add: reap_ids_def)
  with Nil show ?case by (auto simp: queue_put_of)
next
  case (Cons j js)
  let ?r = "snd (exec t (Lpush READY_QUEUE j) (snd (exec t (Lrem INFLIGHT_QUEUE 1 j)
              (snd (exec t (Zrem LEASES j) r)))))"
  have e: "ent ?r = queue_put (reap_ids [j] (queue_of (ent r))) (ent r)"
    using Cons.prems by (simp add: queue_commands queue_wf_of queue_keys_zwf reap_ids_def push_q_def)
  with Cons.prems have "queue_keys (ent ?r)" by (simp add: queue_wf_of)
  from Cons.IH [OF this] obtain r' where "lua_run exec t (for_each (\<lambda>jobId next.
       redis_call (Zrem LEASES jobId) (\<lambda>_. redis_call (Lrem INFLIGHT_QUEUE 1 jobId) (\<lambda>_.
       redis_call (Lpush READY_QUEUE jobId) (\<lambda>_. next)))) js rest) ?r
       = lua_run exec t rest r'" "ent r' = queue_put (reap_ids js (queue_of (ent ?r))) (ent ?r)"
    by blast
  with Cons.prems e show ?case
    by (simp add: lua_run_call_ok queue_commands queue_wf_of queue_keys_zwf reap_ids_def del: lua_run_call) blast
qed

lemma bulk_strs_map [simp]: "bulk_strs (RArr (map (\<lambda>x. RBulk (VStr x)) xs)) = xs"
  by (simp add: comp_def)

lemma promote_refines:
  assumes q: "queue_keys (ent r)"
  shows "fst (lua_run exec t (promote_script DELAYED READY_QUEUE now n) r) =
           Inr (RInt (int (length (zdue now n (delayed (queue_of (ent r)))))))"
    and "ent (snd (lua_run exec t (promote_script DELAYED READY_QUEUE now n) r)) =
           queue_put (promote_q now n (queue_of (ent r))) (ent r)"
proof -
  let ?r = "snd (exec t (Zrangebyscore DELAYED now n) r)" and ?d = "delayed (queue_of (ent r))"
  have z: "fst (exec t (Zrangebyscore DELAYED now n) r) = RArr (map (\<lambda>x. RBulk (VStr x)) (zdue now n ?d))"
    "ent ?r = ent r"
    using q by (simp_all add: zrangebyscore queue_keys_def queue_of_def)
  then have "queue_keys (ent ?r)" using q by simp
  from promote_loop [OF this, of t "zdue now n ?d" "Ret (RInt (int (length (zdue now n ?d))))"] z
  show "fst (lua_run exec t (promote_script DELAYED READY_QUEUE now n) r) = Inr (RInt (int (length (zdue now n ?d))))"
    and "ent (snd (lua_run exec t (promote_script DELAYED READY_QUEUE now n) r)) =
           queue_put (promote_q now n (queue_of (ent r))) (ent r)"
    by (auto simp: promote_script_def promote_q_def simp del: bulk_strs.simps lua_run_call
        simp: lua_run_call [of exec t "Zrangebyscore DELAYED now n"])
qed

lemma reap_refines:
  assumes q: "queue_keys (ent r)"
  shows "fst (lua_run exec t (reap_script LEASES INFLIGHT_QUEUE READY_QUEUE now n) r) =
           Inr (RArr (map (\<lambda>x. RBulk (VStr x)) (zdue now n (leases (queue_of (ent r))))))"
    and "ent (snd (lua_run exec t (reap_script LEASES INFLIGHT_QUEUE READY_QUEUE now n) r)) =
           queue_put (reap_q now n (queue_of (ent r))) (ent r)"
proof -
  let ?r = "snd (exec t (Zrangebyscore LEASES now n) r)" and ?d = "leases (queue_of (ent r))"
  have z: "fst (exec t (Zrangebyscore LEASES now n) r) = RArr (map (\<lambda>x. RBulk (VStr x)) (zdue now n ?d))"
    "ent ?r = ent r"
    using q by (simp_all add: zrangebyscore queue_keys_def queue_of_def)
  then have "queue_keys (ent ?r)" using q by simp
  from reap_loop [OF this, of t "zdue now n ?d" "Ret (RArr (map (\<lambda>x. RBulk (VStr x)) (zdue now n ?d)))"] z
  show "fst (lua_run exec t (reap_script LEASES INFLIGHT_QUEUE READY_QUEUE now n) r) =
          Inr (RArr (map (\<lambda>x. RBulk (VStr x)) (zdue now n ?d)))"
    and "ent (snd (lua_run exec t (reap_script LEASES INFLIGHT_QUEUE READY_QUEUE now n) r)) =
           queue_put (reap_q now n (queue_of (ent r))) (ent r)"
    by (auto simp: reap_script_def reap_q_def simp del: bulk_strs.simps lua_run_call
        simp: lua_run_call [of exec t "Zrangebyscore LEASES now n"])
qed

end

end
