(* ===== verification/Queue_Safety.thy ===== *)
theory Queue_Safety
  imports Queue_Model
begin

text \<open>
  What the reliable queue promises, for every interleaving of its operations by any number of
  producers, workers and schedulers. An execution is a list of operations with the server times at
  which they ran (\<open>qop\<close>); each one is a command or an atomic script of \<open>queue.ts\<close>, so every
  interleaving of the processes, with crashes between any two operations, is such a list.
\<close>

section \<open>Executions\<close>

datatype qop =
    OPush jobid
  | ODelay jobid ms
  | OClaim
  | OLease jobid ms
  | OAck jobid
  | ORetry jobid ms
  | ODead jobid
  | OPromote ms int
  | OReap ms int
  | OPopDlq

fun qop_exec :: "(ms \<Rightarrow> rcmd \<Rightarrow> 'r \<Rightarrow> reply \<times> 'r) \<Rightarrow> ms \<Rightarrow> qop \<Rightarrow> 'r \<Rightarrow> 'r" where
  "qop_exec exec t (OPush j) r = snd (exec t (Lpush READY_QUEUE j) r)"
| "qop_exec exec t (ODelay j due) r = snd (exec t (Zadd DELAYED due j) r)"
| "qop_exec exec t OClaim r = snd (exec t (Brpoplpush READY_QUEUE INFLIGHT_QUEUE 5) r)"
| "qop_exec exec t (OLease j expiry) r = snd (exec t (Zadd LEASES expiry j) r)"
| "qop_exec exec t (OAck j) r = snd (lua_run exec t (ack_script INFLIGHT_QUEUE LEASES j) r)"
| "qop_exec exec t (ORetry j due) r = snd (lua_run exec t (retry_script INFLIGHT_QUEUE LEASES DELAYED j due) r)"
| "qop_exec exec t (ODead j) r = snd (lua_run exec t (dlq_script INFLIGHT_QUEUE LEASES DLQ j) r)"
| "qop_exec exec t (OPromote now n) r = snd (lua_run exec t (promote_script DELAYED READY_QUEUE now n) r)"
| "qop_exec exec t (OReap now n) r =
     snd (lua_run exec t (reap_script LEASES INFLIGHT_QUEUE READY_QUEUE now n) r)"
| "qop_exec exec t OPopDlq r = snd (exec t (Rpop DLQ) r)"

fun qop_apply :: "qop \<Rightarrow> queue \<Rightarrow> queue" where
  "qop_apply (OPush j) q = push_q j q"
| "qop_apply (ODelay j due) q = delay_q j due q"
| "qop_apply OClaim q = (case claim_q q of None \<Rightarrow> q | Some (_, q') \<Rightarrow> q')"
| "qop_apply (OLease j expiry) q = lease_q j expiry q"
| "qop_apply (OAck j) q = ack_q j q"
| "qop_apply (ORetry j due) q = retry_q j due q"
| "qop_apply (ODead j) q = dead_q j q"
| "qop_apply (OPromote now n) q = promote_q now n q"
| "qop_apply (OReap now n) q = reap_q now n q"
| "qop_apply OPopDlq q = (case pop_dlq_q q of None \<Rightarrow> q | Some (_, q') \<Rightarrow> q')"

primrec exec_ops :: "(ms \<Rightarrow> rcmd \<Rightarrow> 'r \<Rightarrow> reply \<times> 'r) \<Rightarrow> (ms \<times> qop) list \<Rightarrow> 'r \<Rightarrow> 'r" where
  "exec_ops exec [] r = r"
| "exec_ops exec (x # xs) r = exec_ops exec xs (qop_exec exec (fst x) (snd x) r)"

primrec apply_ops :: "qop list \<Rightarrow> queue \<Rightarrow> queue" where
  "apply_ops [] q = q"
| "apply_ops (x # xs) q = apply_ops xs (qop_apply x q)"

lemma queue_wf_apply: "queue_wf q \<Longrightarrow> queue_wf (qop_apply x q)"
  by (cases x) (auto simp: claim_q_def pop_dlq_q_def)

context redis_server
begin

lemma claim_refines:
  assumes "queue_keys (ent r)"
  shows "ent (snd (exec t (Brpoplpush READY_QUEUE INFLIGHT_QUEUE n) r)) =
           queue_put (qop_apply OClaim (queue_of (ent r))) (ent r)"
    and "fst (exec t (Brpoplpush READY_QUEUE INFLIGHT_QUEUE n) r) =
           (case claim_q (queue_of (ent r)) of None \<Rightarrow> RNil | Some (j, _) \<Rightarrow> RBulk (VStr j))"
  using assms brpoplpush [of r READY_QUEUE INFLIGHT_QUEUE _ t n, OF _ _ _ refl]
  by (auto simp: claim_q_def queue_keys_def queue_of_def queue_put_def fun_eq_iff list_of_Nil)

lemma pop_dlq_refines:
  assumes "queue_keys (ent r)"
  shows "ent (snd (exec t (Rpop DLQ) r)) = queue_put (qop_apply OPopDlq (queue_of (ent r))) (ent r)"
    and "fst (exec t (Rpop DLQ) r) =
           (case pop_dlq_q (queue_of (ent r)) of None \<Rightarrow> RNil | Some (j, _) \<Rightarrow> RBulk (VStr j))"
  using assms rpop [of r DLQ _ t, OF _ refl]
  by (auto simp: pop_dlq_q_def queue_keys_def queue_of_def queue_put_def fun_eq_iff list_of_Nil)

lemma qop_refines:
  assumes "queue_keys (ent r)"
  shows "ent (qop_exec exec t x r) = queue_put (qop_apply x (queue_of (ent r))) (ent r)"
  using assms
  by (cases x) (simp_all add: queue_commands claim_refines ack_refines retry_refines dead_refines
      promote_refines reap_refines pop_dlq_refines del: qop_apply.simps(3,10) lua_run_call)

lemma exec_ops_refines:
  assumes "queue_keys (ent r)"
  shows "ent (exec_ops exec xs r) = queue_put (apply_ops (map snd xs) (queue_of (ent r))) (ent r)"
  using assms
proof (induction xs arbitrary: r)
  case Nil
  then show ?case by (simp add: queue_put_of)
next
  case (Cons x xs)
  from Cons.prems have e: "ent (qop_exec exec (fst x) (snd x) r) =
      queue_put (qop_apply (snd x) (queue_of (ent r))) (ent r)"
    by (rule qop_refines)
  with Cons.prems have "queue_keys (ent (qop_exec exec (fst x) (snd x) r))"
    by (simp add: queue_wf_of queue_wf_apply)
  from Cons.IH [OF this] e show ?case by simp
qed

end

section \<open>No job is lost\<close>

definition present :: "jobid \<Rightarrow> queue \<Rightarrow> bool" where
  "present j q \<longleftrightarrow> j \<in> set (ready q) \<union> set (inflight q) \<union> fst ` set (delayed q) \<union> set (dlq q)"

text \<open>The operations that may make an id leave the queue: an acknowledgement of it, and taking it
  off the dead-letter queue for a replay.\<close>

fun takes_out :: "jobid \<Rightarrow> queue \<Rightarrow> qop \<Rightarrow> bool" where
  "takes_out j q (OAck j') = (j' = j)"
| "takes_out j q OPopDlq = (dlq q \<noteq> [] \<and> last (dlq q) = j)"
| "takes_out j q _ = False"

primrec never_out :: "jobid \<Rightarrow> qop list \<Rightarrow> queue \<Rightarrow> bool" where
  "never_out j [] q = True"
| "never_out j (x # xs) q = (\<not> takes_out j q x \<and> never_out j xs (qop_apply x q))"

lemma keys_fold_zrem: "fst ` set (fold zrem js z) = fst ` set z - set js"
  by (induction js arbitrary: z) (auto simp: keys_zrem)

lemma in_fold_remove1: "j \<notin> set js \<Longrightarrow> j \<in> set (fold remove1 js xs) \<longleftrightarrow> j \<in> set xs"
  by (induction js arbitrary: xs) auto

lemma present_apply:
  assumes "present j q" and "\<not> takes_out j q x"
  shows "present j (qop_apply x q)"
proof (cases x)
  case OClaim
  with assms show ?thesis
    using set_butlast_last [of "ready q"] by (auto simp: claim_q_def present_def)
next
  case OPopDlq
  with assms show ?thesis
    by (auto simp: pop_dlq_q_def present_def in_butlast_iff)
next
  case (OPromote now n)
  with assms show ?thesis
    by (cases "j \<in> set (zdue now n (delayed q))")
       (auto simp: present_def promote_q_def promote_ids_def keys_fold_zrem)
next
  case (OReap now n)
  with assms show ?thesis
    by (cases "j \<in> set (zdue now n (leases q))")
       (auto simp: present_def reap_q_def reap_ids_def in_fold_remove1)
next
  case (ORetry j' due)
  with assms show ?thesis
    by (cases "j' = j") (auto simp: present_def queue_ops keys_zadd)
next
  case (ODead j')
  with assms show ?thesis
    by (cases "j' = j") (auto simp: present_def queue_ops)
qed (use assms in \<open>auto simp: present_def queue_ops keys_zadd\<close>)

lemma present_apply_ops:
  "present j q \<Longrightarrow> never_out j xs q \<Longrightarrow> present j (apply_ops xs q)"
  by (induction xs arbitrary: q) (auto intro: present_apply)

section \<open>Promotion and reaping\<close>

text \<open>The order in which jobs are claimed: from the right end of the ready list.\<close>

definition claim_order :: "queue \<Rightarrow> jobid list" where
  "claim_order q = rev (ready q)"

lemma claim_order_claim:
  "claim_q q = Some (j, q') \<Longrightarrow> claim_order q = j # claim_order q'"
  by (auto simp: claim_q_def claim_order_def rev_last_butlast split: if_splits)

lemma promote_claim_order:
  "claim_order (promote_q now n q) = claim_order q @ zdue now n (delayed q)"
  by (simp add: claim_order_def promote_q_def promote_ids_def)

lemma promote_delayed:
  "queue_wf q \<Longrightarrow> delayed (promote_q now n q) = drop (length (zdue now n (delayed q))) (delayed q)"
  by (simp add: promote_q_def promote_ids_def zdue_drop queue_wf_def)

lemma reap_leases:
  "queue_wf q \<Longrightarrow> leases (reap_q now n q) = drop (length (zdue now n (leases q))) (leases q)"
  by (simp add: reap_q_def reap_ids_def zdue_drop queue_wf_def)

lemma reap_claim_order:
  "claim_order (reap_q now n q) = claim_order q @ zdue now n (leases q)"
  by (simp add: claim_order_def reap_q_def reap_ids_def)

text \<open>The members due by \<open>mx\<close> that a batch leaves are those after the first \<open>n\<close>.\<close>

lemma due_drop:
  assumes "zwf z" and "0 \<le> n"
  shows "filter (\<lambda>p. snd p \<le> mx) (drop (length (zdue mx n z)) z) =
           drop (nat n) (filter (\<lambda>p. snd p \<le> mx) z)"
proof -
  let ?P = "\<lambda>p. snd p \<le> mx"
  from zwf_filter_prefix [OF assms(1), of mx] obtain k where k: "filter ?P z = take k z" by blast
  define l where "l = length (filter ?P z)"
  have z: "z = filter ?P z @ drop l z" and no: "filter ?P (drop l z) = []"
  proof -
    show z': "z = filter ?P z @ drop l z" using k by (simp add: l_def min_def)
    have "filter ?P z = filter ?P (filter ?P z) @ filter ?P (drop l z)"
      by (metis filter_append z')
    then show "filter ?P (drop l z) = []" by simp
  qed
  have "drop (length (zdue mx n z)) z = drop (min (nat n) l) z"
    using assms(2) by (simp add: length_zdue l_def)
  also have "\<dots> = drop (min (nat n) l) (filter ?P z @ drop l z)"
    by (rule arg_cong [OF z])
  also have "\<dots> = drop (min (nat n) l) (filter ?P z) @ drop l z"
    by (simp add: l_def)
  also have "filter ?P \<dots> = filter ?P (drop (min (nat n) l) (filter ?P z))"
    using no by simp
  also have "\<dots> = drop (min (nat n) l) (filter ?P z)"
    by (auto simp: filter_id_conv dest: in_set_dropD)
  also have "\<dots> = drop (nat n) (filter ?P z)"
    by (simp add: l_def min_def)
  finally show ?thesis .
qed

text \<open>Sweeping again and again: \<open>m\<close> sweeps handle up to \<open>m * n\<close> members.\<close>

primrec sweeps :: "nat \<Rightarrow> qop \<Rightarrow> qop list" where
  "sweeps 0 x = []"
| "sweeps (Suc m) x = x # sweeps m x"

lemma reap_sweeps:
  assumes "queue_wf q" and "0 \<le> n"
  shows "filter (\<lambda>p. snd p \<le> now) (leases (apply_ops (sweeps m (OReap now n)) q)) =
           drop (m * nat n) (filter (\<lambda>p. snd p \<le> now) (leases q))"
    and "set (ready q) \<subseteq> set (ready (apply_ops (sweeps m (OReap now n)) q))"
    and "fst ` set (take (m * nat n) (filter (\<lambda>p. snd p \<le> now) (leases q))) \<subseteq>
           set (ready (apply_ops (sweeps m (OReap now n)) q))"
  using assms(1)
proof (induction m arbitrary: q)
  case 0
  { case 1 then show ?case by simp }
  { case 2 then show ?case by simp }
  { case 3 then show ?case by simp }
next
  case (Suc m)
  let ?F = "\<lambda>q. filter (\<lambda>p. snd p \<le> now) (leases q)"
  have eq: "?F (reap_q now n q) = drop (nat n) (?F q)" if "queue_wf q" for q
    using that assms(2) by (simp add: reap_leases due_drop queue_wf_def)
  have sub: "set (ready q) \<subseteq> set (ready (reap_q now n q))" for q
    by (auto simp: reap_q_def reap_ids_def)
  { case (1 q)
    with Suc(1) [of "reap_q now n q"] eq [OF 1] show ?case by (simp add: add.commute) }
  { case (2 q)
    then show ?case using Suc(2) [of "reap_q now n q"] sub [of q] by simp }
  { case (3 q)
    then have wf: "queue_wf (reap_q now n q)" by simp
    have "fst ` set (take (nat n) (?F q)) \<subseteq> set (ready (reap_q now n q))"
      using assms(2) by (auto simp: reap_q_def reap_ids_def zdue_def Let_def take_map)
    with Suc(2) [OF wf] Suc(3) [OF wf] eq [OF 3] show ?case
      by (auto simp: take_add image_Un) }
qed

lemma promote_prefix:
  assumes "queue_wf q" and "0 \<le> n"
  shows "\<exists>ps. claim_order (promote_q now n q) = claim_order q @ map fst ps \<and>
      delayed q = ps @ delayed (promote_q now n q) \<and>
      (\<forall>p \<in> set ps. snd p \<le> now) \<and> sorted (map snd ps) \<and>
      (int (length ps) < n \<longrightarrow> (\<forall>p \<in> set (delayed (promote_q now n q)). now < snd p))"
proof -
  let ?k = "length (zdue now n (delayed q))" and ?due = "filter (\<lambda>p. snd p \<le> now) (delayed q)"
  let ?ps = "take ?k (delayed q)"
  have z: "zwf (delayed q)" using assms(1) by (simp add: queue_wf_def)
  have ids: "zdue now n (delayed q) = map fst ?ps" by (rule zdue_take [OF z])
  have k: "?k = min (nat n) (length ?due)" using assms(2) by (rule length_zdue)
  obtain l where l: "?due = take l (delayed q)" using zwf_filter_prefix [OF z] by blast
  have tk: "?ps = take ?k ?due" using l k by (auto simp: min_def)
  have due: "snd p \<le> now" if "p \<in> set ?ps" for p
    using that unfolding tk by (auto dest: in_set_takeD)
  have rest: "\<forall>p \<in> set (delayed (promote_q now n q)). now < snd p" if "int (length ?ps) < n"
  proof -
    have "length ?due \<le> nat n" using that k length_filter_le [of "\<lambda>p. snd p \<le> now" "delayed q"] by auto
    then have "filter (\<lambda>p. snd p \<le> now) (delayed (promote_q now n q)) = []"
      using due_drop [OF z assms(2), of now] by (simp add: promote_delayed [OF assms(1)])
    then show ?thesis by (auto simp: filter_empty_conv not_le)
  qed
  have "claim_order (promote_q now n q) = claim_order q @ map fst ?ps"
    by (simp only: promote_claim_order) (subst ids, rule refl)
  moreover have "delayed q = ?ps @ delayed (promote_q now n q)"
    by (simp add: promote_delayed [OF assms(1)])
  moreover have "sorted (map snd ?ps)"
    using zwf_sorted_scores [OF z] by (rule sorted_map_takeI)
  ultimately show ?thesis using due rest by (intro exI [of _ ?ps]) simp
qed

section \<open>Every job in one place\<close>

definition jobs_in :: "queue \<Rightarrow> jobid multiset" where
  "jobs_in q = mset (ready q) + mset (inflight q) + mset (map fst (delayed q)) + mset (dlq q)"

definition exclusive :: "queue \<Rightarrow> bool" where
  "exclusive q \<longleftrightarrow> queue_wf q \<and> (\<forall>j. count (jobs_in q) j \<le> 1) \<and> fst ` set (leases q) \<subseteq> set (inflight q)"

text \<open>The discipline of the processes when no lease runs out under a live worker: producers push new
  ids, and a worker takes a lease on, and gives up, only a job that is in flight.\<close>

fun timely :: "queue \<Rightarrow> qop \<Rightarrow> bool" where
  "timely q (OPush j) = (\<not> present j q)"
| "timely q (ODelay j _) = (\<not> present j q)"
| "timely q (OLease j _) = (j \<in> set (inflight q))"
| "timely q (OAck j) = (j \<in> set (inflight q))"
| "timely q (ORetry j _) = (j \<in> set (inflight q))"
| "timely q (ODead j) = (j \<in> set (inflight q))"
| "timely q _ = True"

primrec timely_run :: "qop list \<Rightarrow> queue \<Rightarrow> bool" where
  "timely_run [] q = True"
| "timely_run (x # xs) q = (timely q x \<and> timely_run xs (qop_apply x q))"

lemma present_jobs_in: "present j q \<longleftrightarrow> j \<in># jobs_in q"
  by (auto simp: present_def jobs_in_def)

lemma mset_zadd_new: "m \<notin> fst ` set z \<Longrightarrow> mset (map fst (zadd s m z)) = add_mset m (mset (map fst z))"
proof -
  assume "m \<notin> fst ` set z"
  moreover have "mset (insort_key zrank (m, s) z) = add_mset (m, s) (mset z)" by simp
  ultimately show ?thesis by (simp add: zadd_def zrem_idem)
qed

lemma mset_fold_remove1: "mset (fold remove1 js xs) = mset xs - mset js"
  by (induction js arbitrary: xs) (auto simp: diff_diff_add_mset)

lemma jobs_in_claim: "jobs_in (qop_apply OClaim q) = jobs_in q"
  using mset_butlast_last [of "ready q"] by (auto simp: claim_q_def jobs_in_def)

lemma jobs_in_promote:
  assumes "queue_wf q"
  shows "jobs_in (promote_q now n q) = jobs_in q"
proof -
  let ?z = "delayed q" and ?k = "length (zdue now n (delayed q))"
  have z: "zwf ?z" using assms by (simp add: queue_wf_def)
  have "mset (map fst ?z) = mset (zdue now n ?z) + mset (map fst (drop ?k ?z))"
    by (subst zdue_take [OF z]) (simp add: mset_take_drop flip: image_mset_union)
  then show ?thesis
    using promote_delayed [OF assms, of now n]
    by (simp add: jobs_in_def promote_q_def promote_ids_def)
qed

lemma jobs_in_reap:
  assumes "exclusive q"
  shows "jobs_in (reap_q now n q) = jobs_in q"
proof -
  let ?js = "zdue now n (leases q)"
  have "set ?js \<subseteq> set (inflight q)"
    using assms zdue_sub [of now n "leases q"] by (force simp: exclusive_def)
  moreover have "distinct ?js"
    using assms by (simp add: exclusive_def queue_wf_def zdue_distinct)
  ultimately have "mset ?js \<subseteq># mset (inflight q)"
    by (simp add: mset_subset_distinct)
  then show ?thesis
    by (simp add: jobs_in_def reap_q_def reap_ids_def mset_fold_remove1)
qed

lemma jobs_in_push: "jobs_in (push_q j q) = add_mset j (jobs_in q)"
  by (simp add: jobs_in_def push_q_def)

lemma jobs_in_delay: "j \<notin> fst ` set (delayed q) \<Longrightarrow> jobs_in (delay_q j due q) = add_mset j (jobs_in q)"
  using mset_zadd_new [of j "delayed q" due] by (simp add: jobs_in_def delay_q_def)

lemma jobs_in_lease: "jobs_in (lease_q j due q) = jobs_in q"
  by (simp add: jobs_in_def lease_q_def)

lemma jobs_in_ack: "j \<in> set (inflight q) \<Longrightarrow> add_mset j (jobs_in (ack_q j q)) = jobs_in q"
proof -
  assume "j \<in> set (inflight q)"
  then have "mset (inflight q) = add_mset j (mset (remove1 j (inflight q)))" by simp
  then show ?thesis by (simp only: jobs_in_def) (simp add: ack_q_def)
qed

lemma jobs_in_dead: "jobs_in (dead_q j q) = add_mset j (jobs_in (ack_q j q))"
  by (simp add: jobs_in_def dead_q_def ack_q_def)

lemma jobs_in_pop_dlq: "jobs_in (qop_apply OPopDlq q) \<subseteq># jobs_in q"
  using mset_butlast_last [of "dlq q"]
  by (auto simp: pop_dlq_q_def jobs_in_def) (metis mset_subset_eq_add_right add_mset_add_single union_commute)

lemma exclusive_inflight:
  assumes "exclusive q" and "j \<in> set (inflight q)"
  shows "j \<notin> set (ready q)" and "j \<notin> fst ` set (delayed q)" and "j \<notin> set (dlq q)"
proof -
  have "count (mset (ready q)) j + count (mset (inflight q)) j + count (mset (map fst (delayed q))) j
          + count (mset (dlq q)) j \<le> 1" (is "?a + ?b + ?c + ?d \<le> 1")
    using assms(1) by (simp add: exclusive_def jobs_in_def)
  moreover have "?b \<ge> 1" using assms(2) by (simp add: Suc_le_eq)
  ultimately have "?a = 0" "?c = 0" "?d = 0" by arith+
  then show "j \<notin> set (ready q)" "j \<notin> fst ` set (delayed q)" "j \<notin> set (dlq q)"
    by (metis count_eq_zero_iff set_mset_mset list.set_map)+
qed

lemma jobs_in_timely:
  assumes "exclusive q" and "timely q x"
  shows "jobs_in (qop_apply x q) \<subseteq># jobs_in q \<or>
    (\<exists>j. \<not> present j q \<and> jobs_in (qop_apply x q) = add_mset j (jobs_in q))"
proof (cases x)
  case (OPush j)
  with assms show ?thesis by (auto simp: jobs_in_push)
next
  case (ODelay j due)
  with assms have "j \<notin> fst ` set (delayed q)" by (auto simp: present_def)
  with ODelay assms show ?thesis by (auto simp: jobs_in_delay)
next
  case (OAck j)
  with assms jobs_in_ack [of j q] show ?thesis by (metis mset_subset_eq_add_right add_mset_add_single
        qop_apply.simps(5) timely.simps(4) union_commute)
next
  case (ORetry j due)
  with assms have i: "j \<in> set (inflight q)" by simp
  then have "j \<notin> fst ` set (delayed (ack_q j q))"
    using exclusive_inflight [OF assms(1)] by (simp add: ack_q_def)
  with ORetry i show ?thesis by (simp add: retry_q_def jobs_in_delay jobs_in_ack)
next
  case (ODead j)
  with assms have "j \<in> set (inflight q)" by simp
  then have "jobs_in (dead_q j q) = jobs_in q"
    by (simp add: jobs_in_dead jobs_in_ack)
  with ODead show ?thesis by simp
next
  case OPopDlq
  then show ?thesis using jobs_in_pop_dlq [of q] by simp
next
  case (OPromote now n)
  with assms show ?thesis by (simp add: jobs_in_promote exclusive_def)
next
  case (OReap now n)
  with assms show ?thesis by (simp add: jobs_in_reap)
next
  case OClaim
  then show ?thesis using jobs_in_claim [of q] by simp
qed (simp add: jobs_in_lease)

lemma leases_timely:
  assumes "exclusive q" and "timely q x"
  shows "fst ` set (leases (qop_apply x q)) \<subseteq> set (inflight (qop_apply x q))"
proof -
  have "fst ` set (leases q) \<subseteq> set (inflight q)" using assms(1) by (simp add: exclusive_def)
  with assms(2) show ?thesis
    by (cases x) (auto simp: queue_ops keys_zadd keys_zrem keys_fold_zrem in_fold_remove1
        claim_q_def pop_dlq_q_def subset_iff)
qed

lemma exclusive_apply:
  assumes "exclusive q" and "timely q x"
  shows "exclusive (qop_apply x q)"
proof -
  have one: "count (jobs_in q) j \<le> 1" for j using assms(1) by (simp add: exclusive_def)
  have "count (jobs_in (qop_apply x q)) j \<le> 1" for j
    using jobs_in_timely [OF assms]
  proof
    assume "jobs_in (qop_apply x q) \<subseteq># jobs_in q"
    from mset_subset_eq_count [OF this, of j] one [of j] show ?thesis by simp
  next
    assume "\<exists>j. \<not> present j q \<and> jobs_in (qop_apply x q) = add_mset j (jobs_in q)"
    with one [of j] show ?thesis by (auto simp: present_jobs_in not_in_iff)
  qed
  then show ?thesis
    using assms leases_timely [OF assms] by (simp add: exclusive_def queue_wf_apply)
qed

lemma exclusive_apply_ops: "exclusive q \<Longrightarrow> timely_run xs q \<Longrightarrow> exclusive (apply_ops xs q)"
  by (induction xs arbitrary: q) (auto intro: exclusive_apply)

section \<open>A claim without a lease\<close>

text \<open>The operations that name job \<open>j\<close>. Everything else runs on behalf of other jobs, or is a claim, a
  sweep of the scheduler or a pop of the dead-letter queue.\<close>

fun mentions :: "jobid \<Rightarrow> qop \<Rightarrow> bool" where
  "mentions j (OPush j') = (j' = j)"
| "mentions j (ODelay j' _) = (j' = j)"
| "mentions j (OLease j' _) = (j' = j)"
| "mentions j (OAck j') = (j' = j)"
| "mentions j (ORetry j' _) = (j' = j)"
| "mentions j (ODead j') = (j' = j)"
| "mentions j _ = False"

definition stranded :: "jobid \<Rightarrow> queue \<Rightarrow> bool" where
  "stranded j q \<longleftrightarrow> j \<in> set (inflight q) \<and> j \<notin> fst ` set (leases q) \<and>
     j \<notin> set (ready q) \<and> j \<notin> fst ` set (delayed q)"

lemma stranded_apply:
  assumes "stranded j q" and "\<not> mentions j x"
  shows "stranded j (qop_apply x q)"
proof -
  have l: "j \<notin> set (zdue now n (leases q))" "j \<notin> set (zdue now n (delayed q))" for now n
    using assms(1) zdue_sub [of now n "leases q"] zdue_sub [of now n "delayed q"]
    by (force simp: stranded_def)+
  with assms show ?thesis
    by (cases x) (auto simp: stranded_def queue_ops keys_zadd keys_zrem keys_fold_zrem in_fold_remove1
        claim_q_def pop_dlq_q_def dest: in_set_butlastD)
qed

lemma stranded_apply_ops:
  "stranded j q \<Longrightarrow> \<forall>x \<in> set xs. \<not> mentions j x \<Longrightarrow> stranded j (apply_ops xs q)"
  by (induction xs arbitrary: q) (auto intro: stranded_apply)

section \<open>Properties\<close>

text \<open>A concrete server state with a given queue, for the closed examples.\<close>

definition server_with :: "queue \<Rightarrow> keyspace" where
  "server_with q = queue_put q (\<lambda>_. None)"

lemma server_with_simps [simp]:
  "queue_of (server_with q) = q" "queue_keys (server_with q) \<longleftrightarrow> queue_wf q"
  by (simp_all add: server_with_def)

text \<open>C11: On every server with the documented behaviour, each operation of the queue (the two plain
  pushes, the claim, the lease, the five Lua scripts and the pop of the dead-letter queue) changes
  the keyspace exactly as its pure counterpart changes the abstract queue, and no other key.\<close>

theorem queue_ops_refine:
  assumes "redis_server exec ent" and "queue_keys (ent r)"
  shows "ent (qop_exec exec t x r) = queue_put (qop_apply x (queue_of (ent r))) (ent r)"
  using assms by (rule redis_server.qop_refines)

theorem queue_ops_refine_witness:
  "qop_exec mem_exec 5 (ORetry ''j1'' 900)
     (server_with \<lparr>ready = [''j2''], inflight = [''j1''], leases = [(''j1'', 70)], delayed = [], dlq = []\<rparr>) =
   server_with \<lparr>ready = [''j2''], inflight = [], leases = [], delayed = [(''j1'', 900)], dlq = []\<rparr>"
  using queue_ops_refine [OF mem_server, of "server_with \<lparr>ready = [''j2''], inflight = [''j1''],
      leases = [(''j1'', 70)], delayed = [], dlq = []\<rparr>" 5 "ORetry ''j1'' 900"]
  by (simp add: queue_wf_def zwf_def zrank_def queue_ops zadd_def Redis.zrem_def server_with_def
      del: qop_exec.simps)

text \<open>No job is ever lost by the queue. Whatever the processes do, in whatever order and at
  whatever times, and wherever they crash between two operations: an id that is in the queue
  stays in one of its structures until it is acknowledged or taken off the dead-letter queue.\<close>

theorem no_job_lost:
  assumes "redis_server exec ent" and "queue_keys (ent r)"
    and "present j (queue_of (ent r))" and "never_out j (map snd xs) (queue_of (ent r))"
  shows "present j (queue_of (ent (exec_ops exec xs r)))"
  using assms by (simp add: redis_server.exec_ops_refines present_apply_ops)

theorem no_job_lost_witness:
  "present ''a'' (queue_of (exec_ops mem_exec
     [(0, OPush ''b''), (1, OClaim), (2, OLease ''a'' 60), (70, OReap 70 100), (71, OClaim), (72, OAck ''b'')]
     (server_with \<lparr>ready = [''a''], inflight = [], leases = [], delayed = [], dlq = []\<rparr>)))"
  by (rule no_job_lost [OF mem_server])
     (simp_all add: queue_wf_def present_def)

text \<open>C12: While no lease runs out under a live worker (producers push new ids, workers give up only
  jobs that are in flight), a job is in at most one of the four structures, and only once, after
  any run from the empty queue: no two workers are ever handed the same job.\<close>

theorem job_in_one_place:
  assumes "redis_server exec ent" and "queue_keys (ent r)" and "queue_of (ent r) = empty_queue"
    and "timely_run (map snd xs) empty_queue"
  shows "count (jobs_in (queue_of (ent (exec_ops exec xs r)))) j \<le> 1"
proof -
  have "exclusive empty_queue"
    by (simp add: exclusive_def empty_queue_def queue_wf_def jobs_in_def)
  with assms have "exclusive (queue_of (ent (exec_ops exec xs r)))"
    by (simp add: redis_server.exec_ops_refines exclusive_apply_ops)
  then show ?thesis by (simp add: exclusive_def)
qed

theorem job_in_one_place_witness:
  "count (jobs_in (queue_of (exec_ops mem_exec
     [(0, OPush ''a''), (1, OClaim), (2, OLease ''a'' 60), (3, ORetry ''a'' 40), (50, OPromote 50 100)]
     (server_with empty_queue)))) ''a'' \<le> 1"
  by (rule job_in_one_place [OF mem_server])
     (simp_all add: queue_wf_def empty_queue_def present_def queue_ops claim_q_def)

text \<open>C13: Crashed workers lose nothing: \<open>m\<close> sweeps of the reaper with batch size \<open>n\<close>, run at time
  \<open>now\<close>, return every job whose lease has expired by then to the ready list, when there are at
  most \<open>m * n\<close> of them, and leave no expired lease behind.\<close>

theorem expired_leases_return:
  assumes "redis_server exec ent" and "queue_keys (ent r)" and "0 \<le> n"
    and "length (filter (\<lambda>p. snd p \<le> now) (leases (queue_of (ent r)))) \<le> m * nat n"
    and "map snd xs = sweeps m (OReap now n)"
  shows "fst ` set (filter (\<lambda>p. snd p \<le> now) (leases (queue_of (ent r)))) \<subseteq>
           set (ready (queue_of (ent (exec_ops exec xs r)))) \<and>
         filter (\<lambda>p. snd p \<le> now) (leases (queue_of (ent (exec_ops exec xs r)))) = []"
  using reap_sweeps [OF queue_wf_of [OF assms(2)] assms(3), where now = now and m = m] assms
  by (simp add: redis_server.exec_ops_refines)

theorem expired_leases_return_witness:
  "{''a'', ''b''} \<subseteq> set (ready (queue_of (exec_ops mem_exec [(100, OReap 100 1), (101, OReap 100 1)]
     (server_with \<lparr>ready = [], inflight = [''b'', ''a''], leases = [(''a'', 60), (''b'', 80)],
        delayed = [], dlq = []\<rparr>))))"
  using expired_leases_return [OF mem_server, of "server_with \<lparr>ready = [],
      inflight = [''b'', ''a''], leases = [(''a'', 60), (''b'', 80)], delayed = [], dlq = []\<rparr>"
      1 100 2 "[(100, OReap 100 1), (101, OReap 100 1)]"]
  by (simp add: queue_wf_def zwf_def zrank_def numeral_2_eq_2 del: exec_ops.simps)

text \<open>A claim without a lease is never recovered. A worker that dies after the claim and before
  the command that records the lease leaves its job in the in-flight list with no lease; no sweep
  of the scheduler, at any time and with any batch size, and no operation on other jobs ever moves
  it again, so it is never handed to a worker.\<close>

theorem unleased_claim_is_stranded:
  assumes "redis_server exec ent" and "queue_keys (ent r)"
    and "stranded j (queue_of (ent r))" and "\<forall>x \<in> set xs. \<not> mentions j (snd x)"
  shows "j \<in> set (inflight (queue_of (ent (exec_ops exec xs r)))) \<and>
    j \<notin> set (ready (queue_of (ent (exec_ops exec xs r))))"
proof -
  have "\<forall>x \<in> set (map snd xs). \<not> mentions j x" using assms(4) by auto
  with assms have "stranded j (queue_of (ent (exec_ops exec xs r)))"
    by (simp add: redis_server.exec_ops_refines stranded_apply_ops)
  then show ?thesis by (simp add: stranded_def)
qed

theorem unleased_claim_is_stranded_witness:
  "''a'' \<in> set (inflight (queue_of (exec_ops mem_exec [(100000, OReap 100000 100), (100001, OPromote 100001 100)]
     (qop_exec mem_exec 0 OClaim (server_with \<lparr>ready = [''a''], inflight = [], leases = [],
        delayed = [], dlq = []\<rparr>)))))"
  using unleased_claim_is_stranded [OF mem_server, of "qop_exec mem_exec 0 OClaim
      (server_with \<lparr>ready = [''a''], inflight = [], leases = [], delayed = [], dlq = []\<rparr>)" "''a''"
      "[(100000, OReap 100000 100), (100001, OPromote 100001 100)]"]
  by (simp add: queue_put_def server_with_def queue_keys_def queue_of_def stranded_def put_list_def
      put_zset_def Let_def del: exec_ops.simps)

text \<open>C14: Promotion is in time and in order. A promotion at time \<open>now\<close> appends to the order in which
  jobs will be claimed exactly the ids it takes off the delayed set; each of them was due by
  \<open>now\<close>, they come by increasing due time, and a job due by \<open>now\<close> stays behind only when the batch
  is full.\<close>

theorem promote_in_time_and_order:
  assumes "redis_server exec ent" and "queue_keys (ent r)" and "0 \<le> n"
    and "q = queue_of (ent r)" and "q' = queue_of (ent (qop_exec exec t (OPromote now n) r))"
  shows "\<exists>ps. claim_order q' = claim_order q @ map fst ps \<and> delayed q = ps @ delayed q' \<and>
      (\<forall>p \<in> set ps. snd p \<le> now) \<and> sorted (map snd ps) \<and>
      (int (length ps) < n \<longrightarrow> (\<forall>p \<in> set (delayed q'). now < snd p))"
proof -
  have "q' = promote_q now n q" and "queue_wf q"
    using assms by (simp_all add: redis_server.qop_refines queue_wf_of del: qop_exec.simps)
  with promote_prefix [OF _ assms(3)] show ?thesis by simp
qed

theorem promote_in_time_and_order_witness:
  "\<exists>ps :: zset. claim_order (queue_of (qop_exec mem_exec 50 (OPromote 50 2) (server_with
          \<lparr>ready = [''x''], inflight = [], leases = [], delayed = [(''b'', 10), (''a'', 20), (''c'', 90)],
           dlq = []\<rparr>))) = [''x''] @ map fst ps \<and> sorted (map snd ps) \<and> (\<forall>p \<in> set ps. snd p \<le> 50)"
  using promote_in_time_and_order [OF mem_server _ _ refl refl, of "server_with
          \<lparr>ready = [''x''], inflight = [], leases = [], delayed = [(''b'', 10), (''a'', 20), (''c'', 90)],
           dlq = []\<rparr>" 2 50 50]
  by (auto simp: queue_wf_def zwf_def zrank_def claim_order_def simp del: qop_exec.simps)

end
