(* ===== verification/Runtime.thy ===== *)
theory Runtime
  imports Database Jobs Lock Queue_Safety
begin

text \<open>
  The platform's functions run against a Redis server and the database. A world is the state of the
  two stores; each effect takes one \<open>input\<close>: the servers' time, the process's clock, its random
  draws, what the endpoint does, and a fault of the connection. The commands of a script run
  atomically on the server. When the inputs run out the process has died.
\<close>

section \<open>Scripts by name\<close>

text \<open>The body of a script on the keys and arguments it is sent, \<open>KEYS[n]\<close> and \<open>ARGV[n]\<close>; the callers
  send texts and integers where the scripts read them.\<close>

fun KEY :: "key list \<Rightarrow> nat \<Rightarrow> key" where
  "KEY [] n = []"
| "KEY (k # ks) n = (if n = 1 then k else KEY ks (n - 1))"

fun TEXT :: "val list \<Rightarrow> nat \<Rightarrow> string" where
  "TEXT [] n = []"
| "TEXT (v # vs) n = (if n = 1 then (case v of VStr s \<Rightarrow> s | VNum q \<Rightarrow> show_int \<lfloor>q\<rfloor>) else TEXT vs (n - 1))"

fun NUM :: "val list \<Rightarrow> nat \<Rightarrow> rat" where
  "NUM [] n = 0"
| "NUM (v # vs) n = (if n = 1 then (case v of VStr s \<Rightarrow> 0 | VNum q \<Rightarrow> q) else NUM vs (n - 1))"

fun lua_body :: "script \<Rightarrow> key list \<Rightarrow> val list \<Rightarrow> lua" where
  "lua_body ACK_SCRIPT ks vs = ack_script (KEY ks 1) (KEY ks 2) (TEXT vs 1)"
| "lua_body RETRY_SCRIPT ks vs = retry_script (KEY ks 1) (KEY ks 2) (KEY ks 3) (TEXT vs 1) \<lfloor>NUM vs 2\<rfloor>"
| "lua_body DLQ_SCRIPT ks vs = dlq_script (KEY ks 1) (KEY ks 2) (KEY ks 3) (TEXT vs 1)"
| "lua_body PROMOTE_SCRIPT ks vs = promote_script (KEY ks 1) (KEY ks 2) \<lfloor>NUM vs 1\<rfloor> \<lfloor>NUM vs 2\<rfloor>"
| "lua_body REAP_SCRIPT ks vs = reap_script (KEY ks 1) (KEY ks 2) (KEY ks 3) \<lfloor>NUM vs 1\<rfloor> \<lfloor>NUM vs 2\<rfloor>"
| "lua_body RELEASE_SCRIPT ks vs = release_script (KEY ks 1) (TEXT vs 1)"
| "lua_body RENEW_SCRIPT ks vs = renew_script (KEY ks 1) (TEXT vs 1) \<lfloor>NUM vs 2\<rfloor>"
| "lua_body TOKEN_BUCKET_SCRIPT ks vs = token_bucket_script (KEY ks 1) (NUM vs 1) (NUM vs 2) (NUM vs 3) (NUM vs 4)"
| "lua_body CHECK_SCRIPT ks vs = check_script (KEY ks 1) (NUM vs 1) (NUM vs 2) \<lfloor>NUM vs 3\<rfloor>"
| "lua_body SUCCESS_SCRIPT ks vs = success_script (KEY ks 1) \<lfloor>NUM vs 1\<rfloor>"
| "lua_body FAILURE_SCRIPT ks vs = failure_script (KEY ks 1) (NUM vs 1) (NUM vs 2) \<lfloor>NUM vs 3\<rfloor>"

section \<open>Worlds and inputs\<close>

record 'r world =
  redis :: 'r
  tables :: db

record input =
  i_time :: ms
  i_clock :: ms
  i_random :: rat
  i_uuid :: string
  i_bytes :: string
  i_status :: "int option"
  i_text :: "string option"
  i_uptime :: rat
  i_fault :: fault

fun message :: "err \<Rightarrow> string" where
  "message (AppError m st code) = m"
| "message (Failure m) = m"

text \<open>What the services and the runtime do with an effect.\<close>

fun serve :: "(ms \<Rightarrow> rcmd \<Rightarrow> 'r \<Rightarrow> reply \<times> 'r) \<Rightarrow> input \<Rightarrow> eff \<Rightarrow> 'r world \<Rightarrow> resp \<times> 'r world" where
  "serve exec i (RCmd c) w =
     (case exec (i_time i) c (redis w) of (rep, r) \<Rightarrow> (resp_of rep, w\<lparr>redis := r\<rparr>))"
| "serve exec i (Eval s ks vs) w =
     (case lua_run exec (i_time i) (lua_body s ks vs) (redis w) of
        (Inl e, r) \<Rightarrow> (Rejected (message e), w\<lparr>redis := r\<rparr>)
      | (Inr rep, r) \<Rightarrow> (resp_of rep, w\<lparr>redis := r\<rparr>))"
| "serve exec i (Sql st) w =
     (case sql_exec (i_time i) (i_uuid i) st (tables w) of (res, d) \<Rightarrow> (res, w\<lparr>tables := d\<rparr>))"
| "serve exec i DateNow w = (Time (i_clock i), w)"
| "serve exec i MathRandom w = (Rand (i_random i), w)"
| "serve exec i RandomUUID w = (Text (i_uuid i), w)"
| "serve exec i RandomBytes w = (Text (i_bytes i), w)"
| "serve exec i (Fetch req) w =
     (case i_status i of None \<Rightarrow> (Rejected ''fetch failed'', w) | Some st \<Rightarrow> (Status st, w))"
| "serve exec i ResponseText w =
     (case i_text i of None \<Rightarrow> (Rejected ''terminated'', w) | Some t \<Rightarrow> (Text t, w))"
| "serve exec i Ping w = (Rep (RBulk (VStr ''PONG'')), w)"
| "serve exec i ProcessUptime w = (Rand (i_uptime i), w)"

text \<open>A fault hits the connection to Redis or Postgres: the command is not carried out, or its reply
  does not arrive.\<close>

fun remote :: "eff \<Rightarrow> bool" where
  "remote (RCmd c) = True"
| "remote (Eval s ks vs) = True"
| "remote (Sql st) = True"
| "remote Ping = True"
| "remote _ = False"

definition perform :: "(ms \<Rightarrow> rcmd \<Rightarrow> 'r \<Rightarrow> reply \<times> 'r) \<Rightarrow> input \<Rightarrow> eff \<Rightarrow> 'r world \<Rightarrow> resp \<times> 'r world" where
  "perform exec i e w =
     (if remote e then
        (case i_fault i of
           NoFault \<Rightarrow> serve exec i e w
         | Dropped m \<Rightarrow> (Rejected m, w)
         | ReplyLost m \<Rightarrow> (Rejected m, snd (serve exec i e w)))
      else serve exec i e w)"

primrec run :: "(ms \<Rightarrow> rcmd \<Rightarrow> 'r \<Rightarrow> reply \<times> 'r) \<Rightarrow> 'a js \<Rightarrow> input list \<Rightarrow> 'r world \<Rightarrow>
    (event list \<times> 'a outcome) \<times> 'r world" where
  "run exec (Ret a) = (\<lambda>ins w. (([], Done a), w))"
| "run exec (Throw e) = (\<lambda>ins w. (([], Threw e), w))"
| "run exec (Do c k) = (\<lambda>ins w. case ins of
       [] \<Rightarrow> (([], Cut c), w)
     | i # ins' \<Rightarrow> (case perform exec i c w of (r, w') \<Rightarrow>
         case run exec (k r) ins' w' of ((tr, out), w'') \<Rightarrow> (((c, r) # tr, out), w'')))"

section \<open>Runs are plays\<close>

text \<open>What a run does is what the program does on the replies it got, and the world it leaves is the
  world after its commands, one after the other.\<close>

primrec perform_all :: "(ms \<Rightarrow> rcmd \<Rightarrow> 'r \<Rightarrow> reply \<times> 'r) \<Rightarrow> event list \<Rightarrow> input list \<Rightarrow> 'r world \<Rightarrow> 'r world \<Rightarrow> bool" where
  "perform_all exec [] ins w w' \<longleftrightarrow> w' = w"
| "perform_all exec (ev # tr) ins w w' \<longleftrightarrow>
     (\<exists>i ins' w1. ins = i # ins' \<and> perform exec i (fst ev) w = (snd ev, w1) \<and> perform_all exec tr ins' w1 w')"

lemma run_is_play:
  "run exec p ins w = ((tr, out), w') \<Longrightarrow>
     play p (map snd tr) = (tr, out) \<and> perform_all exec tr ins w w'"
proof (induction p arbitrary: ins w tr)
  case (Do c k)
  show ?case
  proof (cases ins)
    case Nil
    with Do.prems show ?thesis by auto
  next
    case (Cons i ins')
    obtain r w1 where p: "perform exec i c w = (r, w1)" by (metis prod.exhaust)
    obtain tr1 where t: "run exec (k r) ins' w1 = ((tr1, out), w')" "tr = (c, r) # tr1"
      using Do.prems Cons p by (auto split: prod.splits)
    from Do.IH [OF _ t(1)] p t(2) Cons show ?thesis by (auto split: prod.splits)
  qed
qed auto

lemma perform_all_append:
  "perform_all exec (tr @ tr') ins w w' \<longleftrightarrow>
     (\<exists>w1. perform_all exec tr ins w w1 \<and> perform_all exec tr' (drop (length tr) ins) w1 w')"
  by (induction tr arbitrary: ins w) fastforce+

end
