(* ===== verification/Delivery_Safety.thy ===== *)
theory Delivery_Safety
  imports Deliveries
begin

text \<open>
  What \<open>deliver\<close> of \<open>delivery.service.ts\<close> guarantees about every run (plays, theory \<open>Traces\<close>): the
  request it signs, what it reports and what it records.
\<close>

section \<open>Reading a trace\<close>

text \<open>The requests a run sends and the statuses it gets back (\<open>None\<close>: the request failed without one).\<close>

fun is_fetch :: "eff \<Rightarrow> bool" where
  "is_fetch (Fetch req) = True"
| "is_fetch _ = False"

definition statuses :: "event list \<Rightarrow> int option list" where
  "statuses tr = map (\<lambda>e. if rejected (snd e) then None else Some (as_status (snd e))) (filter (\<lambda>e. is_fetch (fst e)) tr)"

lemma statuses_simps [simp]:
  "statuses [] = []"
  "statuses (ev # tr) = (if is_fetch (fst ev) then (if rejected (snd ev) then None else Some (as_status (snd ev))) # statuses tr else statuses tr)"
  by (auto simp: statuses_def)

text \<open>A run ended with these commands, all answered well.\<close>

definition ended_with :: "eff list \<Rightarrow> event list \<Rightarrow> bool" where
  "ended_with es tr \<longleftrightarrow> map fst (drop (length tr - length es) tr) = es \<and>
     (\<forall>e \<in> set (drop (length tr - length es) tr). \<not> rejected (snd e))"

lemmas deliver_code = deliver_def nextAttemptNumber_def http_exchange_def insert_attempt_def

text \<open>The request is the job's, signed: its body is the payload; the signature header is the HMAC,
  under the webhook's secret, of the timestamp header, a dot and the body sent; the timestamp is a
  reading of the clock; the deduplication header is the job's id, the same for every attempt.\<close>

definition signed_request :: "(string \<Rightarrow> string \<Rightarrow> string) \<Rightarrow> job \<Rightarrow> string \<Rightarrow> string \<Rightarrow> event list \<Rightarrow> http_request \<Rightarrow> bool" where
  "signed_request hmac j webhookUrl secret tr req \<longleftrightarrow>
     url req = webhookUrl \<and> body req = j_payload j \<and>
     map_of (headers req) ''idempotency-key'' = Some (j_id j) \<and>
     (\<exists>t. (DateNow, t) \<in> set tr \<and>
        map_of (headers req) ''x-signature-timestamp'' = Some (show_int (as_int t)) \<and>
        map_of (headers req) ''x-signature'' = Some (''v1='' @ hmac secret (show_int (as_int t) @ ''.'' @ body req))) \<and>
     (\<exists>n. (Sql (SelectNextAttempt (j_id j)), n) \<in> set tr \<and>
        map_of (headers req) ''x-attempt'' = Some (show_int (the_default 1 (next_row n))))"

section \<open>Properties\<close>

text \<open>C25: What is signed is what is sent. Every request of every run of \<open>deliver\<close> goes to the webhook's
  URL with the job's payload as body, the job's id as deduplication key, the attempt number read
  from the audit trail, and a signature, under the webhook's secret, of exactly the timestamp
  header and the body of that request; the timestamp is the clock's.\<close>

theorem request_is_signed:
  assumes "play (deliver hmac j webhookUrl secret) rs = (tr, out)" and "n < length tr" and "fst (tr ! n) = Fetch req"
  shows "signed_request hmac j webhookUrl secret (take n tr) req"
proof -
  have "wp (deliver hmac j webhookUrl secret) (\<lambda>tr _. True) (\<lambda>tr _. True)
      (\<lambda>tr c. \<forall>req. c = Fetch req \<longrightarrow> signed_request hmac j webhookUrl secret tr req) []"
    by (auto simp: wp_simps deliver_code signed_request_def delivery_request_def sign_def)
  from wp_sent_nth [OF this assms(1,2)] assms(3) show ?thesis by simp
qed

definition sample_job :: job where
  "sample_job = \<lparr>j_id = ''j'', j_tenant = ''t'', j_webhookId = ''w'', j_eventType = ''e'', j_payload = ''{}'', j_state = In_flight,
     j_attempts = 0, j_maxAttempts = 5, j_runAt = 0, j_lastError = None, j_createdAt = 0\<rparr>"

theorem request_is_signed_witness:
  "signed_request (\<lambda>s m. s @ m) sample_job ''http://h/'' ''s''
     [(Sql (SelectNextAttempt ''j''), NextRow 3), (DateNow, Time 8), (DateNow, Time 9)]
     (delivery_request sample_job ''http://h/'' 3 ''9'' ''s9.{}'' ''{}'')"
proof -
  let ?rs = "[NextRow 3, Time 8, Time 9, Status 200, Text ''ok'', Time 12, NoRows]"
  let ?run = "play (deliver (\<lambda>s m. s @ m) sample_job ''http://h/'' ''s'') ?rs"
  have n: "3 < length (fst ?run)" and f: "fst (fst ?run ! 3) = Fetch (delivery_request sample_job ''http://h/'' 3 ''9'' ''s9.{}'' ''{}'')"
    and t: "take 3 (fst ?run) = [(Sql (SelectNextAttempt ''j''), NextRow 3), (DateNow, Time 8), (DateNow, Time 9)]"
    by code_simp+
  from request_is_signed [OF prod.collapse [symmetric] n f] t show ?thesis by simp
qed

text \<open>The signed text is unambiguous. With an HMAC that separates messages, two deliveries under
  one secret have the same signature only if both the timestamp and the body are the same: no
  bytes can be moved between the two, so a captured signature vouches for no other request.\<close>

theorem signature_binds_timestamp:
  assumes "inj (hmac secret)"
  shows "sign hmac secret (show_int t) b = sign hmac secret (show_int t') b' \<longleftrightarrow> t = t' \<and> b = b'"
  using inj_eq [OF assms] append_delim_inject [OF show_int_no_dot show_int_no_dot, of t b t' b']
  by (simp add: sign_def show_int_inject)

theorem signature_binds_timestamp_witness:
  "sign (\<lambda>s m. s @ m) ''k'' (show_int 12) ''3'' \<noteq> sign (\<lambda>s m. s @ m) ''k'' (show_int 1) ''23''"
  using signature_binds_timestamp [of "\<lambda>s m. s @ m" "''k''" 12 "''3''" 1 "''23''"] by (simp add: inj_on_def)

text \<open>The report and the audit row tell what happened. A run of \<open>deliver\<close> that returns has sent one
  request and ended by recording one audit row, with the number the request carried; the result's
  status, error and duration are the row's; it is a success exactly for a 2xx status (also when
  the body could not be read), retryable exactly for a failure that \<open>isRetryable\<close> accepts; a
  failure always carries an error; at most 2000 characters of the response are kept.\<close>

theorem delivery_is_recorded:
  assumes "play (deliver hmac j webhookUrl secret) rs = (tr, Done d)"
  shows "statuses tr = [dr_statusCode d] \<and>
    (\<exists>a. ended_with [Sql (InsertAttempt a)] tr \<and> a_jobId a = j_id j \<and> a_statusCode a = dr_statusCode d \<and>
       a_error a = dr_error d \<and> a_durationMs a = dr_durationMs d \<and>
       (\<exists>r. (Sql (SelectNextAttempt (j_id j)), r) \<in> set tr \<and> a_attemptNumber a = the_default 1 (next_row r)) \<and>
       (\<forall>txt. a_responseBody a = Some txt \<longrightarrow> length txt \<le> 2000)) \<and>
    (dr_success d \<longleftrightarrow> (\<exists>st. dr_statusCode d = Some st \<and> 200 \<le> st \<and> st < 300)) \<and>
    (dr_retryable d \<longleftrightarrow> \<not> dr_success d \<and> isRetryable (dr_statusCode d)) \<and>
    (dr_error d = None \<longrightarrow> dr_success d)"
proof -
  have "wp (deliver hmac j webhookUrl secret) (\<lambda>tr d. statuses tr = [dr_statusCode d] \<and>
    (\<exists>a. ended_with [Sql (InsertAttempt a)] tr \<and> a_jobId a = j_id j \<and> a_statusCode a = dr_statusCode d \<and>
       a_error a = dr_error d \<and> a_durationMs a = dr_durationMs d \<and>
       (\<exists>r. (Sql (SelectNextAttempt (j_id j)), r) \<in> set tr \<and> a_attemptNumber a = the_default 1 (next_row r)) \<and>
       (\<forall>txt. a_responseBody a = Some txt \<longrightarrow> length txt \<le> 2000)) \<and>
    (dr_success d \<longleftrightarrow> (\<exists>st. dr_statusCode d = Some st \<and> 200 \<le> st \<and> st < 300)) \<and>
    (dr_retryable d \<longleftrightarrow> \<not> dr_success d \<and> isRetryable (dr_statusCode d)) \<and>
    (dr_error d = None \<longrightarrow> dr_success d)) (\<lambda>tr _. True) (\<lambda>tr c. True) []"
    by (auto simp: wp_simps deliver_code ended_with_def ok_status_def MAX_BODY_CHARS_def)
  from wp_done [OF this assms] show ?thesis .
qed

theorem delivery_is_recorded_witness:
  "\<exists>d. snd (play (deliver (\<lambda>s m. s @ m) sample_job ''http://h/'' ''s'')
      [NextRow 3, Time 8, Time 9, Status 204, Rejected ''The operation was aborted due to timeout'', Time 12, NoRows]) = Done d \<and>
    dr_success d \<and> dr_error d \<noteq> None"
proof -
  let ?run = "play (deliver (\<lambda>s m. s @ m) sample_job ''http://h/'' ''s'')
      [NextRow 3, Time 8, Time 9, Status 204, Rejected ''The operation was aborted due to timeout'', Time 12, NoRows]"
  let ?d = "\<lparr>dr_success = True, dr_statusCode = Some 204, dr_error = Some ''The operation was aborted due to timeout'',
     dr_durationMs = 4, dr_retryable = False\<rparr>"
  have d: "snd ?run = Done ?d" by code_simp
  then have "?run = (fst ?run, Done ?d)" by (simp only: prod_eq_iff fst_conv snd_conv)
  from delivery_is_recorded [OF this] d show ?thesis by simp
qed

end
