(* ===== verification/Jobs_Safety.thy ===== *)
theory Jobs_Safety
  imports Jobs Delivery_Safety
begin

text \<open>
  What \<open>job.service.ts\<close> guarantees about every run of its functions, whatever Redis, Postgres, the
  clocks, the endpoints and other processes answer, and wherever the process dies: the theorems
  are about all plays of the functions (theory \<open>Traces\<close>), with no assumption on the services.
\<close>

section \<open>Reading a trace\<close>

text \<open>The job whose claim a command releases; the attempts an update spends; the audit rows a run sends.\<close>

fun release_of :: "eff \<Rightarrow> jobid option" where
  "release_of (Eval ACK_SCRIPT ks [VStr j]) = Some j"
| "release_of (Eval RETRY_SCRIPT ks (VStr j # vs)) = Some j"
| "release_of (Eval DLQ_SCRIPT ks [VStr j]) = Some j"
| "release_of _ = None"

fun spends :: "eff \<Rightarrow> int" where
  "spends (Sql (UpdateJob i st n err t)) = n"
| "spends _ = 0"

fun logs_attempt :: "eff \<Rightarrow> bool" where
  "logs_attempt (Sql (InsertAttempt a)) = True"
| "logs_attempt _ = False"

definition releases :: "eff list \<Rightarrow> jobid list" where
  "releases es = List.map_filter release_of es"

definition spent :: "eff list \<Rightarrow> int" where
  "spent es = sum_list (map spends es)"

definition logged :: "eff list \<Rightarrow> int" where
  "logged es = int (length (filter logs_attempt es))"

definition fetches :: "eff list \<Rightarrow> int" where
  "fetches es = int (length (filter is_fetch es))"

lemma trace_simps [simp]:
  "releases [] = []" "releases (e # es) = (case release_of e of None \<Rightarrow> releases es | Some j \<Rightarrow> j # releases es)"
  "releases (es @ fs) = releases es @ releases fs"
  "spent [] = 0" "spent (e # es) = spends e + spent es" "spent (es @ fs) = spent es + spent fs"
  "logged [] = 0" "logged (e # es) = (if logs_attempt e then 1 else 0) + logged es" "logged (es @ fs) = logged es + logged fs"
  "fetches [] = 0" "fetches (e # es) = (if is_fetch e then 1 else 0) + fetches es" "fetches (es @ fs) = fetches es + fetches fs"
  by (auto simp: releases_def spent_def logged_def fetches_def List.map_filter_def split: option.split)

lemmas live_code = process_live_def first_job_def check_def take_token_def defer_job_def
  updateState_def retryLater_def get_webhook_def find_webhook_def getSecret_def findSecretById_def deliver_def
  nextAttemptNumber_def http_exchange_def insert_attempt_def settle_def recordSuccess_def recordFailure_def
  deadLetter_def backoffMs_def ack_def

lemmas process_code = process_def find_job_def live_code

text \<open>A run of \<open>process\<close> on a live row is the read of the row and a run of \<open>process_live\<close>.\<close>

lemma play_live:
  assumes "jr_state row \<noteq> Succeeded" and "jr_state row \<noteq> Dead"
  shows "play (process cfg hmac jobId) (JobRows (row # rows) # rs) =
     (case play (process_live cfg hmac jobId (toJob row)) rs of
        (tr, out) \<Rightarrow> ((Sql (SelectJob jobId), JobRows (row # rows)) # tr, out))"
  using assms by (simp add: process_def find_job_def first_job_def await_def toJob_def)

lemma play_liveE:
  assumes "jr_state row \<noteq> Succeeded" and "jr_state row \<noteq> Dead"
    and "play (process cfg hmac jobId) (JobRows (row # rows) # rs) = (tr, out)"
  obtains tr1 where "play (process_live cfg hmac jobId (toJob row)) rs = (tr1, out)"
    and "tr = [(Sql (SelectJob jobId), JobRows (row # rows))] @ tr1"
  using assms(3) by (auto simp: play_live [OF assms(1,2)] split: prod.splits)

text \<open>What lets a request out: the breaker has answered and not open, the bucket has given a token.\<close>

definition breaker_open :: "string \<Rightarrow> event list \<Rightarrow> bool \<Rightarrow> bool" where
  "breaker_open w tr b \<longleftrightarrow> (\<exists>vs r. (Eval CHECK_SCRIPT [circuit_key w] vs, r) \<in> set tr \<and> \<not> rejected r \<and> (as_circuit r = Open) = b)"

definition token_given :: "config \<Rightarrow> string \<Rightarrow> event list \<Rightarrow> bool \<Rightarrow> bool" where
  "token_given cfg w tr b \<longleftrightarrow> (\<exists>now r res.
     (Eval TOKEN_BUCKET_SCRIPT [ratelimit_key w] [VNum (of_int (perSecond cfg)), VNum (of_int (burst cfg)), now, VNum 1], r) \<in> set tr \<and>
     \<not> rejected r \<and> rate_reply r = Some res \<and> rr_allowed res = b)"

lemma gates_simps [simp]:
  "breaker_open w [] b = False"
  "breaker_open w ((c, r) # tr) b \<longleftrightarrow>
     (\<exists>vs. c = Eval CHECK_SCRIPT [circuit_key w] vs \<and> \<not> rejected r \<and> (as_circuit r = Open) = b) \<or> breaker_open w tr b"
  "token_given cfg w [] b = False"
  "token_given cfg w ((c, r) # tr) b \<longleftrightarrow>
     (\<exists>now res. c = Eval TOKEN_BUCKET_SCRIPT [ratelimit_key w] [VNum (of_int (perSecond cfg)), VNum (of_int (burst cfg)), now, VNum 1] \<and>
        \<not> rejected r \<and> rate_reply r = Some res \<and> rr_allowed res = b) \<or> token_given cfg w tr b"
  by (auto simp: breaker_open_def token_given_def)

text \<open>The end of a run that puts a job off: the row goes back to queued with the due time, no attempt
  spent, then the id goes to the delayed set with the same due time.\<close>

definition put_off :: "string \<Rightarrow> jobid \<Rightarrow> event list \<Rightarrow> bool" where
  "put_off i jobId tr \<longleftrightarrow> (\<exists>due. ended_with [Sql (UpdateJob i Queued 0 None (Some due)),
     Eval RETRY_SCRIPT [INFLIGHT_QUEUE, LEASES, DELAYED] [VStr jobId, VNum (of_int due)]] tr)"

text \<open>What the row and the queue must say after a delivery with status \<open>st\<close>: succeeded and
  acknowledged for a 2xx; dead and on the dead-letter queue for a failure that is permanent or
  was the last attempt; otherwise queued and delayed until the same due time. The update comes
  first, the release right after it.\<close>

definition verdict :: "job \<Rightarrow> int option \<Rightarrow> job_state" where
  "verdict j st =
     (if (case st of None \<Rightarrow> False | Some n \<Rightarrow> ok_status n) then Succeeded
      else if \<not> isRetryable st \<or> j_attempts j + 1 \<ge> j_maxAttempts j then Dead
      else Queued)"

fun settled_as :: "job_state \<Rightarrow> string \<Rightarrow> jobid \<Rightarrow> event list \<Rightarrow> bool" where
  "settled_as Succeeded i jobId tr = ended_with [Sql (UpdateJob i Succeeded 1 None None),
     Eval ACK_SCRIPT [INFLIGHT_QUEUE, LEASES] [VStr jobId]] tr"
| "settled_as Dead i jobId tr = (\<exists>err. ended_with [Sql (UpdateJob i Dead 1 err None),
     Eval DLQ_SCRIPT [INFLIGHT_QUEUE, LEASES, DLQ] [VStr jobId]] tr)"
| "settled_as st i jobId tr = (\<exists>err due. ended_with [Sql (UpdateJob i Queued 1 err (Some due)),
     Eval RETRY_SCRIPT [INFLIGHT_QUEUE, LEASES, DELAYED] [VStr jobId, VNum (of_int due)]] tr)"

text \<open>A concrete configuration, row and webhook, for the closed examples.\<close>

definition sample_config :: config where
  "sample_config = \<lparr>perSecond = 10, burst = 20, failureThreshold = 5, cooldownMs = 30000\<rparr>"

definition sample_row :: "job_state \<Rightarrow> int \<Rightarrow> job_row" where
  "sample_row st n = \<lparr>jr_id = ''j'', jr_tenant = ''t'', jr_webhookid = ''w'', jr_eventtype = ''e'', jr_payload = ''{}'',
     jr_state = st, jr_attempts = n, jr_maxattempts = 5, jr_runat = 0, jr_lasterror = None,
     jr_createdat = 0, jr_updatedat = 0\<rparr>"

definition sample_webhook :: webhook_row where
  "sample_webhook = \<lparr>wr_id = ''w'', wr_tenant = ''t'', wr_url = ''http://h/'', wr_secret = ''s'', wr_isactive = True, wr_createdat = 0\<rparr>"

text \<open>Replies that take a job through both gates to a response with the given status.\<close>

definition sample_replies :: "int \<Rightarrow> resp list" where
  "sample_replies st = [Time 7, Rep (RBulk (VStr ''closed'')), Time 7, Rep (RArr [RInt 1, RInt 0]), JobRows [],
     WebhookRows [sample_webhook], SecretRows [''s''], NextRow 1, Time 8, Time 8, Status st, Text ''body'', Time 9, NoRows]"

lemmas sample_defs = sample_config_def sample_row_def sample_webhook_def sample_replies_def

text \<open>The end of a run that made a request.\<close>

lemma live_run_settles:
  assumes "jr_state row \<noteq> Succeeded" and "jr_state row \<noteq> Dead"
    and "play (process cfg hmac jobId) (JobRows (row # rows) # rs) = (tr, Done ())" and "statuses tr = [st]"
  shows "settled_as (verdict (toJob row) st) (jr_id row) jobId tr"
proof -
  let ?tr0 = "[(Sql (SelectJob jobId), JobRows (row # rows))]"
  obtain tr1 where p: "play (process_live cfg hmac jobId (toJob row)) rs = (tr1, Done ())" "tr = ?tr0 @ tr1"
    by (rule play_liveE [OF assms(1-3)])
  have "wp (process_live cfg hmac jobId (toJob row))
      (\<lambda>tr _. statuses tr = [st] \<longrightarrow> settled_as (verdict (toJob row) st) (jr_id row) jobId tr)
      (\<lambda>tr _. True) (\<lambda>tr c. True) ?tr0"
    by (auto simp add: wp_simps live_code ended_with_def toJob_def verdict_def)
  from wp_play [OF this p(1)] p(2) assms(4) show ?thesis by simp
qed

section \<open>Properties\<close>

text \<open>C8: Every processed job's claim is released once, and last. A run of \<open>process\<close> that returns has
  sent exactly one of the three release scripts (ack, retry, dead-letter), for the job it was
  given, as its last command; a run that throws or dies at any point has sent none before the last
  command, so its claim and lease are still there for the reaper.\<close>

theorem process_releases_once:
  "case play (process cfg hmac jobId) rs of
     (tr, Done _) \<Rightarrow> releases (map fst tr) = [jobId] \<and> release_of (fst (last tr)) = Some jobId
   | (tr, Threw _) \<Rightarrow> releases (map fst (butlast tr)) = []
   | (tr, Cut _) \<Rightarrow> releases (map fst tr) = []"
proof -
  have "wp (process cfg hmac jobId)
     (\<lambda>tr _. releases (map fst tr) = [jobId] \<and> release_of (fst (last tr)) = Some jobId)
     (\<lambda>tr _. releases (map fst (butlast tr)) = []) (\<lambda>tr _. releases (map fst tr) = []) []"
    by (simp add: wp_simps process_code)
  then show ?thesis
    by (auto split: prod.split outcome.split dest: wp_done wp_threw wp_cut)
qed

text \<open>C9: Only a real delivery spends an attempt. In every run of \<open>process\<close>, finished or cut anywhere,
  the attempts spent are at most the audit rows sent, these at most the HTTP requests sent, and
  there is at most one request; a run that returns has spent, and recorded, exactly one attempt
  for its request, and none when the breaker, the rate limit or a terminal state kept it from
  sending one.\<close>

theorem attempts_are_deliveries:
  "let run = play (process cfg hmac jobId) rs; es = sent run in
     0 \<le> spent es \<and> spent es \<le> logged es \<and> logged es \<le> fetches es \<and> fetches es \<le> 1 \<and>
     (case snd run of Done _ \<Rightarrow> spent es = fetches es \<and> logged es = fetches es | _ \<Rightarrow> True)"
proof -
  have "wp (process cfg hmac jobId)
     (\<lambda>tr _. spent (map fst tr) = fetches (map fst tr) \<and> logged (map fst tr) = fetches (map fst tr))
     (\<lambda>tr _. True) (\<lambda>tr c. True) []"
    by (simp add: wp_simps process_code)
  moreover have "wp (process cfg hmac jobId)
     (\<lambda>tr _. 0 \<le> spent (map fst tr) \<and> spent (map fst tr) \<le> logged (map fst tr) \<and> logged (map fst tr) \<le> fetches (map fst tr) \<and> fetches (map fst tr) \<le> 1)
     (\<lambda>tr _. 0 \<le> spent (map fst tr) \<and> spent (map fst tr) \<le> logged (map fst tr) \<and> logged (map fst tr) \<le> fetches (map fst tr) \<and> fetches (map fst tr) \<le> 1)
     (\<lambda>tr c. 0 \<le> spent (map fst tr @ [c]) \<and> spent (map fst tr @ [c]) \<le> logged (map fst tr @ [c]) \<and> logged (map fst tr @ [c]) \<le> fetches (map fst tr @ [c]) \<and> fetches (map fst tr @ [c]) \<le> 1) []"
    by (simp add: wp_simps process_code)
  note wp_sent [where P = "\<lambda>es. 0 \<le> spent es \<and> spent es \<le> logged es \<and> logged es \<le> fetches es \<and> fetches es \<le> 1", OF this, of rs]
  ultimately show ?thesis
    by (cases "play (process cfg hmac jobId) rs") (auto split: outcome.split dest: wp_done)
qed

text \<open>C10: A delivery goes out only through both gates, and a closed gate puts the job off. A run of
  \<open>process\<close> on a live row sends its HTTP request only after the webhook's breaker has answered and
  not "open", and the webhook's bucket, asked at the configured rate, has given a token; a run that
  returns without a request has been told "open" or "no token", and ends by putting the row back to
  queued, with no attempt spent, and the id into the delayed set with the row's due time.\<close>

theorem gates_guard_delivery:
  assumes "jr_state row \<noteq> Succeeded" and "jr_state row \<noteq> Dead"
    and "play (process cfg hmac jobId) (JobRows (row # rows) # rs) = (tr, out)"
  shows "(\<forall>n < length tr. is_fetch (fst (tr ! n)) \<longrightarrow>
      breaker_open (jr_webhookid row) (take n tr) False \<and> token_given cfg (jr_webhookid row) (take n tr) True) \<and>
    (out = Done () \<and> statuses tr = [] \<longrightarrow>
      (breaker_open (jr_webhookid row) tr True \<or> token_given cfg (jr_webhookid row) tr False) \<and>
      put_off (jr_id row) jobId tr)"
proof -
  let ?tr0 = "[(Sql (SelectJob jobId), JobRows (row # rows))]"
  obtain tr1 where p: "play (process_live cfg hmac jobId (toJob row)) rs = (tr1, out)" "tr = ?tr0 @ tr1"
    by (rule play_liveE [OF assms(1-3)])
  have c: "wp (process_live cfg hmac jobId (toJob row)) (\<lambda>tr _. True) (\<lambda>tr _. True)
      (\<lambda>tr c. is_fetch c \<longrightarrow> breaker_open (jr_webhookid row) tr False \<and> token_given cfg (jr_webhookid row) tr True) ?tr0"
    by (simp add: wp_simps live_code toJob_def)
  have q: "wp (process_live cfg hmac jobId (toJob row))
      (\<lambda>tr _. statuses tr = [] \<longrightarrow> breaker_open (jr_webhookid row) tr True \<or> token_given cfg (jr_webhookid row) tr False)
      (\<lambda>tr _. True) (\<lambda>tr c. True) ?tr0"
    by (simp add: wp_simps live_code toJob_def)
  have o: "wp (process_live cfg hmac jobId (toJob row)) (\<lambda>tr _. statuses tr = [] \<longrightarrow> put_off (jr_id row) jobId tr)
      (\<lambda>tr _. True) (\<lambda>tr c. True) ?tr0"
    by (simp add: wp_simps live_code put_off_def ended_with_def toJob_def)
  have "\<forall>n < length tr1. is_fetch (fst (tr1 ! n)) \<longrightarrow>
      breaker_open (jr_webhookid row) (?tr0 @ take n tr1) False \<and> token_given cfg (jr_webhookid row) (?tr0 @ take n tr1) True"
    using wp_play [OF c p(1)] by simp
  then have "\<forall>n < length tr. is_fetch (fst (tr ! n)) \<longrightarrow>
      breaker_open (jr_webhookid row) (take n tr) False \<and> token_given cfg (jr_webhookid row) (take n tr) True"
    unfolding p(2) by (auto simp: nth_Cons take_Cons split: nat.splits)
  then show ?thesis using wp_play [OF q p(1)] wp_play [OF o p(1)] p(2) by blast
qed

theorem gates_guard_delivery_witness:
  "put_off ''j'' ''j'' (fst (play (process sample_config (\<lambda>_ _. []) ''j'')
     [JobRows [sample_row Queued 0], Time 7, Rep (RBulk (VStr ''open'')), Time 8, JobRows [], Rep (RInt 1)]))"
proof -
  let ?rs = "[Time 7, Rep (RBulk (VStr ''open'')), Time 8, JobRows [], Rep (RInt 1)]"
  let ?run = "play (process sample_config (\<lambda>_ _. []) ''j'') (JobRows [sample_row Queued 0] # ?rs)"
  have live: "jr_state (sample_row Queued 0) \<noteq> Succeeded" "jr_state (sample_row Queued 0) \<noteq> Dead"
    by (simp_all add: sample_row_def)
  have "snd ?run = Done ()" and "statuses (fst ?run) = []"
    by (simp_all add: play_live [OF live] await_def live_code sample_config_def)
  with gates_guard_delivery [OF live prod.collapse [symmetric], of sample_config "\<lambda>_ _. []" "''j''" "[]" ?rs]
  show ?thesis by (simp add: sample_row_def)
qed

text \<open>The row and the queue tell the outcome of the delivery. In a run of \<open>process\<close> on a live row
  that returns after a request with status \<open>st\<close> (none when it timed out or failed), the last two
  commands are the update of the row and the release of the claim, both done: succeeded and
  acknowledged exactly for a 2xx status; dead and dead-lettered exactly for a failure that is
  permanent or used the last attempt; otherwise queued and delayed until the same due time. Each
  spends one attempt, and Postgres is always told before Redis.\<close>

theorem outcome_is_settled:
  assumes "jr_state row \<noteq> Succeeded" and "jr_state row \<noteq> Dead"
    and "play (process cfg hmac jobId) (JobRows (row # rows) # rs) = (tr, Done ())" and "statuses tr = [st]"
  shows "settled_as (verdict (toJob row) st) (jr_id row) jobId tr"
  using live_run_settles [OF assms] .

theorem outcome_is_settled_witness:
  "settled_as Queued ''j'' ''j'' (fst (play (process sample_config (\<lambda>_ _. []) ''j'')
     (JobRows [sample_row Queued 0] # sample_replies 503 @
       [Time 10, Rep (RBulk (VStr ''closed'')), Rand (1 / 2), Time 10, JobRows [], Rep (RInt 1)])))"
proof -
  let ?rs = "sample_replies 503 @ [Time 10, Rep (RBulk (VStr ''closed'')), Rand (1 / 2), Time 10, JobRows [], Rep (RInt 1)]"
  let ?run = "play (process sample_config (\<lambda>_ _. []) ''j'') (JobRows [sample_row Queued 0] # ?rs)"
  have live: "jr_state (sample_row Queued 0) \<noteq> Succeeded" "jr_state (sample_row Queued 0) \<noteq> Dead"
    by (simp_all add: sample_row_def)
  have "snd ?run = Done ()" and st: "statuses (fst ?run) = [Some 503]"
    by code_simp+
  then have "?run = (fst ?run, Done ())" by (simp only: prod_eq_iff fst_conv snd_conv)
  from outcome_is_settled [OF live this st]
  show ?thesis by (simp add: sample_row_def verdict_def ok_status_def isRetryable_def toJob_def)
qed

end
