(* ===== verification/Json.thy ===== *)
theory Json
  imports Types
begin

text \<open>
  JSON values and the request schemas of the routes. The validator (Ajv, behind Fastify) is a
  parameter; the locale \<open>validator\<close> has what its documentation promises for the schemas of this
  repository: it coerces, drops additional properties and fills defaults, and what it lets through
  conforms to the schema. Two kinds of values are carried by their meaning: \<open>JDate\<close> is an ISO 8601
  text, given by its instant in milliseconds, and \<open>JRaw\<close> an object given by its serialised text.
\<close>

section \<open>Values\<close>

datatype json =
    JNull
  | JBool bool
  | JNum int
  | JStr string
  | JDate ms
  | JRaw string
  | JArr "json list"
  | JObj "(string \<times> json) list"

fun field :: "string \<Rightarrow> json \<Rightarrow> json option" where
  "field k (JObj fs) = map_of fs k"
| "field k _ = None"

fun text_of :: "json option \<Rightarrow> string option" where
  "text_of (Some (JStr s)) = Some s"
| "text_of _ = None"

fun num_of :: "json option \<Rightarrow> int option" where
  "num_of (Some (JNum n)) = Some n"
| "num_of _ = None"

fun date_of :: "json option \<Rightarrow> ms option" where
  "date_of (Some (JDate t)) = Some t"
| "date_of _ = None"

fun raw_of :: "json option \<Rightarrow> string option" where
  "raw_of (Some (JRaw s)) = Some s"
| "raw_of _ = None"

fun opt_json :: "('a \<Rightarrow> json) \<Rightarrow> 'a option \<Rightarrow> json" where
  "opt_json f None = JNull"
| "opt_json f (Some a) = f a"

section \<open>Schemas\<close>

text \<open>The schemas of this repository describe one flat object: which properties it must have, whether
  others are allowed, and what each property is.\<close>

datatype pschema =
    PString nat "nat option"
  | PUuid
  | PDateTime
  | PEnum "string list"
  | PInteger int int "int option"
  | PObject

record schema =
  sc_required :: "string list"
  sc_closed :: bool
  sc_props :: "(string \<times> pschema) list"

definition is_hex :: "char \<Rightarrow> bool" where
  "is_hex c \<longleftrightarrow> c \<in> set ''0123456789abcdefABCDEF''"

definition uuid_text :: "string \<Rightarrow> bool" where
  "uuid_text s \<longleftrightarrow>
     (let t = (if take 9 s = ''urn:uuid:'' then drop 9 s else s)
      in length t = 36 \<and> list_all (\<lambda>n. if n \<in> {8, 13, 18, 23} then t ! n = CHR ''-'' else is_hex (t ! n)) [0..<36])"

fun prop_ok :: "pschema \<Rightarrow> json \<Rightarrow> bool" where
  "prop_ok (PString lo hi) (JStr s) \<longleftrightarrow> lo \<le> length s \<and> (case hi of None \<Rightarrow> True | Some n \<Rightarrow> length s \<le> n)"
| "prop_ok PUuid (JStr s) \<longleftrightarrow> uuid_text s"
| "prop_ok PDateTime (JDate t) \<longleftrightarrow> True"
| "prop_ok (PEnum xs) (JStr s) \<longleftrightarrow> s \<in> set xs"
| "prop_ok (PInteger lo hi d) (JNum n) \<longleftrightarrow> lo \<le> n \<and> n \<le> hi"
| "prop_ok PObject (JRaw s) \<longleftrightarrow> True"
| "prop_ok _ _ \<longleftrightarrow> False"

fun conforms :: "schema \<Rightarrow> json \<Rightarrow> bool" where
  "conforms s (JObj fs) \<longleftrightarrow>
     list_all (\<lambda>k. map_of fs k \<noteq> None) (sc_required s) \<and>
     (sc_closed s \<longrightarrow> list_all (\<lambda>f. map_of (sc_props s) (fst f) \<noteq> None) fs) \<and>
     list_all (\<lambda>kp. case map_of fs (fst kp) of None \<Rightarrow> True | Some v \<Rightarrow> prop_ok (snd kp) v) (sc_props s)"
| "conforms s _ \<longleftrightarrow> False"

fun default_of :: "pschema \<Rightarrow> json option" where
  "default_of (PInteger lo hi (Some d)) = Some (JNum d)"
| "default_of _ = None"

definition with_defaults :: "schema \<Rightarrow> (string \<times> json) list \<Rightarrow> (string \<times> json) list" where
  "with_defaults s fs = fs @ List.map_filter (\<lambda>kp. if map_of fs (fst kp) = None
     then map_option (Pair (fst kp)) (default_of (snd kp)) else None) (sc_props s)"

text \<open>Parameters of a path or query are texts; where the schema asks for an integer, digits are read as
  the number.\<close>

fun coerced :: "pschema \<Rightarrow> json \<Rightarrow> json" where
  "coerced (PInteger lo hi d) (JStr s) = (if s \<noteq> [] \<and> list_all is_digit s then JNum (int (digits_value s)) else JStr s)"
| "coerced _ v = v"

definition prepared :: "schema \<Rightarrow> (string \<times> json) list \<Rightarrow> (string \<times> json) list" where
  "prepared s fs = with_defaults s
     (map (\<lambda>kv. (fst kv, case map_of (sc_props s) (fst kv) of None \<Rightarrow> snd kv | Some p \<Rightarrow> coerced p (snd kv))) fs)"

section \<open>The validator\<close>

locale validator =
  fixes validate :: "schema \<Rightarrow> json \<Rightarrow> string + json"
  assumes sound: "validate s v = Inr v' \<Longrightarrow> conforms s v'"
    and complete: "conforms s (JObj (prepared s fs)) \<Longrightarrow> validate s (JObj fs) = Inr (JObj (prepared s fs))"
begin

lemma accepted_prop:
  assumes "validate s v = Inr v'" and "(k, p) \<in> set (sc_props s)" and "field k v' = Some x"
  shows "prop_ok p x"
proof -
  from sound [OF assms(1)] obtain fs where "v' = JObj fs" "conforms s (JObj fs)" by (cases v') auto
  with assms(2,3) show ?thesis by (auto simp: list_all_iff)
qed

lemma accepted_required:
  assumes "validate s v = Inr v'" and "k \<in> set (sc_required s)"
  obtains x where "field k v' = Some x"
proof -
  from sound [OF assms(1)] obtain fs where "v' = JObj fs" "conforms s (JObj fs)" by (cases v') auto
  with assms(2) that show ?thesis by (auto simp: list_all_iff)
qed

lemma accepted_text:
  assumes "validate s v = Inr v'" and "(k, PString lo (Some hi)) \<in> set (sc_props s)" and "k \<in> set (sc_required s)"
  shows "\<exists>t. text_of (field k v') = Some t \<and> lo \<le> length t \<and> length t \<le> hi"
proof -
  obtain x where x: "field k v' = Some x" by (rule accepted_required [OF assms(1,3)])
  from accepted_prop [OF assms(1,2) x] x show ?thesis by (cases x) auto
qed

lemma accepted_uuid:
  assumes "validate s v = Inr v'" and "(k, PUuid) \<in> set (sc_props s)" and "k \<in> set (sc_required s)"
  shows "\<exists>t. text_of (field k v') = Some t \<and> uuid_text t"
proof -
  obtain x where x: "field k v' = Some x" by (rule accepted_required [OF assms(1,3)])
  from accepted_prop [OF assms(1,2) x] x show ?thesis by (cases x) auto
qed

lemma accepted_num:
  assumes "validate s v = Inr v'" and "(k, PInteger lo hi d) \<in> set (sc_props s)" and "lo \<le> z" and "z \<le> hi"
  shows "lo \<le> the_default z (num_of (field k v')) \<and> the_default z (num_of (field k v')) \<le> hi"
proof (cases "field k v'")
  case (Some x)
  from accepted_prop [OF assms(1,2) Some] Some show ?thesis by (cases x) auto
qed (use assms(3,4) in simp)

end

text \<open>It coerces between types, but a text where a string is asked for stays the text it is; one outside the
  length limits is therefore refused.\<close>

locale text_validator = validator +
  assumes keeps_text: "validate s (JObj fs) = Inr v' \<Longrightarrow> map_of (sc_props s) k = Some (PString lo hi) \<Longrightarrow>
    map_of fs k = Some (JStr t) \<Longrightarrow> field k v' = Some (JStr t)"
begin

lemma refuses_text:
  assumes "map_of (sc_props s) k = Some (PString lo hi)" and "map_of fs k = Some (JStr t)"
    and "\<not> prop_ok (PString lo hi) (JStr t)"
  shows "\<exists>m. validate s (JObj fs) = Inl m"
proof (cases "validate s (JObj fs)")
  case (Inr v')
  from accepted_prop [OF Inr map_of_SomeD [OF assms(1)] keeps_text [OF Inr assms(1,2)]] assms(3) show ?thesis by blast
qed blast

end

text \<open>A validator that keeps the laws: it reads numbers, fills the defaults and refuses what does not conform.\<close>

fun ref_validate :: "schema \<Rightarrow> json \<Rightarrow> string + json" where
  "ref_validate s (JObj fs) =
     (if conforms s (JObj (prepared s fs)) then Inr (JObj (prepared s fs)) else Inl ''must match the schema'')"
| "ref_validate s _ = Inl ''must be object''"

interpretation ref: validator ref_validate
proof unfold_locales
  show "ref_validate s v = Inr v' \<Longrightarrow> conforms s v'" for s v v'
    by (cases v) (auto split: if_splits simp del: conforms.simps)
qed simp

lemma ref_validator: "validator ref_validate"
  by unfold_locales

lemma prepared_text:
  assumes "map_of (sc_props s) k = Some (PString lo hi)" and "map_of fs k = Some (JStr t)"
  shows "map_of (prepared s fs) k = Some (JStr t)"
proof -
  have "map_of (map (\<lambda>kv. (fst kv, f (fst kv) (snd kv))) fs) k = map_option (f k) (map_of fs k)" for f :: "string \<Rightarrow> json \<Rightarrow> json"
    by (induction fs) auto
  from this [of "\<lambda>j v. case map_of (sc_props s) j of None \<Rightarrow> v | Some p \<Rightarrow> coerced p v"] assms show ?thesis
    by (simp add: prepared_def with_defaults_def map_add_def)
qed

interpretation ref_text: text_validator ref_validate
proof unfold_locales
  show "ref_validate s (JObj fs) = Inr v' \<Longrightarrow> map_of (sc_props s) k = Some (PString lo hi) \<Longrightarrow>
      map_of fs k = Some (JStr t) \<Longrightarrow> field k v' = Some (JStr t)" for s fs v' k lo hi t
    using prepared_text [of s k lo hi fs t] by (auto simp del: conforms.simps split: if_splits)
qed

lemma ref_text_validator: "text_validator ref_validate"
  by unfold_locales

end
