(* ===== verification/Http.thy ===== *)
theory Http
  imports Json Jobs
begin

text \<open>
  The HTTP layer: the DTO schemas and handlers of the three controllers, the single error boundary
  of \<open>src/src/routes.ts\<close>, and the two routes of \<open>src/src/entrypoints/api.ts\<close>. Fastify picks the
  route, parses the body and runs the schema check before the handler: \<open>rq_parse\<close> is its own error
  when it could not parse the request, and \<open>validate\<close> the check. \<open>rq_key\<close> is the value, or the
  values, of the \<open>idempotency-key\<close> header.
\<close>

section \<open>Requests, responses and routes\<close>

record request =
  rq_params :: json
  rq_query :: json
  rq_body :: json
  rq_key :: "string list"
  rq_parse :: "(nat \<times> string) option"

record response =
  rs_status :: nat
  rs_body :: json

datatype route =
    Post_webhooks | Get_webhooks | Get_webhook
  | Post_events | Get_job | Get_attempts | Get_jobs
  | Get_stats | Get_dlq | Post_replay
  | Get_root | Get_health

section \<open>The DTOs\<close>

definition JOB_STATES :: "job_state list" where
  "JOB_STATES = [Queued, In_flight, Succeeded, Failed, Dead]"

fun state_name :: "job_state \<Rightarrow> string" where
  "state_name Queued = ''queued''"
| "state_name In_flight = ''in_flight''"
| "state_name Succeeded = ''succeeded''"
| "state_name Failed = ''failed''"
| "state_name Dead = ''dead''"

definition state_of :: "string \<Rightarrow> job_state option" where
  "state_of s = List.find (\<lambda>st. state_name st = s) JOB_STATES"

definition registerWebhookSchema :: schema where
  "registerWebhookSchema = \<lparr>sc_required = [''tenant'', ''url''], sc_closed = True,
     sc_props = [(''tenant'', PString 1 (Some 128)), (''url'', PString 1 (Some 2048))]\<rparr>"

definition listWebhooksSchema :: schema where
  "listWebhooksSchema = \<lparr>sc_required = [''tenant''], sc_closed = False, sc_props = [(''tenant'', PString 1 None)]\<rparr>"

definition getWebhookSchema :: schema where
  "getWebhookSchema = \<lparr>sc_required = [''id''], sc_closed = False, sc_props = [(''id'', PUuid)]\<rparr>"

definition enqueueEventSchema :: schema where
  "enqueueEventSchema = \<lparr>sc_required = [''tenant'', ''webhookId'', ''eventType'', ''payload''], sc_closed = True,
     sc_props = [(''tenant'', PString 1 (Some 128)), (''webhookId'', PUuid), (''eventType'', PString 1 (Some 128)),
       (''payload'', PObject), (''runAt'', PDateTime)]\<rparr>"

definition getJobSchema :: schema where
  "getJobSchema = \<lparr>sc_required = [''id''], sc_closed = False, sc_props = [(''id'', PUuid)]\<rparr>"

definition listJobsSchema :: schema where
  "listJobsSchema = \<lparr>sc_required = [''tenant''], sc_closed = False,
     sc_props = [(''tenant'', PString 1 None), (''state'', PEnum (map state_name JOB_STATES)),
       (''limit'', PInteger 1 200 (Some 50))]\<rparr>"

definition dlqSchema :: schema where
  "dlqSchema = \<lparr>sc_required = [], sc_closed = False, sc_props = [(''limit'', PInteger 1 500 (Some 100))]\<rparr>"

definition replaySchema :: schema where
  "replaySchema = \<lparr>sc_required = [], sc_closed = True, sc_props = [(''limit'', PInteger 1 1000 (Some 100))]\<rparr>"

lemmas schema_defs = registerWebhookSchema_def listWebhooksSchema_def getWebhookSchema_def enqueueEventSchema_def
  getJobSchema_def listJobsSchema_def dlqSchema_def replaySchema_def

section \<open>What the responses show\<close>

definition webhook_fields :: "webhook \<Rightarrow> (string \<times> json) list" where
  "webhook_fields w = [(''id'', JStr (w_id w)), (''tenant'', JStr (w_tenant w)), (''url'', JStr (w_url w)),
     (''isActive'', JBool (w_isActive w)), (''createdAt'', JDate (w_createdAt w))]"

definition job_json :: "job \<Rightarrow> json" where
  "job_json j = JObj [(''id'', JStr (j_id j)), (''tenant'', JStr (j_tenant j)), (''webhookId'', JStr (j_webhookId j)),
     (''eventType'', JStr (j_eventType j)), (''payload'', JRaw (j_payload j)), (''state'', JStr (state_name (j_state j))),
     (''attempts'', JNum (j_attempts j)), (''maxAttempts'', JNum (j_maxAttempts j)), (''runAt'', JDate (j_runAt j)),
     (''lastError'', opt_json JStr (j_lastError j)), (''createdAt'', JDate (j_createdAt j))]"

definition attempt_json :: "attempt_view \<Rightarrow> json" where
  "attempt_json a = JObj [(''jobId'', JStr (a_jobId a)), (''attemptNumber'', JNum (a_attemptNumber a)),
     (''statusCode'', opt_json JNum (a_statusCode a)), (''responseBody'', opt_json JStr (a_responseBody a)),
     (''error'', opt_json JStr (a_error a)), (''durationMs'', JNum (a_durationMs a)), (''attemptedAt'', JDate (a_attemptedAt a))]"

definition stats_json :: "queue_stats \<Rightarrow> json" where
  "stats_json s = JObj [(''ready'', JNum (st_ready s)), (''inflight'', JNum (st_inflight s)),
     (''delayed'', JNum (st_delayed s)), (''dlq'', JNum (st_dlq s))]"

definition counted :: "string \<Rightarrow> json list \<Rightarrow> json" where
  "counted k xs = JObj [(k, JArr xs), (''count'', JNum (int (length xs)))]"

definition ok :: "json \<Rightarrow> response js" where
  "ok v = Ret \<lparr>rs_status = 200, rs_body = v\<rparr>"

section \<open>The handlers\<close>

text \<open>A validated text property; the schema makes it present.\<close>

definition text_field :: "json \<Rightarrow> string \<Rightarrow> string" where
  "text_field v k = the_default [] (text_of (field k v))"

definition post_webhooks :: "(string \<Rightarrow> string option) \<Rightarrow> request \<Rightarrow> response js" where
  "post_webhooks protocol_of rq =
     bind_prog (register protocol_of (text_field (rq_body rq) ''tenant'') (text_field (rq_body rq) ''url'')) (\<lambda>(w, secret).
     Ret \<lparr>rs_status = 201, rs_body = JObj (webhook_fields w @ [(''secret'', JStr secret)])\<rparr>)"

definition get_webhooks :: "request \<Rightarrow> response js" where
  "get_webhooks rq =
     bind_prog (list_webhooks (text_field (rq_query rq) ''tenant'')) (\<lambda>ws.
     ok (JObj [(''webhooks'', JArr (map (\<lambda>w. JObj (webhook_fields w)) ws))]))"

definition get_webhook_route :: "request \<Rightarrow> response js" where
  "get_webhook_route rq = bind_prog (get_webhook (text_field (rq_params rq) ''id'')) (\<lambda>w. ok (JObj (webhook_fields w)))"

definition first_key :: "string list \<Rightarrow> string option" where
  "first_key ks = (case ks of [] \<Rightarrow> None | k # _ \<Rightarrow> Some k)"

definition event_input :: "request \<Rightarrow> enqueue_input" where
  "event_input rq = (let b = rq_body rq in
     \<lparr>in_tenant = text_field b ''tenant'', in_webhookId = text_field b ''webhookId'', in_eventType = text_field b ''eventType'',
      in_payload = the_default [] (raw_of (field ''payload'' b)), in_runAt = date_of (field ''runAt'' b),
      in_idempotencyKey = first_key (rq_key rq)\<rparr>)"

definition post_events :: "request \<Rightarrow> response js" where
  "post_events rq =
     bind_prog (enqueue (event_input rq)) (\<lambda>j.
     Ret \<lparr>rs_status = 202, rs_body = JObj [(''jobId'', JStr (j_id j)), (''state'', JStr (state_name (j_state j)))]\<rparr>)"

definition get_job_route :: "request \<Rightarrow> response js" where
  "get_job_route rq = bind_prog (get_job (text_field (rq_params rq) ''id'')) (\<lambda>j. ok (job_json j))"

definition get_attempts :: "request \<Rightarrow> response js" where
  "get_attempts rq =
     seq (get_job (text_field (rq_params rq) ''id''))
       (bind_prog (listAttempts (text_field (rq_params rq) ''id'')) (\<lambda>attempts.
        ok (counted ''attempts'' (map attempt_json attempts))))"

definition get_jobs :: "request \<Rightarrow> response js" where
  "get_jobs rq =
     (let q = rq_query rq;
          state = (case text_of (field ''state'' q) of None \<Rightarrow> None | Some s \<Rightarrow> state_of s);
          limit = the_default 50 (num_of (field ''limit'' q))
      in bind_prog (list_jobs (text_field q ''tenant'') state limit) (\<lambda>js. ok (counted ''jobs'' (map job_json js))))"

definition get_stats :: "response js" where
  "get_stats = bind_prog stats (\<lambda>s. ok (stats_json s))"

definition get_dlq :: "request \<Rightarrow> response js" where
  "get_dlq rq =
     (let limit = the_default 100 (num_of (field ''limit'' (rq_query rq)))
      in bind_prog (listDlq limit) (\<lambda>js. ok (counted ''jobs'' (map job_json js))))"

definition post_replay :: "request \<Rightarrow> response js" where
  "post_replay rq =
     (let limit = the_default 100 (num_of (field ''limit'' (rq_body rq)))
      in bind_prog (replay limit) (\<lambda>jobIds.
         ok (JObj [(''replayed'', JNum (int (length jobIds))), (''jobIds'', JArr (map JStr jobIds))])))"

definition get_root :: "response js" where
  "get_root = ok (JObj [(''service'', JStr ''webhook-delivery-platform''), (''status'', JStr ''ok'')])"

definition get_health :: "response js" where
  "get_health =
     bind_prog (await_or Ping (\<lambda>pong. Ret (as_str pong = Some ''PONG'')) (\<lambda>err. Ret False)) (\<lambda>redis.
     bind_prog (await_or (Sql SelectOne) (\<lambda>_. Ret True) (\<lambda>err. Ret False)) (\<lambda>postgres.
     await ProcessUptime (\<lambda>uptime.
     let healthy = (redis \<and> postgres)
     in Ret \<lparr>rs_status = (if healthy then 200 else 503),
          rs_body = JObj [(''status'', JStr (if healthy then ''healthy'' else ''unhealthy'')),
            (''checks'', JObj [(''redis'', JBool redis), (''postgres'', JBool postgres)]),
            (''uptimeSeconds'', JNum \<lfloor>as_rat uptime\<rfloor>)]\<rparr>)))"

section \<open>The error boundary\<close>

text \<open>What can reach the error handler: an error a handler threw, a failed schema check, or an error
  of Fastify itself with the status it carries.\<close>

datatype http_error =
    Raised err
  | Validation string
  | Framework nat string

definition error_body :: "string \<Rightarrow> string \<Rightarrow> json" where
  "error_body m code = JObj [(''error'', JStr m), (''code'', JStr code)]"

fun error_handler :: "http_error \<Rightarrow> response" where
  "error_handler (Raised (AppError m st code)) = \<lparr>rs_status = st, rs_body = error_body m code\<rparr>"
| "error_handler (Validation m) = \<lparr>rs_status = 400, rs_body = error_body m ''VALIDATION_ERROR''\<rparr>"
| "error_handler _ = \<lparr>rs_status = 500, rs_body = error_body ''internal server error'' ''INTERNAL''\<rparr>"

section \<open>Routes\<close>

fun route_schema :: "route \<Rightarrow> schema option" where
  "route_schema Post_webhooks = Some registerWebhookSchema"
| "route_schema Get_webhooks = Some listWebhooksSchema"
| "route_schema Get_webhook = Some getWebhookSchema"
| "route_schema Post_events = Some enqueueEventSchema"
| "route_schema Get_job = Some getJobSchema"
| "route_schema Get_attempts = Some getJobSchema"
| "route_schema Get_jobs = Some listJobsSchema"
| "route_schema Get_dlq = Some dlqSchema"
| "route_schema Post_replay = Some replaySchema"
| "route_schema _ = None"

fun handle :: "(string \<Rightarrow> string option) \<Rightarrow> route \<Rightarrow> request \<Rightarrow> response js" where
  "handle protocol_of Post_webhooks rq = post_webhooks protocol_of rq"
| "handle protocol_of Get_webhooks rq = get_webhooks rq"
| "handle protocol_of Get_webhook rq = get_webhook_route rq"
| "handle protocol_of Post_events rq = post_events rq"
| "handle protocol_of Get_job rq = get_job_route rq"
| "handle protocol_of Get_attempts rq = get_attempts rq"
| "handle protocol_of Get_jobs rq = get_jobs rq"
| "handle protocol_of Get_stats rq = get_stats"
| "handle protocol_of Get_dlq rq = get_dlq rq"
| "handle protocol_of Post_replay rq = post_replay rq"
| "handle protocol_of Get_root rq = get_root"
| "handle protocol_of Get_health rq = get_health"

text \<open>The part of the request a route's schema is about, and the request with that part replaced by
  what the validator made of it.\<close>

fun checked_part :: "route \<Rightarrow> request \<Rightarrow> json" where
  "checked_part Post_webhooks rq = rq_body rq"
| "checked_part Post_events rq = rq_body rq"
| "checked_part Post_replay rq = rq_body rq"
| "checked_part Get_webhook rq = rq_params rq"
| "checked_part Get_job rq = rq_params rq"
| "checked_part Get_attempts rq = rq_params rq"
| "checked_part _ rq = rq_query rq"

fun with_part :: "route \<Rightarrow> json \<Rightarrow> request \<Rightarrow> request" where
  "with_part Post_webhooks v rq = rq\<lparr>rq_body := v\<rparr>"
| "with_part Post_events v rq = rq\<lparr>rq_body := v\<rparr>"
| "with_part Post_replay v rq = rq\<lparr>rq_body := v\<rparr>"
| "with_part Get_webhook v rq = rq\<lparr>rq_params := v\<rparr>"
| "with_part Get_job v rq = rq\<lparr>rq_params := v\<rparr>"
| "with_part Get_attempts v rq = rq\<lparr>rq_params := v\<rparr>"
| "with_part _ v rq = rq\<lparr>rq_query := v\<rparr>"

definition check_request :: "(schema \<Rightarrow> json \<Rightarrow> string + json) \<Rightarrow> route \<Rightarrow> request \<Rightarrow> string + request" where
  "check_request validate rt rq =
     (case route_schema rt of
        None \<Rightarrow> Inr rq
      | Some s \<Rightarrow> (case validate s (checked_part rt rq) of Inl m \<Rightarrow> Inl m | Inr v \<Rightarrow> Inr (with_part rt v rq)))"

definition respond ::
    "(string \<Rightarrow> string option) \<Rightarrow> (schema \<Rightarrow> json \<Rightarrow> string + json) \<Rightarrow> route \<Rightarrow> request \<Rightarrow> response js" where
  "respond protocol_of validate rt rq =
     (case rq_parse rq of
        Some (st, m) \<Rightarrow> Ret (error_handler (Framework st m))
      | None \<Rightarrow>
         (case check_request validate rt rq of
            Inl m \<Rightarrow> Ret (error_handler (Validation m))
          | Inr rq' \<Rightarrow> catch_prog (handle protocol_of rt rq') (\<lambda>err. Ret (error_handler (Raised err)))))"

end
