(* ===== verification/Enqueue_Safety.thy ===== *)
theory Enqueue_Safety
  imports Jobs
begin

text \<open>
  What \<open>enqueue\<close> and \<open>replay\<close> of \<open>job.service.ts\<close> guarantee about every run, whatever the services
  answer and wherever the process dies (plays, theory \<open>Traces\<close>): who may create a job, that a row
  exists in Postgres before its id is on a queue, and what a replay does with every id it takes off
  the dead-letter queue. How a failed creation gives the idempotency slot back is in \<open>End_To_End\<close>,
  with the store.
\<close>

section \<open>Reading a trace\<close>

fun creates :: "eff \<Rightarrow> bool" where
  "creates (Sql (InsertJob t w e p ra)) = True"
| "creates _ = False"

text \<open>The id a command puts on a queue, with the due time on the delayed set.\<close>

fun queued_by :: "eff \<Rightarrow> (jobid \<times> ms option) option" where
  "queued_by (RCmd (Lpush k j)) = (if k = READY_QUEUE then Some (j, None) else None)"
| "queued_by (RCmd (Zadd k due j)) = (if k = DELAYED then Some (j, Some due) else None)"
| "queued_by _ = None"

definition pushes :: "event list \<Rightarrow> (jobid \<times> ms option) list" where
  "pushes tr = List.map_filter (\<lambda>e. queued_by (fst e)) tr"

text \<open>The rows that creations got back, in order.\<close>

definition created_rows :: "event list \<Rightarrow> job_row list" where
  "created_rows tr = List.map_filter (\<lambda>(c, r). if creates c \<and> \<not> rejected r then
     (case job_rows r of [] \<Rightarrow> None | row # _ \<Rightarrow> Some row) else None) tr"

lemma enqueue_trace_simps [simp]:
  "pushes [] = []" "pushes ((c, r) # tr) = (case queued_by c of None \<Rightarrow> pushes tr | Some x \<Rightarrow> x # pushes tr)"
  "created_rows [] = []"
  "created_rows ((c, r) # tr) = (if creates c \<and> \<not> rejected r then
     (case job_rows r of [] \<Rightarrow> created_rows tr | row # _ \<Rightarrow> row # created_rows tr) else created_rows tr)"
  by (auto simp: pushes_def created_rows_def List.map_filter_def split: option.split list.split)

text \<open>The webhook was read, belongs to the caller's tenant and is active.\<close>

definition owned_active :: "enqueue_input \<Rightarrow> event list \<Rightarrow> bool" where
  "owned_active i tr \<longleftrightarrow> (\<exists>r row rows. (Sql (SelectWebhook (in_webhookId i)), r) \<in> set tr \<and>
     webhook_rows r = row # rows \<and> wr_tenant row = in_tenant i \<and> wr_isactive row)"

text \<open>The idempotency slot, if a key was given, was won, or pointed at a job without a row.\<close>

definition slot_won :: "enqueue_input \<Rightarrow> event list \<Rightarrow> bool" where
  "slot_won i tr \<longleftrightarrow> (case key_of (in_idempotencyKey i) of None \<Rightarrow> True
     | Some k \<Rightarrow> \<exists>r. (RCmd (SetNxPx (redisKey (in_tenant i) k) (VStr PENDING) TTL_MS), r) \<in> set tr \<and> \<not> rejected r \<and>
         (as_str r = Some ''OK'' \<or> (\<exists>j r'. (Sql (SelectJob j), r') \<in> set tr \<and> \<not> rejected r' \<and> job_rows r' = [])))"

lemmas enqueue_code = enqueue_def getOwnedBy_def find_webhook_def idempotency_gate_def begin_slot_def find_job_def first_job_def
  create_job_def insert_job_def pushDelayed_def push_def complete_slot_def abort_slot_def

lemma wp_begin_result [wp_simps]:
  "wp (case x of New \<Rightarrow> p | Duplicate j \<Rightarrow> q j | Pending \<Rightarrow> r) Q E C tr =
     ((x = New \<longrightarrow> wp p Q E C tr) \<and> (\<forall>j. x = Duplicate j \<longrightarrow> wp (q j) Q E C tr) \<and> (x = Pending \<longrightarrow> wp r Q E C tr))"
  by (cases x) auto

section \<open>Replaying the dead-letter queue\<close>

text \<open>The ids a replay holds: taken off the dead-letter queue and not yet back on the ready list, and
  not yet dropped because they have no row; and the ids it has put back.\<close>

fun hold :: "jobid list \<Rightarrow> event \<Rightarrow> jobid list" where
  "hold h (RCmd (Rpop k), r) = (case as_str r of None \<Rightarrow> h | Some j \<Rightarrow> if k = DLQ \<and> j \<noteq> [] then h @ [j] else h)"
| "hold h (Sql (ResetJob j), r) = (if \<not> rejected r \<and> job_rows r = [] then remove1 j h else h)"
| "hold h (RCmd (Lpush k j), r) = (if k = READY_QUEUE \<and> \<not> rejected r then remove1 j h else h)"
| "hold h _ = h"

definition in_hand :: "event list \<Rightarrow> jobid list" where
  "in_hand tr = foldl hold [] tr"

definition requeued :: "event list \<Rightarrow> jobid list" where
  "requeued tr = List.map_filter (\<lambda>(c, r). case queued_by c of
     Some (j, None) \<Rightarrow> if rejected r then None else Some j | _ \<Rightarrow> None) tr"

lemma in_hand_snoc [simp]: "in_hand [] = []" "in_hand (tr @ [ev]) = hold (in_hand tr) ev"
  "in_hand (tr @ [ev, ev']) = hold (hold (in_hand tr) ev) ev'"
  "in_hand (tr @ [ev, ev', ev'']) = hold (hold (hold (in_hand tr) ev) ev') ev''"
  by (simp_all add: in_hand_def)

lemma requeued_simps [simp]: "requeued [] = []"
  "requeued ((c, r) # tr) = (case queued_by c of
     Some (j, None) \<Rightarrow> if rejected r then requeued tr else j # requeued tr | _ \<Rightarrow> requeued tr)"
  "requeued (tr @ tr') = requeued tr @ requeued tr'"
  by (auto simp: requeued_def List.map_filter_def split: option.split)

text \<open>An id is put back on the ready list right after it was popped and its row was reset.\<close>

definition reset_first :: "event list \<Rightarrow> eff \<Rightarrow> bool" where
  "reset_first tr c \<longleftrightarrow> (\<forall>j. c = RCmd (Lpush READY_QUEUE j) \<longrightarrow>
     (\<exists>tr0 r1 r2. tr = tr0 @ [(RCmd (Rpop DLQ), r1), (Sql (ResetJob j), r2)] \<and>
        as_str r1 = Some j \<and> \<not> rejected r2 \<and> job_rows r2 \<noteq> []))"

lemma reset_first_other [simp]: "\<forall>j. c \<noteq> RCmd (Lpush READY_QUEUE j) \<Longrightarrow> reset_first tr c"
  by (simp add: reset_first_def)

lemma reset_first_push [simp]:
  "as_str r1 = Some j \<Longrightarrow> \<not> rejected r2 \<Longrightarrow> job_rows r2 \<noteq> [] \<Longrightarrow>
     reset_first (tr @ [(RCmd (Rpop DLQ), r1), (Sql (ResetJob j), r2)]) (RCmd (Lpush READY_QUEUE j))"
  by (auto simp: reset_first_def)

lemmas replay_code = popDlq_def resetForReplay_def push_def first_job_def

lemma wp_replay_loop:
  assumes "in_hand tr = []" and "requeued tr = replayed"
  shows "wp (replay_loop n replayed)
    (\<lambda>tr ids. in_hand tr = [] \<and> requeued tr = ids \<and> length ids \<le> length replayed + n)
    (\<lambda>tr _. length (in_hand tr) \<le> 1)
    (\<lambda>tr c. length (in_hand tr) \<le> 1 \<and> reset_first tr c) tr"
  using assms
proof (induction n arbitrary: tr replayed)
  case 0
  then show ?case by simp
next
  case (Suc n)
  have ih: "wp (replay_loop n replayed')
      (\<lambda>s ids. in_hand s = [] \<and> requeued s = ids \<and> length ids \<le> Suc (length (requeued tr) + n))
      (\<lambda>tr _. length (in_hand tr) \<le> 1) (\<lambda>tr c. length (in_hand tr) \<le> 1 \<and> reset_first tr c) tr'"
    if "in_hand tr' = []" "requeued tr' = replayed'" "length replayed' \<le> Suc (length (requeued tr))" for tr' replayed'
    using Suc.IH [OF that(1,2)] by (rule wp_mono) (use that(3) in auto)
  show ?case
    using Suc.prems by (auto simp: wp_simps replay_code intro!: ih [unfolded One_nat_def])
qed

section \<open>Properties\<close>

text \<open>C21: Only the owner of an active webhook creates jobs, and a key creates at most one per call. In
  every run of \<open>enqueue\<close>, the first command reads the webhook's row, and no other command, to Redis or
  to Postgres, is sent before that row has come back with the caller's tenant and active: for a
  foreign, unknown or inactive webhook nothing is written, the idempotency slot included. An
  insertion into the jobs table is of the caller's own event, is sent at most once, and, if an
  idempotency key was given, only after its slot was won or pointed at a job that has no row.\<close>

theorem enqueue_is_guarded:
  assumes "play (enqueue i) rs = (tr, out)"
  shows "(\<forall>n < length tr. creates (fst (tr ! n)) \<longrightarrow>
       fst (tr ! n) = Sql (InsertJob (in_tenant i) (in_webhookId i) (in_eventType i) (in_payload i) (in_runAt i)) \<and>
       owned_active i (take n tr) \<and> slot_won i (take n tr)) \<and>
     length (filter creates (sent (tr, out))) \<le> 1 \<and>
     (\<forall>n < length (sent (tr, out)).
        if n = 0 then sent (tr, out) ! n = Sql (SelectWebhook (in_webhookId i)) else owned_active i (take n tr))"
proof -
  have c: "wp (enqueue i) (\<lambda>tr _. True) (\<lambda>tr _. True)
     (\<lambda>tr c. creates c \<longrightarrow>
       c = Sql (InsertJob (in_tenant i) (in_webhookId i) (in_eventType i) (in_payload i) (in_runAt i)) \<and>
       owned_active i tr \<and> slot_won i tr) []"
    by (auto simp: wp_simps enqueue_code owned_active_def slot_won_def toWebhook_def split: if_splits option.splits)
  have n: "wp (enqueue i) (\<lambda>tr _. length (filter creates (map fst tr)) \<le> 1) (\<lambda>tr _. length (filter creates (map fst tr)) \<le> 1)
     (\<lambda>tr c. length (filter creates (map fst tr @ [c])) \<le> 1) []"
    by (auto simp: wp_simps enqueue_code split: if_splits option.splits)
  have g: "wp (enqueue i) (\<lambda>tr _. True) (\<lambda>tr _. True)
     (\<lambda>tr c. if tr = [] then c = Sql (SelectWebhook (in_webhookId i)) else owned_active i tr) []"
    by (auto simp: wp_simps enqueue_code owned_active_def toWebhook_def split: if_splits option.splits)
  have "if n = 0 then sent (tr, out) ! n = Sql (SelectWebhook (in_webhookId i)) else owned_active i (take n tr)"
    if "n < length (sent (tr, out))" for n
  proof -
    have "n = 0 \<or> take n tr \<noteq> []" using that by (cases out) auto
    then show ?thesis using wp_sent_each [OF g assms that] by auto
  qed
  then show ?thesis
    using wp_sent_nth [OF c assms] wp_sent [where P = "\<lambda>es. length (filter creates es) \<le> 1", OF n, of rs] assms
    by simp
qed

text \<open>A request with a key, a webhook and a job row, for the closed examples.\<close>

definition sample_input :: "string \<Rightarrow> string option \<Rightarrow> enqueue_input" where
  "sample_input tenant k = \<lparr>in_tenant = tenant, in_webhookId = ''w'', in_eventType = ''e'', in_payload = ''{}'',
     in_runAt = None, in_idempotencyKey = k\<rparr>"

definition webhook_of :: "string \<Rightarrow> webhook_row" where
  "webhook_of tenant = \<lparr>wr_id = ''w'', wr_tenant = tenant, wr_url = ''http://h/'', wr_secret = ''s'', wr_isactive = True, wr_createdat = 0\<rparr>"

definition new_row :: "string \<Rightarrow> string \<Rightarrow> job_row" where
  "new_row tenant j = \<lparr>jr_id = j, jr_tenant = tenant, jr_webhookid = ''w'', jr_eventtype = ''e'', jr_payload = ''{}'',
     jr_state = Queued, jr_attempts = 0, jr_maxattempts = 5, jr_runat = 3, jr_lasterror = None,
     jr_createdat = 3, jr_updatedat = 3\<rparr>"

theorem enqueue_is_guarded_witness:
  "owned_active (sample_input ''t'' None) (take 1 (fst (play (enqueue (sample_input ''t'' None))
     [WebhookRows [webhook_of ''t''], JobRows [new_row ''t'' ''j''], Time 4, Rep (RInt 1)])))"
proof -
  let ?run = "play (enqueue (sample_input ''t'' None)) [WebhookRows [webhook_of ''t''], JobRows [new_row ''t'' ''j''], Time 4, Rep (RInt 1)]"
  have "length (fst ?run) = 4" and "creates (fst (fst ?run ! 1))" by code_simp+
  with conjunct1 [OF enqueue_is_guarded [OF prod.collapse [symmetric, of ?run]]] show ?thesis by simp
qed

text \<open>C22: Postgres first, then exactly one queue. In every run of \<open>enqueue\<close> an id goes to a queue only
  after the insertion has returned its row. A run that returns after creating a row returns that
  job, and has put its id on one queue once: on the delayed set, with the row's due time as score,
  if that is later than the clock it read, else on the ready list. A run that returns without
  creating a row has put nothing on a queue.\<close>

theorem enqueue_row_then_queue:
  assumes "play (enqueue i) rs = (tr, out)"
  shows "(\<forall>n < length tr. \<forall>j due. queued_by (fst (tr ! n)) = Some (j, due) \<longrightarrow>
       (\<exists>row. created_rows (take n tr) = [row] \<and> jr_id row = j)) \<and>
     (\<forall>j. out = Done j \<longrightarrow> (case created_rows tr of
         [] \<Rightarrow> pushes tr = []
       | row # _ \<Rightarrow> j = toJob row \<and> (\<exists>r. (DateNow, r) \<in> set tr \<and>
           pushes tr = [(jr_id row, if jr_runat row > as_int r then Some (jr_runat row) else None)])))"
proof -
  have c: "wp (enqueue i) (\<lambda>tr _. True) (\<lambda>tr _. True)
     (\<lambda>tr c. \<forall>j due. queued_by c = Some (j, due) \<longrightarrow> (\<exists>row. created_rows tr = [row] \<and> jr_id row = j)) []"
    by (auto simp: wp_simps enqueue_code toJob_def split: if_splits option.splits)
  have q: "wp (enqueue i)
     (\<lambda>tr j. case created_rows tr of [] \<Rightarrow> pushes tr = []
       | row # _ \<Rightarrow> j = toJob row \<and> (\<exists>r. (DateNow, r) \<in> set tr \<and>
           pushes tr = [(jr_id row, if jr_runat row > as_int r then Some (jr_runat row) else None)]))
     (\<lambda>tr _. True) (\<lambda>tr c. True) []"
    by (auto simp: wp_simps enqueue_code toJob_def split: if_splits option.splits)
  show ?thesis
    using wp_sent_nth [OF c assms] wp_done [OF q] assms by blast
qed

theorem enqueue_row_then_queue_witness:
  "pushes (fst (play (enqueue (sample_input ''t'' None))
     [WebhookRows [webhook_of ''t''], JobRows [new_row ''t'' ''j''], Time 4, Rep (RInt 1)])) = [(''j'', None)]"
proof -
  let ?run = "play (enqueue (sample_input ''t'' None)) [WebhookRows [webhook_of ''t''], JobRows [new_row ''t'' ''j''], Time 4, Rep (RInt 1)]"
  have "snd ?run = Done (toJob (new_row ''t'' ''j''))" and "created_rows (fst ?run) = [new_row ''t'' ''j'']"
    and "\<forall>(c, r) \<in> set (fst ?run). c = DateNow \<longrightarrow> as_int r = 4" by code_simp+
  with conjunct2 [OF enqueue_row_then_queue [OF prod.collapse [symmetric, of ?run]]]
  show ?thesis by (auto simp: new_row_def)
qed

text \<open>The slot is also given back when the job already exists. If the job was inserted and pushed,
  and only the reply of the last step, recording its id in the slot, is lost, \<open>enqueue\<close> throws and
  deletes the slot: the client's retry with the same key will create a second job.\<close>

theorem lost_completion_frees_slot:
  "play (enqueue (sample_input ''t'' (Some ''k'')))
     [WebhookRows [webhook_of ''t''], Rep (RBulk (VStr ''OK'')), JobRows [new_row ''t'' ''j''], Time 4, Rep (RInt 1),
      Rejected ''Connection is closed.'', Rep (RInt 1)] =
   ([(Sql (SelectWebhook ''w''), WebhookRows [webhook_of ''t'']),
     (RCmd (SetNxPx (redisKey ''t'' ''k'') (VStr PENDING) TTL_MS), Rep (RBulk (VStr ''OK''))),
     (Sql (InsertJob ''t'' ''w'' ''e'' ''{}'' None), JobRows [new_row ''t'' ''j'']),
     (DateNow, Time 4),
     (RCmd (Lpush READY_QUEUE ''j''), Rep (RInt 1)),
     (RCmd (SetPx (redisKey ''t'' ''k'') (VStr ''j'') TTL_MS), Rejected ''Connection is closed.''),
     (RCmd (Del (redisKey ''t'' ''k'')), Rep (RInt 1))],
    Threw (Failure ''Connection is closed.''))"
  by code_simp

text \<open>C24: A replay loses at most the id it holds. In every run of \<open>replay\<close>, each id that goes back on
  the ready list was popped from the dead-letter queue and its row reset to queued right before;
  at any point, whatever fails, at most one popped id is neither back on the ready list nor dropped
  for having no row. A run that returns holds none, and returns exactly the ids it put back, in
  order, at most \<open>limit\<close> of them.\<close>

theorem replay_accounts_for_ids:
  assumes "play (replay limit) rs = (tr, out)"
  shows "length (in_hand tr) \<le> 1 \<and> (\<forall>n < length tr. reset_first (take n tr) (fst (tr ! n))) \<and>
    (\<forall>ids. out = Done ids \<longrightarrow> in_hand tr = [] \<and> requeued tr = ids \<and> length ids \<le> nat limit)"
proof -
  have w: "wp (replay limit) (\<lambda>tr ids. in_hand tr = [] \<and> requeued tr = ids \<and> length ids \<le> nat limit)
      (\<lambda>tr _. length (in_hand tr) \<le> 1) (\<lambda>tr c. length (in_hand tr) \<le> 1 \<and> reset_first tr c) []"
    using wp_replay_loop [of "[]" "[]" "nat limit"] by (simp add: replay_def)
  show ?thesis
    using wp_play [OF w assms] by (cases out) auto
qed

theorem replay_accounts_for_ids_witness:
  "requeued (fst (play (replay 2) [Rep (RBulk (VStr ''a'')), JobRows [new_row ''t'' ''a''], Rep (RInt 1), Rep RNil])) = [''a'']"
proof -
  let ?run = "play (replay 2) [Rep (RBulk (VStr ''a'')), JobRows [new_row ''t'' ''a''], Rep (RInt 1), Rep RNil]"
  have "snd ?run = Done [''a'']" by code_simp
  with replay_accounts_for_ids [OF prod.collapse [symmetric, of ?run]] show ?thesis by simp
qed

end
