(* ===== verification/Http_Safety.thy ===== *)
theory Http_Safety
  imports Http Enqueue_Safety
begin

text \<open>
  What the API guarantees about every request and every run of its handler (plays, theory
  \<open>Traces\<close>): how errors leave it, that reads change nothing, that stored secrets stay inside, and
  that what reaches the stores has passed the schemas.
\<close>

section \<open>The handlers' verification conditions\<close>

lemmas service_code = enqueue_code register_def assertDeliverableUrl_def insert_webhook_def list_webhooks_def
  find_webhooks_of_def get_webhook_def get_job_def listAttempts_def findByJobId_def list_jobs_def find_jobs_of_def
  stats_def listDlq_def peekDlq_def findByIds_def

lemmas handler_code = post_webhooks_def get_webhooks_def get_webhook_route_def post_events_def get_job_route_def
  get_attempts_def get_jobs_def get_stats_def get_dlq_def get_root_def get_health_def ok_def

lemma wp_respond:
  assumes "\<And>st m. Q tr (error_handler (Framework st m))" and "\<And>m. Q tr (error_handler (Validation m))"
    and "\<And>rq'. check_request validate rt rq = Inr rq' \<Longrightarrow>
       wp (handle protocol_of rt rq') Q (\<lambda>tr e. Q tr (error_handler (Raised e))) C tr"
  shows "wp (respond protocol_of validate rt rq) Q E C tr"
  using assms by (auto simp: respond_def wp_simps split: option.splits sum.splits)

text \<open>Errors of the services: one of the domain classes, or a failed call.\<close>

fun service_error :: "err \<Rightarrow> bool" where
  "service_error (Failure m) = True"
| "service_error (AppError m st code) \<longleftrightarrow> (st, code) \<in> {(404, ''NOT_FOUND''), (400, ''VALIDATION_ERROR''), (409, ''CONFLICT'')}"

lemma service_error_classes [simp]:
  "service_error (NotFoundError m)" "service_error (ValidationError m)" "service_error (ConflictError m)"
  by (simp_all add: NotFoundError_def ValidationError_def ConflictError_def)

lemma wp_replay_any:
  assumes "\<And>tr. Q tr" and "\<And>m tr. E tr (Failure m)" and "\<And>tr c. C tr c"
  shows "wp (replay_loop n replayed) (\<lambda>tr _. Q tr) E C tr"
  using assms by (induction n arbitrary: tr replayed) (simp_all add: wp_simps replay_code)

lemma handlers_throw_service_errors:
  "wp (handle protocol_of rt rq) (\<lambda>tr res. rs_status res \<in> {200, 201, 202, 503}) (\<lambda>tr e. service_error e) (\<lambda>tr c. True) tr"
proof (cases rt)
  case Post_replay
  have "wp (replay_loop n replayed) (\<lambda>tr _. True) (\<lambda>tr e. service_error e) (\<lambda>tr c. True) tr" for n replayed
    by (rule wp_replay_any) simp_all
  from this [of _ "[]"] show ?thesis
    by (simp add: Post_replay post_replay_def replay_def ok_def wp_simps)
qed (auto simp: wp_simps handler_code service_code split: option.splits)

text \<open>What a client sees of an error.\<close>

definition error_response :: "response \<Rightarrow> bool" where
  "error_response res \<longleftrightarrow> (\<exists>m code. rs_body res = error_body m code \<and>
     (rs_status res, code) \<in> {(400, ''VALIDATION_ERROR''), (404, ''NOT_FOUND''), (409, ''CONFLICT''), (500, ''INTERNAL'')} \<and>
     (rs_status res = 500 \<longrightarrow> m = ''internal server error''))"

lemma error_handler_response: "service_error e \<Longrightarrow> error_response (error_handler (Raised e))"
  by (cases e) (auto simp: error_response_def)

lemma error_handler_others [simp]:
  "error_response (error_handler (Validation m))" "error_response (error_handler (Framework st m))"
  by (auto simp: error_response_def)

section \<open>Reads\<close>

fun reads :: "eff \<Rightarrow> bool" where
  "reads (RCmd (Llen k)) = True"
| "reads (RCmd (Zcard k)) = True"
| "reads (RCmd (Lrange k a b)) = True"
| "reads (Sql (SelectJob i)) = True"
| "reads (Sql (SelectJobsAny ids)) = True"
| "reads (Sql (SelectJobsWhere t st n)) = True"
| "reads (Sql (SelectAttempts i)) = True"
| "reads (Sql (SelectWebhook i)) = True"
| "reads (Sql (SelectWebhooksOf t)) = True"
| "reads (Sql SelectOne) = True"
| "reads Ping = True"
| "reads ProcessUptime = True"
| "reads _ = False"

fun is_get :: "route \<Rightarrow> bool" where
  "is_get Post_webhooks = False"
| "is_get Post_events = False"
| "is_get Post_replay = False"
| "is_get _ = True"

section \<open>Secrets\<close>

text \<open>A function of the replies that changes nothing but stored secrets.\<close>

definition recode :: "(webhook_row \<Rightarrow> string) \<Rightarrow> webhook_row \<Rightarrow> webhook_row" where
  "recode f row = row\<lparr>wr_secret := f row\<rparr>"

fun other_secrets :: "(webhook_row \<Rightarrow> string) \<Rightarrow> (string list \<Rightarrow> string list) \<Rightarrow> resp \<Rightarrow> resp" where
  "other_secrets f g (WebhookRows rows) = WebhookRows (map (recode f) rows)"
| "other_secrets f g (SecretRows xs) = SecretRows (g xs)"
| "other_secrets f g r = r"

lemma other_secrets_reads [simp]:
  "job_rows (other_secrets f g r) = job_rows r" "attempt_rows (other_secrets f g r) = attempt_rows r"
  "as_int (other_secrets f g r) = as_int r" "as_str (other_secrets f g r) = as_str r"
  "as_strs (other_secrets f g r) = as_strs r" "as_rat (other_secrets f g r) = as_rat r"
  "rejected (other_secrets f g r) = rejected r" "reason (other_secrets f g r) = reason r"
  "webhook_rows (other_secrets f g r) = map (recode f) (webhook_rows r)"
  "toWebhook (recode f row) = toWebhook row"
  by (cases r; simp)+ (simp add: recode_def toWebhook_def)

text \<open>A program that treats a reply and its changed version alike, at every step.\<close>

primrec insensitive :: "(resp \<Rightarrow> resp) \<Rightarrow> 'a js \<Rightarrow> bool" where
  "insensitive h (Ret a) = True"
| "insensitive h (Throw e) = True"
| "insensitive h (Do c k) = ((\<forall>r. k (h r) = k r) \<and> (\<forall>r. insensitive h (k r)))"

lemma insensitive_play: "insensitive h p \<Longrightarrow> snd (play p (map h rs)) = snd (play p rs) \<and> sent (play p (map h rs)) = sent (play p rs)"
proof (induction p arbitrary: rs)
  case (Do c k)
  show ?case
  proof (cases rs)
    case (Cons r rs')
    from Do.prems have "insensitive h (k r)" "k (h r) = k r" by simp_all
    from Do.IH [OF _ this(1), of rs'] this(2)
    have ih: "snd (play (k (h r)) (map h rs')) = snd (play (k r) rs')" "sent (play (k (h r)) (map h rs')) = sent (play (k r) rs')"
      by simp_all
    obtain tr1 out1 tr2 out2 where p: "play (k (h r)) (map h rs') = (tr1, out1)" "play (k r) rs' = (tr2, out2)"
      by (metis prod.exhaust)
    with ih show ?thesis unfolding Cons by (cases out1) auto
  qed simp
qed simp_all

named_theorems insensitive_simps \<open>insensitivity of the combinators\<close>

lemma insensitive_bind [insensitive_simps]:
  "insensitive h p \<Longrightarrow> (\<And>a. insensitive h (f a)) \<Longrightarrow> insensitive h (bind_prog p f)"
  by (induction p) auto

lemma insensitive_catch [insensitive_simps]:
  "insensitive h p \<Longrightarrow> (\<And>e. insensitive h (g e)) \<Longrightarrow> insensitive h (catch_prog p g)"
  by (induction p) auto

lemma insensitive_await [insensitive_simps]:
  assumes "\<And>r. k (other_secrets f g r) = k r" and "\<And>r. insensitive (other_secrets f g) (k r)"
  shows "insensitive (other_secrets f g) (await c k)"
proof -
  have "(case other_secrets f g r of Rejected m \<Rightarrow> Throw (Failure m) | _ \<Rightarrow> k (other_secrets f g r)) =
      (case r of Rejected m \<Rightarrow> Throw (Failure m) | _ \<Rightarrow> k r)" for r
    using assms(1) [of r] by (cases r) simp_all
  moreover have "insensitive (other_secrets f g) (case r of Rejected m \<Rightarrow> Throw (Failure m) | _ \<Rightarrow> k r)" for r
    using assms(2) [of r] by (cases r) simp_all
  ultimately show ?thesis by (simp add: await_def)
qed

lemma insensitive_await_or [insensitive_simps]:
  assumes "\<And>r. k (other_secrets f g r) = k r" and "\<And>r. insensitive (other_secrets f g) (k r)" and "\<And>m. insensitive (other_secrets f g) (h m)"
  shows "insensitive (other_secrets f g) (await_or c k h)"
  using assms by (simp add: await_or_def)

lemma insensitive_cases [insensitive_simps]:
  "insensitive h p \<Longrightarrow> (\<And>a. insensitive h (q a)) \<Longrightarrow> insensitive h (case x of None \<Rightarrow> p | Some a \<Rightarrow> q a)"
  "insensitive h p \<Longrightarrow> (\<And>a as. insensitive h (qs a as)) \<Longrightarrow> insensitive h (case xs of [] \<Rightarrow> p | a # as \<Rightarrow> qs a as)"
  "insensitive h p \<Longrightarrow> insensitive h p' \<Longrightarrow> insensitive h (if b then p else p')"
  "insensitive h p \<Longrightarrow> (\<And>j. insensitive h (d j)) \<Longrightarrow> insensitive h p' \<Longrightarrow>
     insensitive h (case br of New \<Rightarrow> p | Duplicate j \<Rightarrow> d j | Pending \<Rightarrow> p')"
  "(\<And>a b. insensitive h (c a b)) \<Longrightarrow> insensitive h (case ab of (a, b) \<Rightarrow> c a b)"
  by (simp_all split: option.split list.split begin_result.split prod.split)

lemma first_webhook_recode:
  "(case map (recode f) rows of [] \<Rightarrow> Ret None | row # rows' \<Rightarrow> Ret (Some (toWebhook row))) =
     (case rows of [] \<Rightarrow> Ret None | row # rows' \<Rightarrow> Ret (Some (toWebhook row)))"
  "(case map (recode f) rows of [] \<Rightarrow> Throw e | row # rows' \<Rightarrow> Ret (toWebhook row)) =
     (case rows of [] \<Rightarrow> Throw e | row # rows' \<Rightarrow> Ret (toWebhook row))"
  by (cases rows; simp)+

lemma insensitive_replay: "insensitive (other_secrets f g) (replay_loop n replayed)"
  by (induction n arbitrary: replayed)
    (auto simp: replay_code intro!: insensitive_simps)

lemma insensitive_handle: "insensitive (other_secrets f g) (handle protocol_of rt rq)"
proof (cases rt)
  case Post_replay
  show ?thesis
    by (auto simp: Post_replay post_replay_def replay_def ok_def Let_def intro!: insensitive_bind insensitive_replay)
qed (auto simp: handler_code service_code comp_def Let_def first_webhook_recode intro!: insensitive_simps)

section \<open>Limits\<close>

text \<open>What the schemas promise of the commands that carry a client's values.\<close>

fun within_limits :: "eff \<Rightarrow> bool" where
  "within_limits (Sql (InsertJob t w e p ra)) \<longleftrightarrow> 1 \<le> length t \<and> length t \<le> 128 \<and> uuid_text w \<and> 1 \<le> length e \<and> length e \<le> 128"
| "within_limits (Sql (InsertWebhook t u s)) \<longleftrightarrow> 1 \<le> length t \<and> length t \<le> 128 \<and> 1 \<le> length u \<and> length u \<le> 2048"
| "within_limits (Sql (SelectJobsWhere t st n)) \<longleftrightarrow> 1 \<le> n \<and> n \<le> 200"
| "within_limits (RCmd (Lrange k a b)) \<longleftrightarrow> a = 0 \<and> 0 \<le> b \<and> b < 500"
| "within_limits c \<longleftrightarrow> True"

fun pops :: "eff \<Rightarrow> bool" where
  "pops (RCmd (Rpop k)) = True"
| "pops _ = False"

definition pop_count :: "eff list \<Rightarrow> nat" where
  "pop_count es = length (filter pops es)"

lemma pop_count_simps [simp]:
  "pop_count [] = 0" "pop_count (c # es) = (if pops c then 1 else 0) + pop_count es" "pop_count (es @ fs) = pop_count es + pop_count fs"
  by (auto simp: pop_count_def)

lemma check_requestE:
  assumes "check_request validate rt rq = Inr rq'" and "route_schema rt = Some s"
  obtains v where "validate s (checked_part rt rq) = Inr v" and "rq' = with_part rt v rq"
  using assms by (auto simp: check_request_def split: sum.splits)

lemma handlers_within_limits:
  assumes "validator validate" and "check_request validate rt rq = Inr rq'"
  shows "wp (handle protocol_of rt rq') (\<lambda>tr _. True) (\<lambda>tr _. True) (\<lambda>tr c. within_limits c) []"
proof (cases rt)
  case Post_webhooks
  obtain v where v: "validate registerWebhookSchema (rq_body rq) = Inr v" "rq' = rq\<lparr>rq_body := v\<rparr>"
    using check_requestE [OF assms(2)] Post_webhooks by auto
  from validator.accepted_text [OF assms(1) v(1), of "''tenant''"] validator.accepted_text [OF assms(1) v(1), of "''url''"] v(2) Post_webhooks
  show ?thesis by (auto simp: wp_simps handler_code service_code schema_defs text_field_def Suc_le_eq)
next
  case Post_events
  obtain v where v: "validate enqueueEventSchema (rq_body rq) = Inr v" "rq' = rq\<lparr>rq_body := v\<rparr>"
    using check_requestE [OF assms(2)] Post_events by auto
  from validator.accepted_text [OF assms(1) v(1), of "''tenant''"] validator.accepted_text [OF assms(1) v(1), of "''eventType''"]
    validator.accepted_uuid [OF assms(1) v(1), of "''webhookId''"]
  have "1 \<le> length (in_tenant (event_input rq'))" "length (in_tenant (event_input rq')) \<le> 128"
    "1 \<le> length (in_eventType (event_input rq'))" "length (in_eventType (event_input rq')) \<le> 128"
    "uuid_text (in_webhookId (event_input rq'))"
    using v(2) by (auto simp: event_input_def schema_defs text_field_def)
  with Post_events show ?thesis by (auto simp: wp_simps handler_code service_code)
next
  case Get_jobs
  obtain v where v: "validate listJobsSchema (rq_query rq) = Inr v" "rq' = rq\<lparr>rq_query := v\<rparr>"
    using check_requestE [OF assms(2)] Get_jobs by auto
  from validator.accepted_num [OF assms(1) v(1), of "''limit''" 1 200 "Some 50" 50] v(2) Get_jobs
  show ?thesis by (auto simp: wp_simps handler_code service_code schema_defs)
next
  case Get_dlq
  obtain v where v: "validate dlqSchema (rq_query rq) = Inr v" "rq' = rq\<lparr>rq_query := v\<rparr>"
    using check_requestE [OF assms(2)] Get_dlq by auto
  from validator.accepted_num [OF assms(1) v(1), of "''limit''" 1 500 "Some 100" 100] v(2) Get_dlq
  show ?thesis by (auto simp: wp_simps handler_code service_code schema_defs)
next
  case Post_replay
  have "wp (replay_loop n replayed) (\<lambda>tr _. True) (\<lambda>tr e. True) (\<lambda>tr c. within_limits c) tr" for n replayed tr
    by (induction n arbitrary: tr replayed) (simp_all add: wp_simps replay_code)
  from this [of _ "[]" "[]"] show ?thesis
    by (simp add: Post_replay post_replay_def replay_def ok_def wp_simps)
qed (auto simp: wp_simps handler_code service_code)

lemma wp_replay_pops:
  assumes "pop_count (map fst tr) + n \<le> m"
  shows "wp (replay_loop n replayed) (\<lambda>tr _. pop_count (map fst tr) \<le> m) (\<lambda>tr _. pop_count (map fst tr) \<le> m)
    (\<lambda>tr c. pop_count (map fst tr @ [c]) \<le> m) tr"
  using assms by (induction n arbitrary: tr replayed) (simp_all add: wp_simps replay_code)

lemma replay_limit:
  assumes "validator validate" and "check_request validate Post_replay rq = Inr rq'"
  shows "nat (the_default 100 (num_of (field ''limit'' (rq_body rq')))) \<le> 1000"
proof -
  obtain v where v: "validate replaySchema (rq_body rq) = Inr v" "rq' = rq\<lparr>rq_body := v\<rparr>"
    using check_requestE [OF assms(2)] by auto
  from validator.accepted_num [OF assms(1) v(1), of "''limit''" 1 1000 "Some 100" 100] v(2)
  show ?thesis by (simp add: schema_defs nat_le_iff)
qed

lemma handlers_pop_little:
  assumes "validator validate" and "check_request validate rt rq = Inr rq'"
  shows "wp (handle protocol_of rt rq') (\<lambda>tr _. pop_count (map fst tr) \<le> 1000) (\<lambda>tr _. pop_count (map fst tr) \<le> 1000)
    (\<lambda>tr c. pop_count (map fst tr @ [c]) \<le> 1000) []"
proof (cases rt)
  case Post_replay
  have "nat (the_default 100 (num_of (field ''limit'' (rq_body rq')))) \<le> 1000"
    using replay_limit [OF assms(1)] assms(2) Post_replay by simp
  with wp_replay_pops [of "[]" "nat (the_default 100 (num_of (field ''limit'' (rq_body rq'))))" 1000 "[]"] Post_replay
  show ?thesis by (simp add: post_replay_def replay_def ok_def wp_simps)
qed (auto simp: wp_simps handler_code service_code split: option.splits)

section \<open>Properties\<close>

text \<open>C27: Every request is answered, and errors leave only through the boundary. In every run of a
  request no error escapes; the answer is the handler's own (200, 201, 202, or 503 of the health
  check) or an error response: 400, 404 or 409 with the code of its class, or 500 with a fixed
  text, so no message of Postgres, Redis or the runtime reaches a client. A request that fails the
  schema check is a 400 and has sent no command.\<close>

theorem errors_leave_by_the_boundary:
  assumes "play (respond protocol_of validate rt rq) rs = (tr, out)"
  shows "(\<forall>e. out \<noteq> Threw e) \<and>
    (\<forall>res. out = Done res \<longrightarrow> rs_status res \<in> {200, 201, 202, 503} \<or> error_response res) \<and>
    (rq_parse rq = None \<and> check_request validate rt rq = Inl m \<longrightarrow>
       tr = [] \<and> out = Done \<lparr>rs_status = 400, rs_body = error_body m ''VALIDATION_ERROR''\<rparr>)"
proof -
  let ?Q = "\<lambda>tr res. rs_status res \<in> {200, 201, 202, 503} \<or> error_response res"
  have h: "wp (handle protocol_of rt rq') ?Q (\<lambda>tr e. ?Q tr (error_handler (Raised e))) (\<lambda>tr c. True) []" for rq'
    using handlers_throw_service_errors by (rule wp_mono) (auto intro: error_handler_response)
  have "wp (respond protocol_of validate rt rq) ?Q (\<lambda>tr e. False) (\<lambda>tr c. True) []"
    by (rule wp_respond, simp del: error_handler.simps, simp del: error_handler.simps, rule h)
  note wp_play [OF this assms]
  moreover have "rq_parse rq = None \<and> check_request validate rt rq = Inl m \<longrightarrow>
      tr = [] \<and> out = Done \<lparr>rs_status = 400, rs_body = error_body m ''VALIDATION_ERROR''\<rparr>"
    using assms by (auto simp: respond_def)
  ultimately show ?thesis by simp
qed

theorem errors_leave_by_the_boundary_witness:
  "\<exists>res. snd (play (respond (\<lambda>_. None) ref_validate Get_jobs \<lparr>rq_params = JNull,
       rq_query = JObj [(''tenant'', JStr ''acme'')], rq_body = JNull, rq_key = [], rq_parse = None\<rparr>)
       [Rejected ''password authentication failed'']) = Done res \<and> error_response res"
proof -
  let ?rq = "\<lparr>rq_params = JNull, rq_query = JObj [(''tenant'', JStr ''acme'')], rq_body = JNull, rq_key = [], rq_parse = None\<rparr>"
  let ?run = "play (respond (\<lambda>_. None) ref_validate Get_jobs ?rq) [Rejected ''password authentication failed'']"
  have r: "snd ?run = Done \<lparr>rs_status = 500, rs_body = error_body ''internal server error'' ''INTERNAL''\<rparr>" by code_simp
  from errors_leave_by_the_boundary [OF prod.collapse [symmetric, of ?run]]
  have "\<forall>res. snd ?run = Done res \<longrightarrow> rs_status res \<in> {200, 201, 202, 503} \<or> error_response res" by blast
  with r show ?thesis by simp
qed

text \<open>Reading changes nothing. Every command that a GET request sends, whatever it is answered, is a
  read of Postgres or of the queue's lengths or dead-letter list, or asks whether the services are
  there.\<close>

theorem gets_only_read:
  assumes "is_get rt"
  shows "\<forall>c \<in> set (sent (play (respond protocol_of validate rt rq) rs)). reads c"
proof -
  have h: "wp (handle protocol_of rt rq') (\<lambda>tr _. True) (\<lambda>tr _. True) (\<lambda>tr c. reads c) []" for rq'
    using assms by (cases rt) (auto simp: wp_simps handler_code service_code split: option.splits)
  have "wp (respond protocol_of validate rt rq) (\<lambda>tr _. True) (\<lambda>tr _. True) (\<lambda>tr c. reads c) []"
    by (rule wp_respond) (use h in auto)
  then show ?thesis by (rule wp_sent_all)
qed

theorem gets_only_read_witness:
  "list_all reads (sent (play (respond (\<lambda>_. None) ref_validate Get_dlq
     \<lparr>rq_params = JNull, rq_query = JObj [], rq_body = JNull, rq_key = [], rq_parse = None\<rparr>) [Rep (RArr [RBulk (VStr ''j'')])]))"
  unfolding list_all_iff by (rule gets_only_read) simp

text \<open>C26: Stored secrets stay inside. The answer to every request, and the commands sent for it, are the
  same whatever secrets the rows that Postgres returns hold: no response shows a stored secret or
  anything computed from it. (Registering a webhook answers with the secret it has just drawn.)
  No request reads the column on its own either.\<close>

theorem stored_secrets_stay_inside:
  "snd (play (respond protocol_of validate rt rq) (map (other_secrets f g) rs)) = snd (play (respond protocol_of validate rt rq) rs) \<and>
   sent (play (respond protocol_of validate rt rq) (map (other_secrets f g) rs)) = sent (play (respond protocol_of validate rt rq) rs) \<and>
   Sql (SelectSecret i) \<notin> set (sent (play (respond protocol_of validate rt rq) rs))"
proof -
  have "insensitive (other_secrets f g) (respond protocol_of validate rt rq)"
    by (auto simp: respond_def split: option.split sum.split intro!: insensitive_catch insensitive_handle)
  note same = insensitive_play [OF this, of rs]
  have r: "wp (replay_loop n replayed) (\<lambda>tr _. True) (\<lambda>tr _. True) (\<lambda>tr c. c \<noteq> Sql (SelectSecret i)) tr" for n replayed tr
    by (induction n arbitrary: tr replayed) (simp_all add: wp_simps replay_code)
  have h: "wp (handle protocol_of rt rq') (\<lambda>tr _. True) (\<lambda>tr _. True) (\<lambda>tr c. c \<noteq> Sql (SelectSecret i)) []" for rq'
  proof (cases rt)
    case Post_replay
    with r [of _ "[]" "[]"] show ?thesis by (simp add: post_replay_def replay_def ok_def wp_simps)
  qed (auto simp: wp_simps handler_code service_code)
  have "wp (respond protocol_of validate rt rq) (\<lambda>tr _. True) (\<lambda>tr _. True) (\<lambda>tr c. c \<noteq> Sql (SelectSecret i)) []"
    by (rule wp_respond) (use h in auto)
  from wp_sent_all [OF this, of rs] same show ?thesis by blast
qed

text \<open>C28: What reaches the stores has passed the schemas. With a validator that keeps its promise, every
  row that a request inserts has a tenant and an event type of 1 to 128 characters, a webhook id in
  UUID form and a URL of at most 2048 characters; every list it reads is limited, 200 jobs and 500
  dead-letter ids at most, also when the client names no limit; and one replay takes at most 1000
  ids off the dead-letter queue.\<close>

theorem stores_see_checked_values:
  assumes "validator validate"
  shows "(\<forall>c \<in> set (sent (play (respond protocol_of validate rt rq) rs)). within_limits c) \<and>
    pop_count (sent (play (respond protocol_of validate rt rq) rs)) \<le> 1000"
proof -
  have l: "wp (respond protocol_of validate rt rq) (\<lambda>tr _. True) (\<lambda>tr _. True) (\<lambda>tr c. within_limits c) []"
    by (rule wp_respond) (use handlers_within_limits [OF assms] in auto)
  have "wp (respond protocol_of validate rt rq) (\<lambda>tr _. pop_count (map fst tr) \<le> 1000) (\<lambda>tr _. pop_count (map fst tr) \<le> 1000)
    (\<lambda>tr c. pop_count (map fst tr @ [c]) \<le> 1000) []"
    by (rule wp_respond) (use handlers_pop_little [OF assms] in auto)
  from wp_sent_all [OF l] wp_sent [where P = "\<lambda>es. pop_count es \<le> 1000", OF this] show ?thesis by blast
qed

theorem stores_see_checked_values_witness:
  "within_limits (Sql (SelectJobsWhere ''acme'' None 50))"
proof -
  let ?run = "play (respond (\<lambda>_. None) ref_validate Get_jobs \<lparr>rq_params = JNull,
       rq_query = JObj [(''tenant'', JStr ''acme'')], rq_body = JNull, rq_key = [], rq_parse = None\<rparr>) []"
  have "Sql (SelectJobsWhere ''acme'' None 50) \<in> set (sent ?run)" by code_simp
  with conjunct1 [OF stores_see_checked_values [OF ref_validator]] show ?thesis by blast
qed

end
