(* ===== verification/Processes.thy ===== *)
theory Processes
  imports Jobs Lock
begin

text \<open>
  The two background processes: the consume loop of \<open>src/src/entrypoints/worker.ts\<close> and the tick of
  \<open>src/src/entrypoints/scheduler.ts\<close> under its lock. A loop runs until the process is told to stop,
  here after a number of iterations; the sleep between ticks, the log and the signal handling are
  left out. \<open>lock\<close> is the scheduler's module variable: it is passed in and returned, also when the
  tick fails.
\<close>

section \<open>The worker\<close>

definition BLOCK_SECONDS :: nat where "BLOCK_SECONDS = 5"

definition consume_one :: "config \<Rightarrow> (string \<Rightarrow> string \<Rightarrow> string) \<Rightarrow> unit js" where
  "consume_one cfg hmac =
     bind_prog (catch_prog (reserve BLOCK_SECONDS) (\<lambda>err. Ret None)) (\<lambda>jobId. case jobId of
       None \<Rightarrow> Ret ()
     | Some j \<Rightarrow> catch_prog (process cfg hmac j) (\<lambda>err. Ret ()))"

primrec consume :: "config \<Rightarrow> (string \<Rightarrow> string \<Rightarrow> string) \<Rightarrow> nat \<Rightarrow> unit js" where
  "consume cfg hmac 0 = Ret ()"
| "consume cfg hmac (Suc n) = seq (consume_one cfg hmac) (consume cfg hmac n)"

section \<open>The scheduler\<close>

definition LOCK_KEY :: key where "LOCK_KEY = ''lock:scheduler''"
definition LOCK_TTL_MS :: ms where "LOCK_TTL_MS = 5000"

text \<open>The first half of \<open>tick\<close>: renew as leader, else try to become it.\<close>

definition lead :: "lock option \<Rightarrow> lock option js" where
  "lead l =
     (case l of
        Some held \<Rightarrow>
          bind_prog (renew held LOCK_TTL_MS) (\<lambda>stillLeader.
          if \<not> stillLeader then Ret None else Ret (Some held))
      | None \<Rightarrow> acquire LOCK_KEY LOCK_TTL_MS)"

text \<open>The second half: the two sweeps, each with its default time and batch size.\<close>

definition sweep :: "unit js" where
  "sweep =
     await DateNow (\<lambda>now. bind_prog (promoteDue (as_int now) 100) (\<lambda>promoted.
     await DateNow (\<lambda>now. bind_prog (reapExpired (as_int now) 100) (\<lambda>reaped. Ret ()))))"

text \<open>One turn of the loop: \<open>tick\<close> and the loop's catch; the value is the variable \<open>lock\<close> after it.\<close>

definition tick :: "lock option \<Rightarrow> lock option js" where
  "tick l =
     catch_prog
       (bind_prog (lead l) (\<lambda>l'.
          if l' = None then Ret None
          else catch_prog (seq sweep (Ret l')) (\<lambda>err. Ret l')))
       (\<lambda>err. Ret l)"

primrec scheduler_loop :: "nat \<Rightarrow> lock option \<Rightarrow> lock option js" where
  "scheduler_loop 0 l = Ret l"
| "scheduler_loop (Suc n) l = bind_prog (tick l) (scheduler_loop n)"

definition scheduler_shutdown :: "lock option \<Rightarrow> bool js" where
  "scheduler_shutdown l = (case l of None \<Rightarrow> Ret False | Some held \<Rightarrow> release held)"

section \<open>Reading a trace\<close>

fun sweeps_queue :: "eff \<Rightarrow> bool" where
  "sweeps_queue (Eval PROMOTE_SCRIPT ks vs) = True"
| "sweeps_queue (Eval REAP_SCRIPT ks vs) = True"
| "sweeps_queue _ = False"

text \<open>The server has just confirmed the lock: the renewal answered 1, or the acquisition OK.\<close>

fun confirms :: "lock option \<Rightarrow> event \<Rightarrow> bool" where
  "confirms (Some l) (c, r) \<longleftrightarrow> c = Eval RENEW_SCRIPT [l_key l] [VStr (l_token l), VNum (of_int LOCK_TTL_MS)] \<and>
     \<not> rejected r \<and> as_int r = 1"
| "confirms None (c, r) \<longleftrightarrow> (\<exists>tok. c = RCmd (SetNxPx LOCK_KEY (VStr tok) LOCK_TTL_MS)) \<and> \<not> rejected r \<and> as_str r = Some ''OK''"

text \<open>The server has answered the renewal, and not with 1.\<close>

fun refuses :: "lock option \<Rightarrow> event \<Rightarrow> bool" where
  "refuses (Some l) (c, r) \<longleftrightarrow> c = Eval RENEW_SCRIPT [l_key l] [VStr (l_token l), VNum (of_int LOCK_TTL_MS)] \<and>
     \<not> rejected r \<and> as_int r \<noteq> 1"
| "refuses None ev = False"

lemmas tick_code = tick_def lead_def renew_def acquire_def sweep_def promoteDue_def reapExpired_def

section \<open>Properties\<close>

text \<open>C35: Only the leader sweeps. In every run of a tick, with whatever lock the process believes it
  holds, the promotion and the reaping are sent only after the server has confirmed the lock in
  this very tick (its renewal, or its acquisition), at most two commands in all; a tick that ends
  with a lock was not refused its renewal, and one that ends without a lock has swept nothing.\<close>

theorem only_leader_sweeps:
  assumes "play (tick l) rs = (tr, out)"
  shows "(\<forall>n < length tr. sweeps_queue (fst (tr ! n)) \<longrightarrow> (\<exists>ev \<in> set (take n tr). confirms l ev)) \<and>
    length (filter sweeps_queue (sent (tr, out))) \<le> 2 \<and>
    (\<forall>l'. out = Done l' \<longrightarrow> (case l' of Some held \<Rightarrow> \<not> (\<exists>ev \<in> set tr. refuses l ev) | None \<Rightarrow> \<not> (\<exists>ev \<in> set tr. sweeps_queue (fst ev))))"
proof -
  have c: "wp (tick l) (\<lambda>tr l'. case l' of Some held \<Rightarrow> \<not> (\<exists>ev \<in> set tr. refuses l ev) | None \<Rightarrow> \<not> (\<exists>ev \<in> set tr. sweeps_queue (fst ev))) (\<lambda>tr _. True)
      (\<lambda>tr c. sweeps_queue c \<longrightarrow> (\<exists>ev \<in> set tr. confirms l ev)) []"
    by (cases l) (auto simp: wp_simps tick_code)
  have n: "wp (tick l) (\<lambda>tr _. length (filter sweeps_queue (map fst tr)) \<le> 2) (\<lambda>tr _. length (filter sweeps_queue (map fst tr)) \<le> 2)
      (\<lambda>tr c. length (filter sweeps_queue (map fst tr @ [c])) \<le> 2) []"
    by (cases l) (auto simp: wp_simps tick_code)
  show ?thesis
  proof (intro conjI)
    show "\<forall>n < length tr. sweeps_queue (fst (tr ! n)) \<longrightarrow> (\<exists>ev \<in> set (take n tr). confirms l ev)"
      using wp_sent_nth [OF c assms] by blast
    show "length (filter sweeps_queue (sent (tr, out))) \<le> 2"
      using wp_sent [where P = "\<lambda>es. length (filter sweeps_queue es) \<le> 2", OF n, of rs] unfolding assms .
    show "\<forall>l'. out = Done l' \<longrightarrow> (case l' of Some held \<Rightarrow> \<not> (\<exists>ev \<in> set tr. refuses l ev) | None \<Rightarrow> \<not> (\<exists>ev \<in> set tr. sweeps_queue (fst ev)))"
    proof (intro allI impI)
      fix l' assume "out = Done l'"
      with assms have "play (tick l) rs = (tr, Done l')" by simp
      from wp_done [OF c this]
      show "case l' of Some held \<Rightarrow> \<not> (\<exists>ev \<in> set tr. refuses l ev) | None \<Rightarrow> \<not> (\<exists>ev \<in> set tr. sweeps_queue (fst ev))"
        by simp
    qed
  qed
qed

theorem only_leader_sweeps_witness:
  "\<exists>ev \<in> set (take 3 (fst (play (tick None)
     [Text ''tok'', Rep (RBulk (VStr ''OK'')), Time 5, Rep (RInt 2), Time 6, Rep (RArr [])]))). confirms None ev"
proof -
  let ?run = "play (tick None) [Text ''tok'', Rep (RBulk (VStr ''OK'')), Time 5, Rep (RInt 2), Time 6, Rep (RArr [])]"
  have "3 < length (fst ?run)" and "sweeps_queue (fst (fst ?run ! 3))" by code_simp+
  with only_leader_sweeps [OF prod.collapse [symmetric, of ?run]] show ?thesis by blast
qed

end
