(* ===== verification/Platform.thy ===== *)
theory Platform
  imports Runtime Jobs_Safety Http_Safety Processes
begin

text \<open>
  The platform as a whole: any number of API requests, workers and schedulers running at once
  against one Redis and one database. A step lets one of them issue its next command, starts a new
  one, or removes one (it has ended, was killed, or its machine died); so every interleaving of the
  commands, and a crash of any process between any two of its commands, is an execution.
\<close>

section \<open>Programs and executions\<close>

text \<open>What every process shares: the configuration, and the library functions that are parameters.\<close>

record setting =
  s_config :: config
  s_hmac :: "string \<Rightarrow> string \<Rightarrow> string"
  s_protocol :: "string \<Rightarrow> string option"
  s_validate :: "schema \<Rightarrow> json \<Rightarrow> string + json"

datatype task = Api route request | Worker nat | Scheduler nat

fun program :: "setting \<Rightarrow> task \<Rightarrow> unit js" where
  "program s (Api rt rq) = bind_prog (respond (s_protocol s) (s_validate s) rt rq) (\<lambda>_. Ret ())"
| "program s (Worker n) = consume (s_config s) (s_hmac s) n"
| "program s (Scheduler n) =
     bind_prog (scheduler_loop n None) (\<lambda>l. bind_prog (scheduler_shutdown l) (\<lambda>_. Ret ()))"

text \<open>The stores, and the processes: what is left of each one's program, with the events it has seen.\<close>

record 'r platform =
  stores :: "'r world"
  procs :: "(event list \<times> unit js) list"

inductive execution ::
    "(ms \<Rightarrow> rcmd \<Rightarrow> 'r \<Rightarrow> reply \<times> 'r) \<Rightarrow> setting \<Rightarrow> 'r platform \<Rightarrow> event list \<Rightarrow> 'r platform \<Rightarrow> bool"
  for exec s p where
  begin_here: "execution exec s p [] p"
| start: "execution exec s p evs \<lparr>stores = w, procs = ps\<rparr> \<Longrightarrow>
     execution exec s p evs \<lparr>stores = w, procs = ([], program s t) # ps\<rparr>"
| act: "execution exec s p evs \<lparr>stores = w, procs = ps @ (tr, Do c k) # qs\<rparr> \<Longrightarrow> perform exec i c w = (r, w') \<Longrightarrow>
     execution exec s p (evs @ [(c, r)]) \<lparr>stores = w', procs = ps @ (tr @ [(c, r)], k r) # qs\<rparr>"
| stop: "execution exec s p evs \<lparr>stores = w, procs = ps @ x # qs\<rparr> \<Longrightarrow>
     execution exec s p evs \<lparr>stores = w, procs = ps @ qs\<rparr>"

section \<open>What a command does to the queue\<close>

definition queue_key :: "key \<Rightarrow> bool" where
  "queue_key k \<longleftrightarrow> k \<in> {READY_QUEUE, INFLIGHT_QUEUE, LEASES, DELAYED, DLQ}"

lemma queue_cong:
  assumes "\<And>k. queue_key k \<Longrightarrow> e' k = e k"
  shows "queue_of e' = queue_of e" and "queue_keys e' = queue_keys e"
  using assms by (simp_all add: queue_of_def queue_keys_def queue_key_def)

lemma other_keys [simp]:
  "\<not> queue_key (redisKey t k)" "\<not> queue_key (circuit_key w)" "\<not> queue_key (ratelimit_key w)" "\<not> queue_key LOCK_KEY"
  by (simp_all add: queue_key_def redisKey_def circuit_key_def ratelimit_key_def LOCK_KEY_def
      READY_QUEUE_def INFLIGHT_QUEUE_def LEASES_def DELAYED_def DLQ_def)

text \<open>The ids a process has been given: by rows it read and by claims and pops.\<close>

fun gives :: "event \<Rightarrow> jobid set" where
  "gives (Sql st, r) = jr_id ` set (job_rows r)"
| "gives (RCmd (Brpoplpush k k' n), r) = set_option (as_str r)"
| "gives (RCmd (Rpop k), r) = set_option (as_str r)"
| "gives _ = {}"

definition known :: "event list \<Rightarrow> jobid set" where
  "known tr = \<Union> (set (map gives tr))"

lemma known_simps [simp]:
  "known [] = {}" "known (ev # tr) = gives ev \<union> known tr" "known (tr @ tr') = known tr \<union> known tr'"
  by (auto simp: known_def)

text \<open>The commands of the platform, for a process that knows the ids \<open>K\<close>: what touches the queue is one
  of its operations, and puts on it only ids that the process knows.\<close>

fun other_script :: "script \<Rightarrow> bool" where
  "other_script RELEASE_SCRIPT = True"
| "other_script RENEW_SCRIPT = True"
| "other_script TOKEN_BUCKET_SCRIPT = True"
| "other_script CHECK_SCRIPT = True"
| "other_script SUCCESS_SCRIPT = True"
| "other_script FAILURE_SCRIPT = True"
| "other_script _ = False"

fun qop_of :: "eff \<Rightarrow> qop option" where
  "qop_of (RCmd (Lpush k j)) = (if k = READY_QUEUE then Some (OPush j) else None)"
| "qop_of (RCmd (Zadd k due j)) = (if k = DELAYED then Some (ODelay j due) else if k = LEASES then Some (OLease j due) else None)"
| "qop_of (RCmd (Brpoplpush k k' n)) = (if k = READY_QUEUE \<and> k' = INFLIGHT_QUEUE then Some OClaim else None)"
| "qop_of (RCmd (Rpop k)) = (if k = DLQ then Some OPopDlq else None)"
| "qop_of (Eval ACK_SCRIPT ks [VStr j]) = (if ks = [INFLIGHT_QUEUE, LEASES] then Some (OAck j) else None)"
| "qop_of (Eval RETRY_SCRIPT ks [VStr j, VNum due]) = (if ks = [INFLIGHT_QUEUE, LEASES, DELAYED] then Some (ORetry j \<lfloor>due\<rfloor>) else None)"
| "qop_of (Eval DLQ_SCRIPT ks [VStr j]) = (if ks = [INFLIGHT_QUEUE, LEASES, DLQ] then Some (ODead j) else None)"
| "qop_of (Eval PROMOTE_SCRIPT ks [VNum now, VNum n]) = (if ks = [DELAYED, READY_QUEUE] then Some (OPromote \<lfloor>now\<rfloor> \<lfloor>n\<rfloor>) else None)"
| "qop_of (Eval REAP_SCRIPT ks [VNum now, VNum n]) = (if ks = [LEASES, INFLIGHT_QUEUE, READY_QUEUE] then Some (OReap \<lfloor>now\<rfloor> \<lfloor>n\<rfloor>) else None)"
| "qop_of _ = None"

text \<open>Commands that leave the queue alone.\<close>

fun beside_queue :: "eff \<Rightarrow> bool" where
  "beside_queue (RCmd (Llen k)) \<longleftrightarrow> k \<in> {READY_QUEUE, INFLIGHT_QUEUE, DLQ}"
| "beside_queue (RCmd (Zcard k)) \<longleftrightarrow> k = DELAYED"
| "beside_queue (RCmd (Lrange k a b)) \<longleftrightarrow> k = DLQ \<and> a = 0"
| "beside_queue (RCmd (Brpoplpush k k' n)) \<longleftrightarrow> False"
| "beside_queue (RCmd (Rpop k)) \<longleftrightarrow> False"
| "beside_queue (RCmd c) \<longleftrightarrow> (\<forall>k \<in> keys_of c. \<not> queue_key k)"
| "beside_queue (Eval s ks vs) \<longleftrightarrow> other_script s \<and> (\<exists>k. ks = [k] \<and> \<not> queue_key k)"
| "beside_queue _ \<longleftrightarrow> True"

text \<open>The ids an operation puts on the queue.\<close>

fun puts :: "qop \<Rightarrow> jobid set" where
  "puts (OPush j) = {j}"
| "puts (ODelay j due) = {j}"
| "puts (OLease j due) = {j}"
| "puts (ORetry j due) = {j}"
| "puts (ODead j) = {j}"
| "puts _ = {}"

definition allowed :: "jobid set \<Rightarrow> eff \<Rightarrow> bool" where
  "allowed K c \<longleftrightarrow> (case qop_of c of Some x \<Rightarrow> puts x \<subseteq> K | None \<Rightarrow> beside_queue c)"

definition queue_ids :: "queue \<Rightarrow> jobid set" where
  "queue_ids q = set (ready q) \<union> set (inflight q) \<union> fst ` set (leases q) \<union> fst ` set (delayed q) \<union> set (dlq q)"

lemma zdue_subset: "set (zdue mx n z) \<subseteq> fst ` set z"
proof -
  have "set (take (nat n) (map fst (filter (\<lambda>p. snd p \<le> mx) z))) \<subseteq> set (map fst (filter (\<lambda>p. snd p \<le> mx) z))"
    by (rule set_take_subset)
  then show ?thesis by (auto simp: zdue_def Let_def)
qed

lemma fold_remove1_subset: "set (fold remove1 js xs) \<subseteq> set xs"
proof (induction js arbitrary: xs)
  case (Cons j js)
  from Cons [of "remove1 j xs"] show ?case
    using set_remove1_subset [of j xs] by auto
qed simp

lemma queue_ids_apply: "queue_ids (qop_apply x q) \<subseteq> queue_ids q \<union> puts x"
proof (cases x)
  case OClaim
  then show ?thesis
    using set_butlast_last [of "ready q"] by (auto simp: claim_q_def queue_ids_def)
next
  case OPopDlq
  then show ?thesis by (auto simp: pop_dlq_q_def queue_ids_def dest: in_set_butlastD)
next
  case (OPromote now n)
  then show ?thesis using zdue_subset [of now n "delayed q"]
    by (auto simp: promote_q_def promote_ids_def queue_ids_def keys_fold_zrem)
next
  case (OReap now n)
  then show ?thesis using zdue_subset [of now n "leases q"] fold_remove1_subset [of "zdue now n (leases q)" "inflight q"]
    by (auto simp: reap_q_def reap_ids_def queue_ids_def keys_fold_zrem)
qed (auto simp: queue_ids_def queue_ops keys_zadd keys_zrem dest: set_remove1_subset [THEN subsetD])

lemma redis_serve:
  "redis (snd (serve exec i (RCmd c) w)) = snd (exec (i_time i) c (redis w))"
  "redis (snd (serve exec i (Eval s ks vs) w)) = snd (lua_run exec (i_time i) (lua_body s ks vs) (redis w))"
  "fst (serve exec i (RCmd c) w) = resp_of (fst (exec (i_time i) c (redis w)))"
  by (simp_all split: prod.split sum.split)

lemma redis_serve_other:
  "(\<forall>c'. c \<noteq> RCmd c') \<Longrightarrow> (\<forall>s ks vs. c \<noteq> Eval s ks vs) \<Longrightarrow> redis (snd (serve exec i c w)) = redis w"
  by (cases c) (simp_all split: prod.split option.split)

context redis_server
begin

lemma other_script_keys:
  assumes "other_script s"
  shows "script_keys (lua_body s [k] vs) \<subseteq> {k}"
proof (cases s)
  case TOKEN_BUCKET_SCRIPT
  have "script_keys (token_bucket_body k a b c d st) \<subseteq> {k}" for a b c d st
    by (auto simp: token_bucket_body_def Let_def script_keys_call split: option.split)
  then show ?thesis
    by (simp add: TOKEN_BUCKET_SCRIPT token_bucket_script_def script_keys_call)
next
  case CHECK_SCRIPT
  then show ?thesis by (auto simp: check_script_def script_keys_call Let_def)
next
  case FAILURE_SCRIPT
  then show ?thesis by (auto simp: failure_script_def script_keys_call split: option.split)
next
  case SUCCESS_SCRIPT
  then show ?thesis by (auto simp: success_script_def script_keys_call)
next
  case RELEASE_SCRIPT
  then show ?thesis by (auto simp: release_script_def script_keys_call)
next
  case RENEW_SCRIPT
  then show ?thesis by (auto simp: renew_script_def script_keys_call)
qed (use assms in simp_all)

lemma beside_keeps:
  assumes q: "queue_keys (ent (redis w))" and b: "beside_queue c" and k: "queue_key k"
  shows "ent (redis (snd (serve exec i c w))) k = ent (redis w) k"
proof (cases c)
  case (Eval s ks vs)
  with b obtain k' where s: "other_script s" "ks = [k']" "\<not> queue_key k'" by auto
  with k have "k \<notin> script_keys (lua_body s ks vs)" using other_script_keys [of s k' vs] by auto
  from lua_frame [OF this] show ?thesis by (simp add: Eval redis_serve del: serve.simps)
next
  case (RCmd rc)
  have l: "is_list_entry (ent (redis w) READY_QUEUE)" "is_list_entry (ent (redis w) INFLIGHT_QUEUE)" "is_list_entry (ent (redis w) DLQ)"
    "is_zset_entry (ent (redis w) DELAYED)" using q by (simp_all add: queue_keys_def)
  show ?thesis
  proof (cases rc)
    case (Llen k')
    with b l RCmd llen show ?thesis by (auto simp: redis_serve simp del: serve.simps)
  next
    case (Lrange k' a n)
    with b RCmd conjunct2 [OF lrange [where t = "i_time i" and stop = n, OF l(3)]] show ?thesis
      by (auto simp: redis_serve simp del: serve.simps)
  next
    case (Zcard k')
    with b l RCmd zcard show ?thesis by (auto simp: redis_serve simp del: serve.simps)
  qed (use b k RCmd in \<open>auto simp: redis_serve simp del: serve.simps intro!: frame\<close>)
qed (simp_all split: prod.split option.split)

lemma qop_served:
  assumes q: "queue_keys (ent (redis w))" and x: "qop_of c = Some x"
  shows "ent (redis (snd (serve exec i c w))) = queue_put (qop_apply x (queue_of (ent (redis w)))) (ent (redis w))"
  using x qop_refines [OF q, of "i_time i" x] claim_refines(1) [OF q]
  by (cases c rule: qop_of.cases) (auto simp: redis_serve simp del: serve.simps qop_apply.simps split: if_splits)

text \<open>The queue after a served command.\<close>

lemma serve_queue:
  assumes q: "queue_keys (ent (redis w))" and c: "allowed K c"
  shows "queue_keys (ent (redis (snd (serve exec i c w)))) \<and>
    queue_of (ent (redis (snd (serve exec i c w)))) =
      (case qop_of c of None \<Rightarrow> queue_of (ent (redis w)) | Some x \<Rightarrow> qop_apply x (queue_of (ent (redis w))))"
proof (cases "qop_of c")
  case None
  with c have "beside_queue c" by (simp add: allowed_def)
  from queue_cong [of "ent (redis (snd (serve exec i c w)))" "ent (redis w)", OF beside_keeps [OF q this]] q None
  show ?thesis by simp
next
  case (Some x)
  with qop_served [OF q Some] q show ?thesis by (simp add: queue_wf_apply queue_wf_of)
qed

end

section \<open>What each program sends\<close>

text \<open>A worker acknowledges only what it has claimed, looked up and found without a row or finished, or
  what the endpoint has accepted.\<close>

fun accepted :: "jobid \<Rightarrow> event \<Rightarrow> bool" where
  "accepted j (Fetch req, r) \<longleftrightarrow> (''x-job-id'', j) \<in> set (headers req) \<and> \<not> rejected r \<and> ok_status (as_status r)"
| "accepted j _ \<longleftrightarrow> False"

definition justified :: "jobid \<Rightarrow> event list \<Rightarrow> bool" where
  "justified j tr \<longleftrightarrow> (\<exists>tr1 r tr2. tr = tr1 @ (Sql (SelectJob j), r) # tr2 \<and> j \<in> known tr1 \<and> \<not> rejected r \<and>
     (job_rows r = [] \<or> (\<exists>row rows. job_rows r = row # rows \<and>
        (jr_state row = Succeeded \<or> jr_state row = Dead \<or> (\<exists>ev \<in> set tr2. accepted (jr_id row) ev)))))"

lemma justifiedI:
  assumes "j \<in> known tr1" and "\<not> rejected r"
    and "job_rows r = [] \<or> (\<exists>row rows. job_rows r = row # rows \<and>
        (jr_state row = Succeeded \<or> jr_state row = Dead \<or> (\<exists>ev \<in> set tr2. accepted (jr_id row) ev)))"
  shows "justified j (tr1 @ (Sql (SelectJob j), r) # tr2)"
  using assms unfolding justified_def by blast

definition proper :: "event list \<Rightarrow> eff \<Rightarrow> bool" where
  "proper tr c \<longleftrightarrow> allowed (known tr) c \<and> (\<forall>j. qop_of c = Some (OAck j) \<longrightarrow> justified j tr)"

lemma proper_simps [simp]:
  "proper tr (Sql st)" "proper tr DateNow" "proper tr MathRandom" "proper tr RandomUUID" "proper tr RandomBytes"
  "proper tr (Fetch req)" "proper tr ResponseText" "proper tr Ping" "proper tr ProcessUptime"
  "proper tr (Eval ACK_SCRIPT [INFLIGHT_QUEUE, LEASES] [VStr j]) \<longleftrightarrow> justified j tr"
  "proper tr (Eval RETRY_SCRIPT [INFLIGHT_QUEUE, LEASES, DELAYED] [VStr j, VNum q]) \<longleftrightarrow> j \<in> known tr"
  "proper tr (Eval DLQ_SCRIPT [INFLIGHT_QUEUE, LEASES, DLQ] [VStr j]) \<longleftrightarrow> j \<in> known tr"
  "proper tr (Eval PROMOTE_SCRIPT [DELAYED, READY_QUEUE] [VNum q, VNum q'])"
  "proper tr (Eval REAP_SCRIPT [LEASES, INFLIGHT_QUEUE, READY_QUEUE] [VNum q, VNum q'])"
  "proper tr (RCmd (Lpush READY_QUEUE j)) \<longleftrightarrow> j \<in> known tr"
  "proper tr (RCmd (Zadd DELAYED due j)) \<longleftrightarrow> j \<in> known tr"
  "proper tr (RCmd (Zadd LEASES due j)) \<longleftrightarrow> j \<in> known tr"
  "proper tr (RCmd (Brpoplpush READY_QUEUE INFLIGHT_QUEUE n))" "proper tr (RCmd (Rpop DLQ))"
  "proper tr (RCmd (Llen READY_QUEUE))" "proper tr (RCmd (Llen INFLIGHT_QUEUE))" "proper tr (RCmd (Llen DLQ))"
  "proper tr (RCmd (Zcard DELAYED))" "proper tr (RCmd (Lrange DLQ 0 b))"
  "\<not> queue_key k \<Longrightarrow> proper tr (RCmd (Get k))" "\<not> queue_key k \<Longrightarrow> proper tr (RCmd (Del k))"
  "\<not> queue_key k \<Longrightarrow> proper tr (RCmd (SetPx k v ttl))" "\<not> queue_key k \<Longrightarrow> proper tr (RCmd (SetNxPx k v ttl))"
  "\<not> queue_key k \<Longrightarrow> other_script s \<Longrightarrow> proper tr (Eval s [k] vs)"
  by (auto simp: proper_def allowed_def) (cases s; simp)+

abbreviation runs_properly :: "'a js \<Rightarrow> event list \<Rightarrow> bool" where
  "runs_properly p tr \<equiv> wp p (\<lambda>_ _. True) (\<lambda>_ _. True) proper tr"

lemma process_proper: "jobId \<in> known tr \<Longrightarrow> runs_properly (process cfg hmac jobId) tr"
  by (auto simp: wp_simps process_code toJob_def delivery_request_def intro!: justifiedI)

lemma consume_proper: "runs_properly (consume cfg hmac n) tr"
proof (induction n arbitrary: tr)
  case (Suc n)
  then show ?case
    by (auto simp: wp_simps consume_one_def reserve_def intro!: wp_mono [OF process_proper])
qed simp

definition lock_held :: "lock option \<Rightarrow> bool" where
  "lock_held l \<longleftrightarrow> (\<forall>held. l = Some held \<longrightarrow> l_key held = LOCK_KEY)"

lemma tick_proper: "lock_held l \<Longrightarrow> wp (tick l) (\<lambda>tr l'. lock_held l') (\<lambda>tr _. True) proper tr"
  by (cases l) (auto simp: wp_simps tick_code lock_held_def)

lemma scheduler_proper: "lock_held l \<Longrightarrow> wp (scheduler_loop n l) (\<lambda>tr l'. lock_held l') (\<lambda>tr _. True) proper tr"
  by (induction n arbitrary: l tr) (auto simp: wp_simps intro!: wp_mono [OF tick_proper])

lemma replay_proper: "runs_properly (replay_loop n replayed) tr"
  by (induction n arbitrary: replayed tr) (simp_all add: wp_simps replay_code)

lemma handle_proper: "runs_properly (handle protocol_of rt rq) tr"
proof (cases rt)
  case Post_replay
  show ?thesis by (simp add: Post_replay post_replay_def replay_def ok_def wp_simps replay_proper)
next
  case Post_events
  show ?thesis
    by (auto simp: Post_events wp_simps post_events_def enqueue_code toJob_def split: if_splits option.splits)
qed (auto simp: wp_simps handler_code service_code)

lemma program_proper: "runs_properly (program s t) []"
proof (cases t)
  case (Api rt rq)
  have "runs_properly (respond (s_protocol s) (s_validate s) rt rq) []"
    by (rule wp_respond) (simp_all add: handle_proper)
  with Api show ?thesis by (simp add: wp_simps)
next
  case (Scheduler n)
  have "wp (scheduler_loop n None) (\<lambda>tr l. runs_properly (bind_prog (scheduler_shutdown l) (\<lambda>_. Ret ())) tr) (\<lambda>tr _. True) proper []"
    by (rule wp_mono [OF scheduler_proper])
       (auto simp: lock_held_def wp_simps scheduler_shutdown_def release_def)
  with Scheduler show ?thesis by (simp add: wp_bind)
qed (simp add: consume_proper)

section \<open>What holds in every state\<close>

text \<open>The stores agree: the schema's promises hold, the queue's keys hold a queue, and every id on the
  queue, with or without a lease, delayed or dead-lettered, has its row.\<close>

definition row_ids :: "db \<Rightarrow> jobid set" where
  "row_ids d = jr_id ` set (jobs_t d)"

definition stores_agree :: "('r \<Rightarrow> keyspace) \<Rightarrow> 'r world \<Rightarrow> bool" where
  "stores_agree ent w \<longleftrightarrow> db_wf (tables w) \<and> queue_keys (ent (redis w)) \<and>
     queue_ids (queue_of (ent (redis w))) \<subseteq> row_ids (tables w)"

text \<open>A look-up answers with rows of the id asked for, and with one at least if the id is known.\<close>

definition honest_reply :: "event list \<Rightarrow> eff \<Rightarrow> resp \<Rightarrow> bool" where
  "honest_reply tr c r \<longleftrightarrow> (\<forall>i. c = Sql (SelectJob i) \<and> \<not> rejected r \<longrightarrow>
     (\<forall>row \<in> set (job_rows r). jr_id row = i) \<and> (i \<in> known tr \<longrightarrow> job_rows r \<noteq> []))"

definition honest :: "event list \<Rightarrow> bool" where
  "honest tr \<longleftrightarrow> (\<forall>n < length tr. honest_reply (take n tr) (fst (tr ! n)) (snd (tr ! n)))"

lemma honest_snoc: "honest (tr @ [(c, r)]) \<longleftrightarrow> honest tr \<and> honest_reply tr c r"
  by (auto simp: honest_def nth_append less_Suc_eq)

text \<open>A job is finished in the eyes of the processes when one of them read its row as succeeded or
  dead, or had its request accepted by the endpoint.\<close>

definition finished :: "jobid \<Rightarrow> event list \<Rightarrow> bool" where
  "finished j evs \<longleftrightarrow> (\<exists>row rows r. (Sql (SelectJob j), r) \<in> set evs \<and> job_rows r = row # rows \<and> jr_id row = j \<and>
       (jr_state row = Succeeded \<or> jr_state row = Dead)) \<or> (\<exists>ev \<in> set evs. accepted j ev)"

text \<open>A replay takes the job off the dead-letter queue, or may have: the answer of its pop was lost.\<close>

definition popped :: "jobid \<Rightarrow> event \<Rightarrow> bool" where
  "popped j ev \<longleftrightarrow> fst ev = RCmd (Rpop DLQ) \<and> (rejected (snd ev) \<or> as_str (snd ev) = Some j)"

lemma finished_mono: "finished j tr \<Longrightarrow> set tr \<subseteq> set evs \<Longrightarrow> finished j evs"
  by (auto simp: finished_def)

lemma justified_finished:
  assumes "honest tr" and "justified j tr"
  shows "finished j tr"
proof -
  from assms(2) obtain tr1 r tr2 where t: "tr = tr1 @ (Sql (SelectJob j), r) # tr2" "j \<in> known tr1" "\<not> rejected r"
    and c: "job_rows r = [] \<or> (\<exists>row rows. job_rows r = row # rows \<and>
        (jr_state row = Succeeded \<or> jr_state row = Dead \<or> (\<exists>ev \<in> set tr2. accepted (jr_id row) ev)))"
    unfolding justified_def by blast
  have "honest_reply tr1 (Sql (SelectJob j)) r"
    using assms(1) [unfolded honest_def, rule_format, of "length tr1"] t(1) by simp
  with t(2,3) have h: "\<forall>row \<in> set (job_rows r). jr_id row = j" "job_rows r \<noteq> []"
    by (auto simp: honest_reply_def)
  then obtain row rows where row: "job_rows r = row # rows" "jr_id row = j" by (cases "job_rows r") auto
  with c have "jr_state row = Succeeded \<or> jr_state row = Dead \<or> (\<exists>ev \<in> set tr2. accepted j ev)" by simp
  with t(1) row show ?thesis by (auto simp: finished_def)
qed

section \<open>One command\<close>

lemma row_ids_grow: "row_ids d \<subseteq> row_ids (snd (sql_exec now uuid st d))"
  by (cases st) (auto simp: row_ids_def sql_defs Let_def split: option.split)

lemma rows_of_ids: "jr_id ` set (rows_of i d) \<subseteq> row_ids d"
  by (auto simp: rows_of_def row_ids_def)

lemma rows_of_changed:
  "xa \<in> set (rows_of i (change_job i f d)) \<Longrightarrow> (\<And>row. jr_id (f row) = jr_id row) \<Longrightarrow> jr_id xa \<in> jr_id ` set (jobs_t d)"
  by (auto simp: rows_of_def set_change_job)

lemma job_rows_ids: "jr_id ` set (job_rows (fst (sql_exec now uuid st d))) \<subseteq> row_ids (snd (sql_exec now uuid st d))"
proof (cases st)
  case (SelectJobsWhere t state n)
  have "set (take (nat n) (sort_key f xs)) \<subseteq> set xs" for f :: "job_row \<Rightarrow> int" and xs
    using set_take_subset [of "nat n" "sort_key f xs"] by simp
  from subset_trans [OF this, of "filter P (jobs_t d)" "set (jobs_t d)" for P] SelectJobsWhere show ?thesis
    by (auto simp: sql_select_jobs_where_def refuses_text_def row_ids_def Let_def)
qed (auto simp: sql_defs row_ids_def Let_def split: option.split dest!: rows_of_changed)

lemma tables_serve:
  "tables (snd (serve exec i (Sql st) w)) = snd (sql_exec (i_time i) (i_uuid i) st (tables w))"
  "fst (serve exec i (Sql st) w) = fst (sql_exec (i_time i) (i_uuid i) st (tables w))"
  "redis (snd (serve exec i (Sql st) w)) = redis w"
  by (simp_all split: prod.split)

lemma tables_serve_other: "(\<forall>st. c \<noteq> Sql st) \<Longrightarrow> tables (snd (serve exec i c w)) = tables w"
  by (cases c) (simp_all split: prod.split sum.split option.split)

lemma perform_cases:
  assumes "perform exec i c w = (r, w')"
  obtains "w' = w" and "rejected r" and "job_rows r = []" and "as_str r = None"
  | "w' = snd (serve exec i c w)" and "rejected r" and "job_rows r = []" and "as_str r = None"
  | "w' = snd (serve exec i c w)" and "r = fst (serve exec i c w)"
proof (cases "remote c \<and> i_fault i \<noteq> NoFault")
  case True
  then obtain m where "i_fault i = Dropped m \<or> i_fault i = ReplyLost m" by (cases "i_fault i") auto
  with True assms have "r = Rejected m" "w' = w \<or> w' = snd (serve exec i c w)" by (auto simp: perform_def simp del: serve.simps)
  with that(1,2) show ?thesis by auto
next
  case False
  with assms have "(r, w') = serve exec i c w" by (auto simp: perform_def simp del: serve.simps split: if_splits)
  with that(3) show ?thesis by (simp add: prod_eq_iff del: serve.simps)
qed

lemma honest_select:
  assumes "perform exec i (Sql (SelectJob j)) w = (r, w')" and "known tr \<subseteq> row_ids (tables w)"
  shows "honest_reply tr (Sql (SelectJob j)) r"
  using assms(1)
proof (cases rule: perform_cases)
  case 3
  then have "job_rows r = filter (\<lambda>row. jr_id row = j) (jobs_t (tables w))"
    by (simp add: tables_serve sql_select_job_def del: serve.simps)
  moreover have "filter (\<lambda>row. jr_id row = j) (jobs_t (tables w)) \<noteq> []" if "j \<in> known tr"
    using that assms(2) by (auto simp: row_ids_def filter_empty_conv)
  ultimately show ?thesis by (simp add: honest_reply_def)
qed (simp_all add: honest_reply_def)

context redis_server
begin

lemma claimed_ids:
  assumes "queue_keys (ent (redis w))"
  shows "as_str (fst (serve exec i (RCmd (Brpoplpush READY_QUEUE INFLIGHT_QUEUE n)) w)) = Some j \<Longrightarrow> j \<in> queue_ids (queue_of (ent (redis w)))"
    and "as_str (fst (serve exec i (RCmd (Rpop DLQ)) w)) = Some j \<Longrightarrow> j \<in> queue_ids (queue_of (ent (redis w)))"
  using claim_refines(2) [OF assms, of "i_time i" n] pop_dlq_refines(2) [OF assms, of "i_time i"]
  by (auto simp: redis_serve claim_q_def pop_dlq_q_def queue_ids_def simp del: serve.simps split: if_splits)

lemma serve_agrees:
  assumes a: "stores_agree ent w" and p: "proper tr c" and k: "known tr \<subseteq> row_ids (tables w)"
  shows "stores_agree ent (snd (serve exec i c w))" (is ?A)
    and "row_ids (tables w) \<subseteq> row_ids (tables (snd (serve exec i c w)))" (is ?B)
proof -
  have q: "queue_keys (ent (redis w))" and al: "allowed (known tr) c" using a p by (simp_all add: stores_agree_def proper_def)
  show b: ?B
  proof (cases "\<exists>st. c = Sql st")
    case True
    then obtain st where "c = Sql st" by blast
    with row_ids_grow [of "tables w" "i_time i" "i_uuid i" st] show ?thesis by (simp add: tables_serve del: serve.simps)
  qed (simp add: tables_serve_other del: serve.simps)
  have wf: "db_wf (tables (snd (serve exec i c w)))"
  proof (cases "\<exists>st. c = Sql st")
    case True
    then show ?thesis using a sql_exec_wf by (auto simp: stores_agree_def tables_serve simp del: serve.simps)
  qed (use a in \<open>simp add: stores_agree_def tables_serve_other del: serve.simps\<close>)
  note s = serve_queue [OF q al, of i]
  have "queue_ids (queue_of (ent (redis (snd (serve exec i c w))))) \<subseteq> queue_ids (queue_of (ent (redis w))) \<union> known tr"
  proof (cases "qop_of c")
    case (Some x)
    with al have "puts x \<subseteq> known tr" by (simp add: allowed_def)
    with s Some queue_ids_apply [of x "queue_of (ent (redis w))"] show ?thesis by auto
  qed (use s in simp)
  with a b k s wf show ?A unfolding stores_agree_def by blast
qed

lemma perform_agrees:
  assumes a: "stores_agree ent w" and p: "proper tr c" and k: "known tr \<subseteq> row_ids (tables w)"
    and r: "perform exec i c w = (r, w')"
  shows "stores_agree ent w'" and "row_ids (tables w) \<subseteq> row_ids (tables w')" and "gives (c, r) \<subseteq> row_ids (tables w')"
    and "honest_reply tr c r"
proof -
  note s = serve_agrees [OF a p k, of i]
  from r show "stores_agree ent w'" by (cases rule: perform_cases) (use a s in simp_all)
  from r show "row_ids (tables w) \<subseteq> row_ids (tables w')" by (cases rule: perform_cases) (use s in simp_all)
  have g: "gives (c, fst (serve exec i c w)) \<subseteq> row_ids (tables (snd (serve exec i c w)))"
  proof -
    have q: "queue_keys (ent (redis w))" "queue_ids (queue_of (ent (redis w))) \<subseteq> row_ids (tables w)"
      using a by (simp_all add: stores_agree_def)
    have al: "allowed (known tr) c" using p by (simp add: proper_def)
    show ?thesis
    proof (cases "(c, fst (serve exec i c w))" rule: gives.cases)
      case (1 st r)
      then show ?thesis using job_rows_ids by (simp add: tables_serve del: serve.simps)
    next
      case (2 k k' n r)
      with al have "k = READY_QUEUE" "k' = INFLIGHT_QUEUE" by (auto simp: allowed_def queue_key_def split: if_splits)
      with 2 claimed_ids(1) [OF q(1), of i n] q(2) s(2) show ?thesis by (auto simp del: serve.simps)
    next
      case (3 k r)
      with al have "k = DLQ" by (auto simp: allowed_def queue_key_def split: if_splits)
      with 3 claimed_ids(2) [OF q(1), of i] q(2) s(2) show ?thesis by (auto simp del: serve.simps)
    qed (auto simp del: serve.simps)
  qed
  have n: "gives (c, r) = {}" if "job_rows r = []" "as_str r = None"
    using that by (cases "(c, r)" rule: gives.cases) auto
  from r show "gives (c, r) \<subseteq> row_ids (tables w')" by (cases rule: perform_cases) (use n g in auto)
  show "honest_reply tr c r"
  proof (cases "\<exists>j. c = Sql (SelectJob j)")
    case True
    with r honest_select [OF _ k] show ?thesis by blast
  qed (simp add: honest_reply_def)
qed

text \<open>A pop of the dead-letter queue may take the job when its answer is the job's id, or is lost.\<close>

lemma popped_last:
  assumes "queue_keys (ent (redis w))" and "c = RCmd (Rpop DLQ)" and "perform exec i c w = (r, w')" and "\<not> popped j (c, r)"
    and "present j (queue_of (ent (redis w)))"
  shows "present j (queue_of (ent (redis w')))"
  using assms(3)
proof (cases rule: perform_cases)
  case 3
  let ?q = "queue_of (ent (redis w))"
  have c: "qop_of c = Some OPopDlq" using assms(2) by simp
  have "r = resp_of (case pop_dlq_q ?q of None \<Rightarrow> RNil | Some (j, _) \<Rightarrow> RBulk (VStr j))"
    using 3(2) pop_dlq_refines(2) [OF assms(1), of "i_time i"] by (simp add: assms(2) redis_serve del: serve.simps)
  with assms(2,4) have "\<not> takes_out j ?q OPopDlq" by (auto simp: popped_def pop_dlq_q_def split: if_splits)
  from present_apply [OF assms(5) this] serve_queue [OF assms(1), of "{}" c i] 3(1) c show ?thesis by (simp add: allowed_def)
qed (use assms in \<open>auto simp: popped_def\<close>)

lemma perform_present:
  assumes "queue_keys (ent (redis w))" and "allowed K c" and "present j (queue_of (ent (redis w)))"
    and "qop_of c \<noteq> Some (OAck j)" and "\<not> popped j (c, r)" and "perform exec i c w = (r, w')"
  shows "present j (queue_of (ent (redis w')))"
proof (cases "qop_of c = Some OPopDlq")
  case True
  then have "c = RCmd (Rpop DLQ)" by (cases c rule: qop_of.cases) (auto split: if_splits)
  from popped_last [OF assms(1) this assms(6,5,3)] show ?thesis .
next
  case False
  have "present j (queue_of (ent (redis (snd (serve exec i c w)))))"
  proof (cases "qop_of c")
    case (Some x)
    with assms(4) False have "\<not> takes_out j (queue_of (ent (redis w))) x" by (cases x) auto
    with Some serve_queue [OF assms(1,2)] present_apply [OF assms(3)] show ?thesis by simp
  qed (use serve_queue [OF assms(1,2)] assms(3) in simp)
  with assms(6,3) show ?thesis by (cases rule: perform_cases) simp_all
qed

end

section \<open>Executions\<close>

definition proc_ok :: "'r world \<Rightarrow> event list \<Rightarrow> event list \<times> unit js \<Rightarrow> bool" where
  "proc_ok w evs x \<longleftrightarrow> runs_properly (snd x) (fst x) \<and> known (fst x) \<subseteq> row_ids (tables w) \<and> honest (fst x) \<and>
     set (fst x) \<subseteq> set evs"

lemma proc_ok_mono:
  "proc_ok w evs x \<Longrightarrow> row_ids (tables w) \<subseteq> row_ids (tables w') \<Longrightarrow> set evs \<subseteq> set evs' \<Longrightarrow> proc_ok w' evs' x"
  by (auto simp: proc_ok_def)

context redis_server
begin

lemma execution_ok:
  assumes "execution exec s p0 evs p" and "procs p0 = []" and "stores_agree ent (stores p0)"
  shows "stores_agree ent (stores p) \<and> (\<forall>x \<in> set (procs p). proc_ok (stores p) evs x)"
  using assms
proof (induction rule: execution.induct)
  case (start evs w ps t)
  then show ?case by (auto simp: proc_ok_def program_proper honest_def)
next
  case (act evs w ps tr c k qs i r w')
  from act have ok: "stores_agree ent w" "proc_ok w evs (tr, Do c k)" "\<forall>x \<in> set (ps @ qs). proc_ok w evs x" by auto
  then have t: "proper tr c" "known tr \<subseteq> row_ids (tables w)" "honest tr" "set tr \<subseteq> set evs" "\<forall>r. runs_properly (k r) (tr @ [(c, r)])"
    by (simp_all add: proc_ok_def)
  note p = perform_agrees [OF ok(1) t(1,2) act(2)]
  have "proc_ok w' (evs @ [(c, r)]) x" if "x \<in> set (ps @ qs)" for x
    using ok(3) that p(2) by (auto intro: proc_ok_mono)
  moreover have "proc_ok w' (evs @ [(c, r)]) (tr @ [(c, r)], k r)"
    using t p by (auto simp: proc_ok_def honest_snoc)
  ultimately show ?case using p(1) by auto
qed auto

text \<open>An execution goes on from any state that one has reached.\<close>

lemma execution_append:
  assumes "execution exec s p1 evs2 p2" and "execution exec s p0 evs1 p1"
  shows "execution exec s p0 (evs1 @ evs2) p2"
  using assms
proof (induction rule: execution.induct)
  case (act evs w ps tr c k qs i r w')
  from execution.act [OF act.IH [OF act.prems] act.hyps(2)] show ?case by simp
qed (auto intro: execution.intros)

text \<open>A job that is on the queue at some moment stays on it until some process has seen it finished, or
  pops it off the dead-letter queue.\<close>

lemma execution_keeps:
  assumes "execution exec s p1 evs2 p2" and "execution exec s p0 evs1 p1" and "procs p0 = []" and "stores_agree ent (stores p0)"
    and "present j (queue_of (ent (redis (stores p1))))"
  shows "present j (queue_of (ent (redis (stores p2)))) \<or> finished j (evs1 @ evs2) \<or> (\<exists>ev \<in> set evs2. popped j ev)"
  using assms
proof (induction rule: execution.induct)
  case (act evs w ps tr c k qs i r w')
  have ok: "stores_agree ent w" "proc_ok w (evs1 @ evs) (tr, Do c k)"
    using execution_ok [OF execution_append [OF act(1) act.prems(1)] act.prems(2,3)] by auto
  then have t: "proper tr c" "honest tr" "set tr \<subseteq> set (evs1 @ evs)" "queue_keys (ent (redis w))"
    by (simp_all add: proc_ok_def stores_agree_def)
  have grow: "finished j (evs1 @ evs) \<Longrightarrow> finished j (evs1 @ evs @ [(c, r)])" by (auto intro: finished_mono)
  show ?case
  proof (cases "qop_of c = Some (OAck j) \<or> popped j (c, r)")
    case True
    moreover have "finished j (evs1 @ evs)" if "qop_of c = Some (OAck j)"
      by (rule finished_mono [OF justified_finished [OF t(2)] t(3)]) (use that t(1) in \<open>simp add: proper_def\<close>)
    ultimately show ?thesis using grow by auto
  next
    case False
    with act.IH [OF act.prems] perform_present [OF t(4) _ _ _ _ act(2)] t(1) grow show ?thesis
      by (auto simp: proper_def)
  qed
qed auto

end

text \<open>A run of one task is an execution.\<close>

lemma run_execution:
  assumes "run exec pr ins w = ((tr, out), w')" and "execution exec s p0 evs \<lparr>stores = w, procs = (tr0, pr) # ps\<rparr>"
  shows "\<exists>pr'. execution exec s p0 (evs @ tr) \<lparr>stores = w', procs = (tr0 @ tr, pr') # ps\<rparr>"
  using assms
proof (induction pr arbitrary: ins w tr tr0 evs)
  case (Do c k)
  show ?case
  proof (cases ins)
    case Nil
    with Do.prems show ?thesis by auto
  next
    case (Cons i ins')
    obtain r w1 where p: "perform exec i c w = (r, w1)" by (metis prod.exhaust)
    obtain tr1 where t: "run exec (k r) ins' w1 = ((tr1, out), w')" "tr = (c, r) # tr1"
      using Do.prems(1) Cons p by (auto split: prod.splits)
    from execution.act [where ps = "[]" and qs = ps, simplified, OF Do.prems(2) p]
    have "execution exec s p0 (evs @ [(c, r)]) \<lparr>stores = w1, procs = (tr0 @ [(c, r)], k r) # ps\<rparr>" .
    from Do.IH [OF _ t(1) this] t(2) show ?thesis by auto
  qed
qed auto

lemma task_continues:
  assumes "run exec (program s t) ins w = ((tr, out), w')"
  shows "\<exists>ps'. execution exec s \<lparr>stores = w, procs = ps\<rparr> tr \<lparr>stores = w', procs = ps'\<rparr>"
proof -
  have "execution exec s \<lparr>stores = w, procs = ps\<rparr> [] \<lparr>stores = w, procs = ([], program s t) # ps\<rparr>"
    by (rule execution.start [OF execution.begin_here])
  from run_execution [OF assms, of s _ _ "[]" ps, OF this] show ?thesis by auto
qed

lemma task_execution:
  assumes "run exec (program s t) ins w = ((tr, out), w')"
  shows "\<exists>ps. execution exec s \<lparr>stores = w, procs = []\<rparr> tr \<lparr>stores = w', procs = ps\<rparr>"
  by (rule task_continues [OF assms])

section \<open>Examples\<close>

text \<open>A reference world: a webhook, a job with the given state and attempts, and the given queue.\<close>

definition sample_setting :: setting where
  "sample_setting = \<lparr>s_config = sample_config, s_hmac = (\<lambda>_ _. ''mac''), s_protocol = (\<lambda>_. Some ''http:''), s_validate = ref_validate\<rparr>"

definition sample_world :: "job_state \<Rightarrow> int \<Rightarrow> queue \<Rightarrow> keyspace world" where
  "sample_world st n q = \<lparr>redis = server_with q,
     tables = \<lparr>webhooks_t = [sample_webhook], jobs_t = [sample_row st n], attempts_t = [], jsonb = Some\<rparr>\<rparr>"

definition ok_input :: "ms \<Rightarrow> input" where
  "ok_input t = \<lparr>i_time = t, i_clock = t, i_random = 1 / 2, i_uuid = ''u'', i_bytes = ''s'', i_status = Some 200,
     i_text = Some ''ok'', i_uptime = 0, i_fault = NoFault\<rparr>"

text \<open>A world with a webhook and no job, and a request that sends an event to it.\<close>

definition sample_id :: string where "sample_id = ''00000000-0000-0000-0000-000000000000''"

definition quiet_world :: "keyspace world" where
  "quiet_world = \<lparr>redis = server_with empty_queue,
     tables = \<lparr>webhooks_t = [sample_webhook\<lparr>wr_id := sample_id\<rparr>], jobs_t = [], attempts_t = [], jsonb = Some\<rparr>\<rparr>"

definition sample_post :: request where
  "sample_post = \<lparr>rq_params = JObj [], rq_query = JObj [],
     rq_body = JObj [(''tenant'', JStr ''t''), (''webhookId'', JStr sample_id), (''eventType'', JStr ''e''), (''payload'', JRaw ''{}'')],
     rq_key = [], rq_parse = None\<rparr>"

lemma sample_agrees:
  "queue_wf q \<Longrightarrow> queue_ids q \<subseteq> {''j''} \<Longrightarrow> n \<le> 5 \<Longrightarrow> stores_agree (\<lambda>e. e) (sample_world st n q)"
  by (simp add: stores_agree_def sample_world_def db_wf_def sample_row_def sample_webhook_def row_ids_def)

section \<open>Properties\<close>

text \<open>C2: Postgres and Redis agree in every reachable state. Start from stores that agree and let any
  requests, workers and schedulers run, in any interleaving, with any faults of the connections and
  any of them dying at any point: the schema's promises hold, the queue's keys hold a queue, and
  every id on the ready, in-flight, delayed and dead-letter structures and in the leases has its
  row in Postgres.\<close>

theorem stores_always_agree:
  assumes "redis_server exec ent" and "stores_agree ent w"
    and "execution exec s \<lparr>stores = w, procs = []\<rparr> evs p"
  shows "stores_agree ent (stores p)"
  using redis_server.execution_ok [OF assms(1,3)] assms(2) by simp

theorem stores_always_agree_witness:
  "stores_agree (\<lambda>e. e) (snd (run mem_exec (program sample_setting (Worker 1)) (replicate 30 (ok_input 9))
     (sample_world Queued 0 (push_q ''j'' empty_queue))))"
proof -
  let ?run = "run mem_exec (program sample_setting (Worker 1)) (replicate 30 (ok_input 9))
     (sample_world Queued 0 (push_q ''j'' empty_queue))"
  have "stores_agree (\<lambda>e. e) (sample_world Queued 0 (push_q ''j'' empty_queue))"
    by (rule sample_agrees) (simp_all add: push_q_def empty_queue_def queue_wf_def queue_ids_def zwf_def)
  moreover obtain ps where "execution mem_exec sample_setting \<lparr>stores = sample_world Queued 0 (push_q ''j'' empty_queue), procs = []\<rparr>
      (fst (fst ?run)) \<lparr>stores = snd ?run, procs = ps\<rparr>"
    using task_execution [of mem_exec sample_setting "Worker 1" _ _ "fst (fst ?run)" "snd (fst ?run)" "snd ?run"] by auto
  ultimately show ?thesis using stores_always_agree [OF mem_server] by fastforce
qed

text \<open>C1: At least once. In every such execution, take any moment, before, between or after the commands
  of its processes. A job that is on the queue then (ready, in flight, delayed or dead-lettered),
  whether it was there from the start or was enqueued on the way, and is gone from it at any later
  moment was finished: a worker read its row as succeeded or dead, or the endpoint accepted a
  request that carried its id, with a 2xx status; unless, between the two moments, a replay popped
  this very id off the dead-letter queue, or lost the answer of a pop. No crash, lost reply or
  interleaving of the others drops a job.\<close>

theorem jobs_leave_when_finished:
  assumes "redis_server exec ent" and "stores_agree ent w"
    and "execution exec s \<lparr>stores = w, procs = []\<rparr> evs1 p1" and "execution exec s p1 evs2 p2"
    and "present j (queue_of (ent (redis (stores p1))))" and "\<not> present j (queue_of (ent (redis (stores p2))))"
    and "\<forall>ev \<in> set evs2. \<not> popped j ev"
  shows "finished j (evs1 @ evs2)"
  using redis_server.execution_keeps [OF assms(1,4,3)] assms(2,5-7) by auto

text \<open>In the witness a client's request enqueues the job, and then a worker delivers it.\<close>

theorem jobs_leave_when_finished_witness:
  "finished ''u'' (fst (fst (run mem_exec (program sample_setting (Api Post_events sample_post)) (replicate 10 (ok_input 9))
       quiet_world)) @
     fst (fst (run mem_exec (program sample_setting (Worker 1)) (replicate 30 (ok_input 9))
       (snd (run mem_exec (program sample_setting (Api Post_events sample_post)) (replicate 10 (ok_input 9))
         quiet_world)))))"
proof -
  let ?w = quiet_world
  let ?run1 = "run mem_exec (program sample_setting (Api Post_events sample_post)) (replicate 10 (ok_input 9)) ?w"
  let ?run2 = "run mem_exec (program sample_setting (Worker 1)) (replicate 30 (ok_input 9)) (snd ?run1)"
  have a: "stores_agree (\<lambda>e. e) ?w"
    by (simp add: quiet_world_def stores_agree_def db_wf_def row_ids_def empty_queue_def queue_wf_def queue_ids_def zwf_def)
  obtain tr1 out1 w1 where 1: "?run1 = ((tr1, out1), w1)" by (metis prod.exhaust)
  obtain tr2 out2 w2 where 2: "?run2 = ((tr2, out2), w2)" by (metis prod.exhaust)
  obtain ps where e1: "execution mem_exec sample_setting \<lparr>stores = ?w, procs = []\<rparr> tr1 \<lparr>stores = w1, procs = ps\<rparr>"
    using task_execution [OF 1] by blast
  obtain ps' where e2: "execution mem_exec sample_setting \<lparr>stores = w1, procs = ps\<rparr> tr2 \<lparr>stores = w2, procs = ps'\<rparr>"
    using task_continues [OF 2 [unfolded 1 snd_conv]] by blast
  have "case ?run1 of (_, w1) \<Rightarrow> present ''u'' (queue_of (redis w1)) \<and>
      (case run mem_exec (program sample_setting (Worker 1)) (replicate 30 (ok_input 9)) w1 of ((tr, _), w2) \<Rightarrow>
        \<not> present ''u'' (queue_of (redis w2)) \<and> (\<forall>ev \<in> set tr. fst ev \<noteq> RCmd (Rpop DLQ)))" by code_simp
  then have "present ''u'' (queue_of (redis w1))" "\<not> present ''u'' (queue_of (redis w2))" "\<forall>ev \<in> set tr2. fst ev \<noteq> RCmd (Rpop DLQ)"
    unfolding 1 prod.case 2 [unfolded 1 snd_conv] by simp_all
  then have "finished ''u'' (tr1 @ tr2)"
    using jobs_leave_when_finished [OF mem_server a e1 e2, of "''u''"] by (simp add: popped_def)
  then show ?thesis unfolding 1 snd_conv fst_conv 2 [unfolded 1 snd_conv] .
qed

end
