(* ===== verification/Settlement.thy ===== *)
theory Settlement
  imports Platform
begin

text \<open>
  What one run of \<open>process\<close> leaves in the two stores when nothing else touches the job: the row, the
  attempts and the queue agree on the outcome. And what a crash between the two stores leaves, on
  the reference server: the places where the two can come to disagree for good.
\<close>

section \<open>Commands that change neither the queue nor the outcome\<close>

fun quiet_stmt :: "stmt \<Rightarrow> bool" where
  "quiet_stmt (UpdateJob i st n err t) \<longleftrightarrow> n = 0 \<and> t = None"
| "quiet_stmt (InsertJob t w e p ra) \<longleftrightarrow> False"
| "quiet_stmt (ResetJob i) \<longleftrightarrow> False"
| "quiet_stmt _ \<longleftrightarrow> True"

fun quiet :: "eff \<Rightarrow> bool" where
  "quiet (Sql st) \<longleftrightarrow> quiet_stmt st"
| "quiet (RCmd c) \<longleftrightarrow> False"
| "quiet (Eval s ks vs) \<longleftrightarrow> other_script s \<and> (\<exists>k. ks = [k] \<and> \<not> queue_key k)"
| "quiet _ \<longleftrightarrow> True"

lemma quiet_beside: "quiet c \<Longrightarrow> qop_of c = None \<and> beside_queue c"
  by (cases c rule: qop_of.cases) auto

text \<open>What they leave of a job's row.\<close>

definition same_budget :: "job_row \<Rightarrow> job_row \<Rightarrow> bool" where
  "same_budget row row' \<longleftrightarrow> jr_id row' = jr_id row \<and> jr_attempts row' = jr_attempts row \<and> jr_maxattempts row' = jr_maxattempts row"

lemma rows_of_change:
  assumes "\<And>row. jr_id (f row) = jr_id row"
  shows "rows_of i (change_job i' f d) = (if i' = i then map f (rows_of i d) else rows_of i d)"
proof -
  have "filter (\<lambda>row. jr_id row = i) (map (\<lambda>row. if jr_id row = i' then f row else row) rows) =
      (if i' = i then map f (filter (\<lambda>row. jr_id row = i) rows) else filter (\<lambda>row. jr_id row = i) rows)" for rows
    by (induction rows) (auto simp: assms)
  then show ?thesis by (simp add: rows_of_def change_job_def)
qed

lemma quiet_sql:
  assumes "quiet_stmt st" and "rows_of i d = [row]"
  shows "\<exists>row'. rows_of i (snd (sql_exec now uuid st d)) = [row'] \<and> same_budget row row'"
proof (cases st)
  case (UpdateJob i' state n err t)
  with assms show ?thesis
    by (auto simp: sql_update_job_def violates_def refuses_text_def Let_def rows_of_change same_budget_def updated_row_def)
qed (use assms in \<open>auto simp: sql_defs Let_def rows_of_def same_budget_def split: option.split\<close>)

lemma same_budget_trans: "same_budget a b \<Longrightarrow> same_budget b c \<Longrightarrow> same_budget a c"
  by (simp add: same_budget_def)

lemma quiet_serve_rows:
  assumes "quiet c" and "rows_of i (tables w) = [row]"
  shows "\<exists>row'. rows_of i (tables (snd (serve exec inp c w))) = [row'] \<and> same_budget row row'"
proof (cases "\<exists>st. c = Sql st")
  case True
  then obtain st where "c = Sql st" by blast
  with quiet_sql [of st i "tables w" row "i_time inp" "i_uuid inp"] assms show ?thesis
    by (simp add: tables_serve del: serve.simps)
qed (use assms in \<open>simp add: tables_serve_other same_budget_def del: serve.simps\<close>)

context redis_server
begin

lemma quiet_steps:
  assumes "perform_all exec tr ins w w'" and "list_all quiet (map fst tr)" and "queue_keys (ent (redis w))"
    and "rows_of i (tables w) = [row]"
  shows "queue_keys (ent (redis w')) \<and> queue_of (ent (redis w')) = queue_of (ent (redis w)) \<and>
    (\<exists>row'. rows_of i (tables w') = [row'] \<and> same_budget row row')"
  using assms
proof (induction tr arbitrary: ins w row)
  case Nil
  then show ?case by (simp add: same_budget_def)
next
  case (Cons ev tr)
  from Cons.prems(1) obtain inp ins' w1 where p: "perform exec inp (fst ev) w = (snd ev, w1)" "perform_all exec tr ins' w1 w'"
    by auto
  have q: "quiet (fst ev)" using Cons.prems(2) by simp
  have b: "allowed {} (fst ev)" "qop_of (fst ev) = None" using quiet_beside [OF q] by (simp_all add: allowed_def)
  note s = serve_queue [OF Cons.prems(3) b(1), of inp] quiet_serve_rows [OF q Cons.prems(4), of exec inp]
  from p(1) have w1: "queue_keys (ent (redis w1)) \<and> queue_of (ent (redis w1)) = queue_of (ent (redis w)) \<and>
      (\<exists>row'. rows_of i (tables w1) = [row'] \<and> same_budget row row')"
    by (cases rule: perform_cases) (use s b(2) Cons.prems(3,4) in \<open>auto simp: same_budget_def simp del: serve.simps\<close>)
  then obtain row1 where r1: "rows_of i (tables w1) = [row1]" "same_budget row row1" by blast
  from Cons.IH [OF p(2) _ _ r1(1)] w1 Cons.prems(2) r1(2) show ?case by (auto intro: same_budget_trans)
qed

end

section \<open>The end of a run\<close>

text \<open>The queue after the release that goes with a verdict; a retry is due when the row says.\<close>

fun released :: "job_state \<Rightarrow> jobid \<Rightarrow> ms \<Rightarrow> queue \<Rightarrow> queue" where
  "released Succeeded j due q = ack_q j q"
| "released Dead j due q = dead_q j q"
| "released _ j due q = retry_q j due q"

lemma live_run_quiet:
  assumes "jr_state row \<noteq> Succeeded" and "jr_state row \<noteq> Dead"
    and "play (process cfg hmac jobId) (JobRows [row] # rs) = (tr, Done ())" and "statuses tr = [st]"
  shows "list_all quiet (map fst (take (length tr - 2) tr))"
proof -
  let ?tr0 = "[(Sql (SelectJob jobId), JobRows [row])]"
  obtain tr1 where p: "play (process_live cfg hmac jobId (toJob row)) rs = (tr1, Done ())" "tr = ?tr0 @ tr1"
    by (rule play_liveE [OF assms(1-3)])
  have "wp (process_live cfg hmac jobId (toJob row))
      (\<lambda>tr _. statuses tr = [st] \<longrightarrow> list_all quiet (map fst (take (length tr - 2) tr)))
      (\<lambda>tr _. True) (\<lambda>tr c. True) ?tr0"
    by (auto simp add: wp_simps live_code toJob_def)
  from wp_play [OF this p(1)] p(2) assms(4) show ?thesis by simp
qed

lemma ended_withD:
  assumes "ended_with [c, c'] tr"
  obtains r r' where "tr = take (length tr - 2) tr @ [(c, r), (c', r')]" and "\<not> rejected r" and "\<not> rejected r'"
proof -
  have m: "map fst (drop (length tr - 2) tr) = [c, c']" "\<forall>e \<in> set (drop (length tr - 2) tr). \<not> rejected (snd e)"
    using assms by (simp_all add: ended_with_def numeral_2_eq_2)
  then obtain r r' where d: "drop (length tr - 2) tr = [(c, r), (c', r')]" by auto
  then have "tr = take (length tr - 2) tr @ [(c, r), (c', r')]" by (metis append_take_drop_id)
  from that [OF this] m(2) d show ?thesis by simp
qed

lemma update_step:
  assumes "perform exec i (Sql (UpdateJob j st n err t)) w = (r, w1)" and "\<not> rejected r" and "rows_of j (tables w) = [row]"
  shows "redis w1 = redis w" and "rows_of j (tables w1) = [updated_row (i_time i) st n err t row]"
proof -
  from assms(1,2) have s: "w1 = snd (serve exec i (Sql (UpdateJob j st n err t)) w)" "r = fst (serve exec i (Sql (UpdateJob j st n err t)) w)"
    by (cases rule: perform_cases; simp del: serve.simps)+
  then show "redis w1 = redis w" by (simp add: tables_serve del: serve.simps)
  show "rows_of j (tables w1) = [updated_row (i_time i) st n err t row]"
    using s assms(2,3)
    by (auto simp: tables_serve sql_update_job_def violates_def refuses_text_def Let_def rows_of_change simp del: serve.simps split: if_splits)
qed

context redis_server
begin

lemma release_step:
  assumes "perform exec i c w = (r, w1)" and "\<not> rejected r" and "qop_of c = Some x" and "queue_keys (ent (redis w))"
  shows "tables w1 = tables w" and "queue_of (ent (redis w1)) = qop_apply x (queue_of (ent (redis w)))"
proof -
  from assms(1,2) have s: "w1 = snd (serve exec i c w)" by (cases rule: perform_cases) simp_all
  have "\<forall>st. c \<noteq> Sql st" using assms(3) by auto
  then show "tables w1 = tables w" using s by (simp add: tables_serve_other del: serve.simps)
  show "queue_of (ent (redis w1)) = qop_apply x (queue_of (ent (redis w)))"
    using s qop_served [OF assms(4,3)] by simp
qed

lemma last_steps:
  assumes "perform_all exec (tr @ [(Sql (UpdateJob j st 1 err t), r), (c, r')]) ins w w'"
    and "list_all quiet (map fst tr)" and "queue_keys (ent (redis w))" and "rows_of j (tables w) = [row]"
    and "\<not> rejected r" and "\<not> rejected r'" and "qop_of c = Some x"
  shows "\<exists>row'. rows_of j (tables w') = [row'] \<and> jr_state row' = st \<and> jr_attempts row' = jr_attempts row + 1 \<and>
    (\<forall>due. t = Some due \<longrightarrow> jr_runat row' = due) \<and>
    queue_of (ent (redis w')) = qop_apply x (queue_of (ent (redis w)))"
proof -
  from assms(1) obtain w1 w2 i i' where s: "perform_all exec tr ins w w1"
    "perform exec i (Sql (UpdateJob j st 1 err t)) w1 = (r, w2)" "perform exec i' c w2 = (r', w')"
    unfolding perform_all_append by auto
  from quiet_steps [OF s(1) assms(2-4)] obtain row1 where
    q: "queue_keys (ent (redis w1))" "queue_of (ent (redis w1)) = queue_of (ent (redis w))"
      "rows_of j (tables w1) = [row1]" "same_budget row row1" by blast
  note u = update_step [OF s(2) assms(5) q(3)]
  have "queue_keys (ent (redis w2))" using u(1) q(1) by simp
  note rel = release_step [OF s(3) assms(6,7) this]
  from u rel q show ?thesis by (auto simp: updated_row_def same_budget_def)
qed

lemma ending:
  assumes "ended_with [Sql (UpdateJob j st 1 err t), c] tr" and "perform_all exec tr ins w w'"
    and "list_all quiet (map fst (take (length tr - 2) tr))" and "queue_keys (ent (redis w))"
    and "rows_of j (tables w) = [row]" and "qop_of c = Some x"
  shows "\<exists>row'. rows_of j (tables w') = [row'] \<and> jr_state row' = st \<and> jr_attempts row' = jr_attempts row + 1 \<and>
    (\<forall>due. t = Some due \<longrightarrow> jr_runat row' = due) \<and>
    queue_of (ent (redis w')) = qop_apply x (queue_of (ent (redis w)))"
proof -
  obtain r r' where eq: "tr = take (length tr - 2) tr @ [(Sql (UpdateJob j st 1 err t), r), (c, r')]"
    and ok: "\<not> rejected r" "\<not> rejected r'"
    by (rule ended_withD [OF assms(1)])
  from assms(2) have "perform_all exec (take (length tr - 2) tr @ [(Sql (UpdateJob j st 1 err t), r), (c, r')]) ins w w'"
    by (simp only: eq [symmetric])
  from last_steps [OF this assms(3-5) ok assms(6)] show ?thesis .
qed

lemma settled_aux:
  assumes "queue_keys (ent (redis w))" and "rows_of j (tables w) = [row]"
    and "jr_state row \<noteq> Succeeded" and "jr_state row \<noteq> Dead"
    and "run exec (process cfg hmac j) ins w = ((tr, Done ()), w')" and "statuses tr = [st]"
  shows "\<exists>row'. rows_of j (tables w') = [row'] \<and> jr_state row' = verdict (toJob row) st \<and>
    jr_attempts row' = jr_attempts row + 1 \<and>
    queue_of (ent (redis w')) = released (verdict (toJob row) st) j (jr_runat row') (queue_of (ent (redis w)))"
proof -
  from run_is_play [OF assms(5)] have p: "play (process cfg hmac j) (map snd tr) = (tr, Done ())" "perform_all exec tr ins w w'" by auto
  have "\<exists>rs. map snd tr = JobRows [row] # rs"
  proof (cases tr)
    case Nil
    with assms(6) show ?thesis by simp
  next
    case (Cons ev tr1)
    with p(1) have c: "fst ev = Sql (SelectJob j)"
      by (cases ev) (auto simp: process_def find_job_def await_def split: prod.splits)
    from Cons p(2) obtain i w1 where e: "perform exec i (Sql (SelectJob j)) w = (snd ev, w1)" using c by auto
    have "\<not> rejected (snd ev)"
      using p(1) Cons by (cases "snd ev") (auto simp: process_def find_job_def await_def split: prod.splits)
    with e have "snd ev = fst (serve exec i (Sql (SelectJob j)) w)" by (cases rule: perform_cases) simp_all
    with assms(2) Cons show ?thesis
      by (simp add: tables_serve sql_select_job_def rows_of_def del: serve.simps)
  qed
  then obtain rs where rs: "play (process cfg hmac j) (JobRows [row] # rs) = (tr, Done ())" using p(1) by auto
  have id: "jr_id row = j" using arg_cong [OF assms(2), of set] by (auto simp: rows_of_def)
  note quiet = live_run_quiet [OF assms(3,4) rs assms(6)]
  note l = ending [OF _ p(2) quiet assms(1,2)]
  from live_run_settles [OF assms(3,4) rs assms(6)] id have e: "settled_as (verdict (toJob row) st) j j tr" by simp
  consider "verdict (toJob row) st = Succeeded" | "verdict (toJob row) st = Dead" | "verdict (toJob row) st = Queued"
    by (metis verdict_def)
  then show ?thesis
  proof cases
    case 1
    with e have "ended_with [Sql (UpdateJob j Succeeded 1 None None), Eval ACK_SCRIPT [INFLIGHT_QUEUE, LEASES] [VStr j]] tr" by simp
    from l [OF this, of "OAck j"] 1 show ?thesis by simp
  next
    case 2
    with e obtain err where "ended_with [Sql (UpdateJob j Dead 1 err None), Eval DLQ_SCRIPT [INFLIGHT_QUEUE, LEASES, DLQ] [VStr j]] tr" by auto
    from l [OF this, of "ODead j"] 2 show ?thesis by simp
  next
    case 3
    with e obtain err due where "ended_with [Sql (UpdateJob j Queued 1 err (Some due)),
        Eval RETRY_SCRIPT [INFLIGHT_QUEUE, LEASES, DELAYED] [VStr j, VNum (of_int due)]] tr" by auto
    from l [OF this, of "ORetry j due"] 3 show ?thesis by auto
  qed
qed

end

section \<open>Properties\<close>

text \<open>C5: Row and queue agree on the outcome. A run of \<open>process\<close> on a live job that returns after a
  request with status \<open>st\<close>, with nothing else touching the job meanwhile, leaves exactly this: the
  row in the state the status calls for, one attempt more, and the job off the in-flight list and
  the leases and, by the same outcome, nowhere else, on the dead-letter list, or on the delayed set
  with the row's due time.\<close>

theorem settled_in_both_stores:
  assumes "redis_server exec ent" and "queue_keys (ent (redis w))" and "rows_of j (tables w) = [row]"
    and "jr_state row \<noteq> Succeeded" and "jr_state row \<noteq> Dead"
    and "run exec (process cfg hmac j) ins w = ((tr, Done ()), w')" and "statuses tr = [st]"
  shows "\<exists>row'. rows_of j (tables w') = [row'] \<and> jr_state row' = verdict (toJob row) st \<and>
    jr_attempts row' = jr_attempts row + 1 \<and>
    queue_of (ent (redis w')) = released (verdict (toJob row) st) j (jr_runat row') (queue_of (ent (redis w)))"
  by (rule redis_server.settled_aux [OF assms])

definition claimed :: queue where
  "claimed = \<lparr>ready = [], inflight = [''j''], leases = [(''j'', 60000)], delayed = [], dlq = []\<rparr>"

theorem settled_in_both_stores_witness:
  "map jr_state (rows_of ''j'' (tables (snd (run mem_exec (process sample_config (\<lambda>_ _. []) ''j'')
     (replicate 30 (ok_input 9\<lparr>i_status := Some 503\<rparr>)) (sample_world In_flight 4 claimed))))) = [Dead]"
proof -
  let ?w = "sample_world In_flight 4 claimed"
  let ?run = "run mem_exec (process sample_config (\<lambda>_ _. []) ''j'') (replicate 30 (ok_input 9\<lparr>i_status := Some 503\<rparr>)) ?w"
  have q: "queue_keys (redis ?w)" by (simp add: sample_world_def claimed_def queue_wf_def zwf_def)
  have r: "rows_of ''j'' (tables ?w) = [sample_row In_flight 4]" by (simp add: sample_world_def rows_of_def sample_row_def)
  have live: "jr_state (sample_row In_flight 4) \<noteq> Succeeded" "jr_state (sample_row In_flight 4) \<noteq> Dead"
    by (simp_all add: sample_row_def)
  have "snd (fst ?run) = Done ()" and st: "statuses (fst (fst ?run)) = [Some 503]" by code_simp+
  then have "?run = ((fst (fst ?run), Done ()), snd ?run)" by (simp only: prod_eq_iff fst_conv snd_conv)
  from settled_in_both_stores [OF mem_server q r live this st]
  obtain row' where "rows_of ''j'' (tables (snd ?run)) = [row']" "jr_state row' = verdict (toJob (sample_row In_flight 4)) (Some 503)"
    by blast
  then show ?thesis by (simp add: verdict_def ok_status_def isRetryable_def toJob_def sample_row_def)
qed

text \<open>A crash between the two stores can take a dead job off the dead-letter queue for good. The last
  attempt of a job fails; the worker records the row as dead and dies before the script that moves
  the job to the dead-letter queue. The reaper returns it to the ready list, the next worker finds
  a terminal row and acknowledges it: the row is dead, and the job is on no list an operator could
  replay it from.\<close>

theorem dead_job_misses_the_dlq:
  "let fail = ok_input 9\<lparr>i_status := Some 503\<rparr>;
       crashed = snd (run mem_exec (process sample_config (\<lambda>_ _. []) ''j'') (replicate 18 fail) (sample_world Queued 4 claimed));
       reaped = snd (run mem_exec (reapExpired 60000 100) [ok_input 60000] crashed);
       w = snd (run mem_exec (consume sample_config (\<lambda>_ _. []) 1) (replicate 9 (ok_input 60001)) reaped)
   in map jr_state (rows_of ''j'' (tables w)) = [Dead] \<and> queue_of (redis w) = empty_queue"
  by code_simp

text \<open>A crash of a replay can lose the job it holds. The replay pops the id and dies before the row
  is reset: the row stays dead and the id is on no list; a later replay finds nothing.\<close>

theorem replay_crash_loses_the_job:
  "let w0 = sample_world Dead 5 (empty_queue\<lparr>dlq := [''j'']\<rparr>);
       crashed = snd (run mem_exec (replay 100) [ok_input 9] w0);
       again = run mem_exec (replay 100) (replicate 5 (ok_input 10)) crashed
   in snd (fst again) = Done [] \<and> map jr_state (rows_of ''j'' (tables (snd again))) = [Dead] \<and>
      queue_of (redis (snd again)) = empty_queue"
  by code_simp

text \<open>An update of a row does not look at the state it replaces. A worker is held up after its delivery was
  refused, until its lease has run out and another worker has delivered the job; when it goes on, it
  overwrites the result: the delivered job is queued again, and on the delayed set, to be sent once
  more.\<close>

theorem late_worker_reopens_a_finished_job:
  "let refused = \<lparr>dr_success = False, dr_statusCode = Some 503, dr_error = Some ''HTTP 503'', dr_durationMs = 1, dr_retryable = True\<rparr>;
       w = snd (run mem_exec (settle sample_config (toJob (sample_row In_flight 0)) ''j'' refused) (replicate 6 (ok_input 60012))
         (sample_world Succeeded 1 empty_queue))
   in map jr_state (rows_of ''j'' (tables w)) = [Queued] \<and> map fst (delayed (queue_of (redis w))) = [''j'']"
  by code_simp

end
