(* ===== verification/Progress.thy ===== *)
theory Progress
  imports Http_Safety Jobs_Safety Processes
begin

text \<open>
  Every function of the platform comes to an end: how many answers from outside it needs at most.
  None loops on its own account, whatever it is answered; only the process loops go on.
\<close>

lemma cut_uses_all: "play p rs = (tr, Cut c) \<Longrightarrow> length tr = length rs"
proof (induction p arbitrary: rs tr)
  case (Do d k)
  show ?case
  proof (cases rs)
    case (Cons r rs')
    with Do.prems obtain tr1 where "play (k r) rs' = (tr1, Cut c)" "tr = (d, r) # tr1" by (auto split: prod.splits)
    with Do.IH [OF _ this(1)] Cons show ?thesis by simp
  qed (use Do.prems in simp)
qed simp_all

lemma ends_within:
  assumes "wp p (\<lambda>_ _. True) (\<lambda>_ _. True) (\<lambda>tr c. length tr < n) []" and "n \<le> length rs"
  shows "snd (play p rs) \<noteq> Cut c"
proof
  assume "snd (play p rs) = Cut c"
  then have p: "play p rs = (fst (play p rs), Cut c)" by (metis prod.collapse)
  from wp_cut [OF assms(1) p] cut_uses_all [OF p] assms(2) show False by simp
qed

lemma replay_length:
  assumes "length tr + 3 * n \<le> m"
  shows "wp (replay_loop n replayed) (\<lambda>_ _. True) (\<lambda>_ _. True) (\<lambda>tr c. length tr < m) tr"
  using assms by (induction n arbitrary: tr replayed) (simp_all add: wp_simps replay_code)

lemma process_length: "wp (process cfg hmac j) (\<lambda>_ _. True) (\<lambda>_ _. True) (\<lambda>tr c. length tr < 21) []"
  by (simp add: wp_simps process_code)

lemma tick_length: "wp (tick l) (\<lambda>_ _. True) (\<lambda>_ _. True) (\<lambda>tr c. length tr < 6) []"
  by (cases l) (simp_all add: wp_simps tick_code)

lemma handle_length:
  assumes "validator validate" and "check_request validate rt rq = Inr rq'"
  shows "wp (handle protocol_of rt rq') (\<lambda>_ _. True) (\<lambda>_ _. True) (\<lambda>tr c. length tr < 3000) []"
proof (cases rt)
  case Post_replay
  from replay_limit [OF assms(1)] assms(2) Post_replay
  have "3 * nat (the_default 100 (num_of (field ''limit'' (rq_body rq')))) \<le> 3000" by fastforce
  with replay_length [of "[]" _ 3000 "[]"] Post_replay show ?thesis
    by (simp add: post_replay_def replay_def ok_def wp_simps)
qed (auto simp: wp_simps handler_code service_code)

section \<open>Properties\<close>

text \<open>C39: Everything returns. Whatever Redis, Postgres, the clocks and the endpoints answer, processing a
  job has returned or thrown after at most 21 answers, a tick of the scheduler after 6, and a
  request to the API after 3000 (a replay of 1000 jobs; any other request after a handful).\<close>

theorem every_function_returns:
  assumes "validator validate"
  shows "(21 \<le> length rs \<longrightarrow> snd (play (process cfg hmac j) rs) \<noteq> Cut c) \<and>
    (6 \<le> length rs \<longrightarrow> snd (play (tick l) rs) \<noteq> Cut c) \<and>
    (3000 \<le> length rs \<longrightarrow> snd (play (respond protocol_of validate rt rq) rs) \<noteq> Cut c)"
proof -
  have "wp (respond protocol_of validate rt rq) (\<lambda>_ _. True) (\<lambda>_ _. True) (\<lambda>tr c. length tr < 3000) []"
    by (rule wp_respond) (use handle_length [OF assms] in auto)
  then show ?thesis using ends_within [OF process_length] ends_within [OF tick_length] ends_within by blast
qed

theorem every_function_returns_witness:
  "snd (play (process sample_config (\<lambda>_ _. []) ''j'') (replicate 21 (Time 0))) \<noteq> Cut DateNow"
  using every_function_returns [OF ref_validator, of "replicate 21 (Time 0)" sample_config "\<lambda>_ _. []" "''j''" DateNow] by simp

end
