(* ===== verification/Healthy.thy ===== *)
theory Healthy
  imports Settlement Enqueue_Safety Progress
begin

text \<open>
  Healthy runs: what the platform gets done when the stores are up. The other theories say what can
  never go wrong, whatever fails; this one says that a run in which nothing fails reaches its end,
  and what it leaves there. \<open>lands\<close> is total correctness of a program on the two stores, with one
  contract per function of the code.
\<close>

section \<open>Total correctness on the stores\<close>

text \<open>Whatever inputs with \<open>H\<close> it gets, the program returns, and then \<open>Q\<close> holds of the events, the value
  and the stores.\<close>

primrec lands :: "(ms \<Rightarrow> rcmd \<Rightarrow> 'r \<Rightarrow> reply \<times> 'r) \<Rightarrow> (input \<Rightarrow> bool) \<Rightarrow> 'a js \<Rightarrow>
    (event list \<Rightarrow> 'a \<Rightarrow> 'r world \<Rightarrow> bool) \<Rightarrow> event list \<Rightarrow> 'r world \<Rightarrow> bool" where
  "lands exec H (Ret a) Q = (\<lambda>tr w. Q tr a w)"
| "lands exec H (Throw e) Q = (\<lambda>tr w. False)"
| "lands exec H (Do c k) Q = (\<lambda>tr w. \<forall>i. H i \<longrightarrow>
     lands exec H (k (fst (perform exec i c w))) Q (tr @ [(c, fst (perform exec i c w))]) (snd (perform exec i c w)))"

lemma lands_bind:
  "lands exec H (bind_prog p f) Q tr w = lands exec H p (\<lambda>tr a w. lands exec H (f a) Q tr w) tr w"
  by (induction p arbitrary: tr w) auto

lemma lands_catch: "lands exec H p Q tr w \<Longrightarrow> lands exec H (catch_prog p h) Q tr w"
  by (induction p arbitrary: tr w) auto

lemma lands_mono:
  "lands exec H p Q tr w \<Longrightarrow> (\<And>tr a w. Q tr a w \<Longrightarrow> Q' tr a w) \<Longrightarrow> lands exec H p Q' tr w"
  by (induction p arbitrary: tr w) auto

lemma lands_run:
  assumes "lands exec H p Q tr w" and "\<forall>i \<in> set ins. H i" and "run exec p ins w = ((tr', out), w')"
    and "\<And>c. out \<noteq> Cut c"
  shows "\<exists>a. out = Done a \<and> Q (tr @ tr') a w'"
  using assms
proof (induction p arbitrary: tr w ins tr')
  case (Do c k)
  from Do.prems(3,4) obtain i ins' where ins: "ins = i # ins'" by (cases ins) auto
  obtain r w1 where p: "perform exec i c w = (r, w1)" by (metis prod.exhaust)
  obtain tr1 where t: "run exec (k r) ins' w1 = ((tr1, out), w')" "tr' = (c, r) # tr1"
    using Do.prems(3) ins p by (auto split: prod.splits)
  have "lands exec H (k r) Q (tr @ [(c, r)]) w1" using Do.prems(1,2) ins p by auto
  from Do.IH [OF _ this _ t(1) Do.prems(4)] Do.prems(2) ins t(2) show ?case by auto
qed auto

lemma cut_run_uses_all: "run exec p ins w = ((tr, Cut c), w') \<Longrightarrow> length tr = length ins"
proof (induction p arbitrary: ins w tr)
  case (Do d k)
  show ?case
  proof (cases ins)
    case (Cons i ins')
    obtain r w1 where p: "perform exec i d w = (r, w1)" by (metis prod.exhaust)
    obtain tr1 where t: "run exec (k r) ins' w1 = ((tr1, Cut c), w')" "tr = (d, r) # tr1"
      using Do.prems Cons p by (auto split: prod.splits)
    from Do.IH [OF rangeI t(1)] Cons t(2) show ?thesis by simp
  qed (use Do.prems in simp)
qed auto

text \<open>A run that is given as many inputs as the program can use does not end for want of one.\<close>

lemma run_complete:
  assumes "wp p (\<lambda>_ _. True) (\<lambda>_ _. True) (\<lambda>tr c. length tr < n) []" and "n \<le> length ins"
    and "run exec p ins w = ((tr, out), w')"
  shows "out \<noteq> Cut c"
proof
  assume "out = Cut c"
  with run_is_play [OF assms(3)] have p: "play p (map snd tr) = (tr, Cut c)" by simp
  with wp_cut [OF assms(1) p] assms(2) cut_run_uses_all assms(3) show False using \<open>out = Cut c\<close> by fastforce
qed

text \<open>Nothing is lost on the way to the stores, and the endpoint answers with \<open>st\<close> (or not
  at all), in a text that Postgres can store.\<close>

definition healthy :: "int option \<Rightarrow> input \<Rightarrow> bool" where
  "healthy st i \<longleftrightarrow> i_fault i = NoFault \<and> i_status i = st \<and> storable_opt (i_text i)"

lemma healthy_perform: "i_fault i = NoFault \<Longrightarrow> perform exec i c w = serve exec i c w"
  by (simp add: perform_def del: serve.simps)

lemma lands_await:
  assumes "\<And>i. H i \<Longrightarrow> i_fault i = NoFault"
    and "\<And>i. H i \<Longrightarrow> \<not> rejected (fst (serve exec i c w)) \<and>
      lands exec H (k (fst (serve exec i c w))) Q (tr @ [(c, fst (serve exec i c w))]) (snd (serve exec i c w))"
  shows "lands exec H (await c k) Q tr w"
  unfolding await_def lands.simps
proof (intro allI impI)
  fix i
  assume "H i"
  have "lands exec H (case r of Rejected m \<Rightarrow> Throw (Failure m) | _ \<Rightarrow> k r) Q tr' w' = lands exec H (k r) Q tr' w'"
    if "\<not> rejected r" for r tr' w' using that by (cases r) auto
  with assms(2) [OF \<open>H i\<close>]
  show "lands exec H (case fst (perform exec i c w) of Rejected m \<Rightarrow> Throw (Failure m) | _ \<Rightarrow> k (fst (perform exec i c w)))
      Q (tr @ [(c, fst (perform exec i c w))]) (snd (perform exec i c w))"
    unfolding healthy_perform [OF assms(1) [OF \<open>H i\<close>]] by blast
qed

lemma lands_await_or:
  assumes "\<And>i. H i \<Longrightarrow> i_fault i = NoFault"
    and "\<And>i. H i \<Longrightarrow> lands exec H (if rejected (fst (serve exec i c w)) then h (reason (fst (serve exec i c w))) else k (fst (serve exec i c w)))
      Q (tr @ [(c, fst (serve exec i c w))]) (snd (serve exec i c w))"
  shows "lands exec H (await_or c k h) Q tr w"
  unfolding await_or_def lands.simps
proof (intro allI impI)
  fix i
  assume "H i"
  show "lands exec H (if rejected (fst (perform exec i c w)) then h (reason (fst (perform exec i c w))) else k (fst (perform exec i c w)))
      Q (tr @ [(c, fst (perform exec i c w))]) (snd (perform exec i c w))"
    unfolding healthy_perform [OF assms(1) [OF \<open>H i\<close>]] by (rule assms(2) [OF \<open>H i\<close>])
qed

lemma row_found: "rows_of j d = [row] \<Longrightarrow> row \<in> set (jobs_t d) \<and> jr_id row = j"
  using filter_eq_ConsD [of "\<lambda>row. jr_id row = j" "jobs_t d" row "[]"] by (auto simp: rows_of_def)

lemma serve_sql:
  "serve exec i (Sql st) w = (fst (sql_exec (i_time i) (i_uuid i) st (tables w)), w\<lparr>tables := snd (sql_exec (i_time i) (i_uuid i) st (tables w))\<rparr>)"
  by (simp split: prod.split)

lemma serve_cmd:
  "serve exec i (RCmd c) w = (resp_of (fst (exec (i_time i) c (redis w))), w\<lparr>redis := snd (exec (i_time i) c (redis w))\<rparr>)"
  by (simp split: prod.split)

text \<open>The requests a run has made, and what came back.\<close>

definition requests :: "event list \<Rightarrow> event list" where
  "requests tr = filter (\<lambda>ev. is_fetch (fst ev)) tr"

lemma requests_simps [simp]:
  "requests [] = []" "requests (tr @ tr') = requests tr @ requests tr'"
  "requests ((c, r) # tr) = (if is_fetch c then (c, r) # requests tr else requests tr)"
  by (simp_all add: requests_def)

section \<open>The gates\<close>

text \<open>A breaker that lets a request out, and a bucket that holds a token or is new.\<close>

definition has_token :: "entry \<Rightarrow> bool" where
  "has_token e \<longleftrightarrow> e = None \<or> (\<exists>m x q ts. e = Some (DHash m, x) \<and> m ''tokens'' = Some (VNum q) \<and>
     m ''ts'' = Some (VNum ts) \<and> 1 \<le> q)"

definition lets_out :: "kept_breaker \<Rightarrow> bool" where
  "lets_out s \<longleftrightarrow> (case s of None \<Rightarrow> True | Some (b, x) \<Rightarrow> b_state b \<noteq> Open)"

lemma lets_out_step:
  assumes "lets_out s"
  shows "fst (breaker_step threshold cooldown (t, now, Check_op) s) \<noteq> Open"
proof -
  have "b_state (lapse t s) \<noteq> Open" using assms
    by (auto simp: lets_out_def lapse_def new_breaker_def split: option.splits)
  then show ?thesis by (auto simp: check_b_def split: circuit_state.split prod.split)
qed

lemma as_circuit_text: "as_circuit (Rep (RBulk (VStr (state_text st)))) = st"
  by (cases st) auto

lemma as_circuit_resp [simp]: "resp_of (RBulk v) = Rep (RBulk v)" "resp_of (RInt n) = Rep (RInt n)" "resp_of (RArr rs) = Rep (RArr rs)"
  by simp_all

lemma serve_eval:
  "lua_run exec (i_time i) (lua_body s ks vs) (redis w) = (Inr rep, r) \<Longrightarrow>
     serve exec i (Eval s ks vs) w = (resp_of rep, w\<lparr>redis := r\<rparr>)"
  by simp

context redis_server
begin

lemma breaker_served:
  assumes "keeps s (ent (redis w) k)"
    and "lua_body sc [k] vs = op_script k threshold cooldown now oper"
  shows "\<exists>r. serve exec i (Eval sc [k] vs) w =
      (Rep (RBulk (VStr (state_text (fst (breaker_step threshold cooldown (i_time i, now, oper) s))))), w\<lparr>redis := r\<rparr>) \<and>
    keeps (snd (breaker_step threshold cooldown (i_time i, now, oper) s)) (ent r k) \<and>
    (\<forall>k'. k' \<noteq> k \<longrightarrow> ent r k' = ent (redis w) k')"
proof -
  have a: "keeps s (ent (redis w) k) \<and> (\<forall>k'. k' \<noteq> k \<longrightarrow> ent (redis w) k' = ent (redis w) k')" using assms(1) by simp
  note o = op_refines [OF a, of threshold cooldown "(i_time i, now, oper)"]
  let ?run = "lua_run exec (i_time i) (op_script k threshold cooldown now oper) (redis w)"
  have e: "breaker_exec exec k threshold cooldown (i_time i, now, oper) (redis w) = ?run" by (simp add: breaker_exec_def)
  have "?run = (Inr (RBulk (VStr (state_text (fst (breaker_step threshold cooldown (i_time i, now, oper) s))))), snd ?run)"
    using o unfolding e by (metis prod.collapse)
  from serve_eval [where s = sc and ks = "[k]" and vs = vs and w = w, unfolded assms(2), OF this] o show ?thesis
    unfolding e by auto
qed

lemma token_served:
  assumes "has_token (ent (redis w) k)" and "0 < rate" and "1 \<le> cap"
  shows "\<exists>r. serve exec i (Eval TOKEN_BUCKET_SCRIPT [k] [VNum rate, VNum cap, VNum now, VNum 1]) w =
      (Rep (RArr [RInt 1, RInt 0]), w\<lparr>redis := r\<rparr>) \<and> (\<forall>k'. k' \<noteq> k \<longrightarrow> ent r k' = ent (redis w) k')"
proof -
  let ?r = "redis w" and ?t = "i_time i"
  let ?r1 = "snd (exec ?t (Hmget k [''tokens'', ''ts'']) ?r)"
  have h: "is_hash_entry (live ?t (ent ?r k))" and ready: "hash_ready ?t (ent ?r k)"
  proof -
    consider "live ?t (ent ?r k) = None" | m x where "live ?t (ent ?r k) = Some (DHash m, x)" "x = None \<or> (\<exists>y > ?t. x = Some y)"
      using assms(1) by (cases "ent ?r k") (fastforce simp: has_token_def elim: live.elims split: if_splits)+
    then show "is_hash_entry (live ?t (ent ?r k))" "hash_ready ?t (ent ?r k)" by (cases; simp add: hash_ready_def)+
  qed
  obtain q where q: "1 \<le> q"
    "token_bucket_body k rate cap now 1 (fst (exec ?t (Hmget k [''tokens'', ''ts'']) ?r)) = spend k rate cap now 1 q"
  proof (cases "live ?t (ent ?r k)")
    case None
    with hmget [OF h, of "[''tokens'', ''ts'']"] that [OF assms(3)] show ?thesis by (simp add: body_fresh)
  next
    case (Some d)
    with assms(1) obtain m x q0 ts where m: "ent ?r k = Some (DHash m, x)" "m ''tokens'' = Some (VNum q0)"
      "m ''ts'' = Some (VNum ts)" "1 \<le> q0" by (auto simp: has_token_def)
    then have "live ?t (ent ?r k) = Some (DHash m, x)" using Some by (cases x) (auto split: if_splits)
    with hmget [OF h, of "[''tokens'', ''ts'']"] m
    have b: "token_bucket_body k rate cap now 1 (fst (exec ?t (Hmget k [''tokens'', ''ts'']) ?r)) =
        spend k rate cap now 1 (refill rate cap now (Some (q0, ts)))" by (simp add: body_stored)
    have "0 \<le> max 0 (now - ts) / 1000 * rate" using assms(2) by simp
    then have "1 \<le> refill rate cap now (Some (q0, ts))" using m(4) assms(3) by (simp add: refill_def)
    from that [OF this b] show ?thesis .
  qed
  have ok: "\<not> is_err (fst (exec ?t (Hmget k [''tokens'', ''ts'']) ?r))" and e1: "ent ?r1 = ent ?r"
    using hmget [OF h, of "[''tokens'', ''ts'']"] by simp_all
  let ?body = "lua_run exec ?t (spend k rate cap now 1 q) ?r1"
  have run: "lua_run exec ?t (token_bucket_script k rate cap now 1) ?r = ?body"
    using ok q(2) by (cases "fst (exec ?t (Hmget k [''tokens'', ''ts'']) ?r)") (simp_all add: token_bucket_script_def)
  have b: "0 \<le> cap" using assms(3) by linarith
  note eff = spend_effect [OF ready [folded e1] assms(2) b prod.collapse [symmetric, of ?body]]
  have f: "fst ?body = Inr (RArr [RInt 1, RInt 0])" "\<forall>k'. k' \<noteq> k \<longrightarrow> ent (snd ?body) k' = ent ?r k'"
    using eff q(1) e1 by auto
  have "lua_run exec ?t (lua_body TOKEN_BUCKET_SCRIPT [k] [VNum rate, VNum cap, VNum now, VNum 1]) ?r =
      (Inr (RArr [RInt 1, RInt 0]), snd ?body)"
    using run f(1) by (simp add: prod_eq_iff)
  from serve_eval [OF this] f(2) show ?thesis by auto
qed

end

text \<open>The outcome of a delivery, in both stores.\<close>

definition settled :: "job_row \<Rightarrow> int option \<Rightarrow> jobid \<Rightarrow> queue \<Rightarrow> keyspace \<Rightarrow> db \<Rightarrow> bool" where
  "settled row st jobId q e d \<longleftrightarrow> queue_keys e \<and>
     (\<exists>row'. rows_of (jr_id row) d = [row'] \<and> jr_state row' = verdict (toJob row) st \<and>
        jr_attempts row' = jr_attempts row + 1 \<and>
        queue_of e = released (verdict (toJob row) st) jobId (jr_runat row') q)"

section \<open>Contracts\<close>

text \<open>One per function: from stores in which it can do its work it returns, and this is what it leaves.
  \<open>Q\<close> is what the caller needs; the events matter to it only by the requests among them.\<close>

context redis_server
begin

lemma check_lands:
  assumes H: "\<And>i. H i \<Longrightarrow> i_fault i = NoFault"
    and k: "keeps s (ent (redis w) k)" "lets_out s"
    and Q: "\<And>tr' cs r s'. requests tr' = requests tr \<Longrightarrow> cs \<noteq> Open \<Longrightarrow> keeps s' (ent r k) \<Longrightarrow>
      \<forall>k'. k' \<noteq> k \<longrightarrow> ent r k' = ent (redis w) k' \<Longrightarrow> Q tr' cs (w\<lparr>redis := r\<rparr>)"
  shows "lands exec H (check k cooldown) Q tr w"
  unfolding check_def
proof (rule lands_await [OF H], goal_cases)
  case (2 i)
  show ?case
  proof (simp, rule lands_await [OF H], goal_cases)
    case (2 i')
    let ?step = "breaker_step 0 cooldown (i_time i', i_clock i, Check_op) s"
    obtain r where r: "serve exec i' (Eval CHECK_SCRIPT [k] [VNum (of_int (i_clock i)), VNum (of_int cooldown), VNum (of_int STATE_TTL_MS)]) w =
        (Rep (RBulk (VStr (state_text (fst ?step)))), w\<lparr>redis := r\<rparr>)" "keeps (snd ?step) (ent r k)"
        "\<forall>k'. k' \<noteq> k \<longrightarrow> ent r k' = ent (redis w) k'"
      using breaker_served [OF k(1), of CHECK_SCRIPT "[VNum (of_int (i_clock i)), VNum (of_int cooldown), VNum (of_int STATE_TTL_MS)]"
        0 cooldown "i_clock i" Check_op i'] by auto
    from Q [OF _ lets_out_step [OF k(2)] r(2,3)] r(1) show ?case
      by (simp add: as_circuit_text del: serve.simps state_text.simps breaker_step.simps as_circuit.simps)
  qed
qed

lemma token_lands:
  assumes H: "\<And>i. H i \<Longrightarrow> i_fault i = NoFault"
    and k: "has_token (ent (redis w) k)" "0 < rate" "1 \<le> cap"
    and Q: "\<And>tr' res r. requests tr' = requests tr \<Longrightarrow> rr_allowed res \<Longrightarrow>
      \<forall>k'. k' \<noteq> k \<longrightarrow> ent r k' = ent (redis w) k' \<Longrightarrow> Q tr' res (w\<lparr>redis := r\<rparr>)"
  shows "lands exec H (take_token k rate cap 1) Q tr w"
  unfolding take_token_def
proof (rule lands_await [OF H], goal_cases)
  case (2 i)
  show ?case
  proof (simp, rule lands_await [OF H], goal_cases)
    case (2 i')
    obtain r where r: "serve exec i' (Eval TOKEN_BUCKET_SCRIPT [k] [VNum (of_int rate), VNum (of_int cap), VNum (of_int (i_clock i)), VNum 1]) w =
        (Rep (RArr [RInt 1, RInt 0]), w\<lparr>redis := r\<rparr>)" "\<forall>k'. k' \<noteq> k \<longrightarrow> ent r k' = ent (redis w) k'"
      using token_served [OF k(1), of "of_int rate" "of_int cap" i' "of_int (i_clock i)"] k(2,3) by auto
    from Q [OF _ _ r(2)] r(1) show ?case by (simp del: serve.simps)
  qed
qed

lemma recordSuccess_lands:
  assumes H: "\<And>i. H i \<Longrightarrow> i_fault i = NoFault" and k: "keeps s (ent (redis w) k)"
    and Q: "\<And>tr' r. requests tr' = requests tr \<Longrightarrow>
      \<forall>k'. k' \<noteq> k \<longrightarrow> ent r k' = ent (redis w) k' \<Longrightarrow> Q tr' () (w\<lparr>redis := r\<rparr>)"
  shows "lands exec H (recordSuccess k) Q tr w"
  unfolding recordSuccess_def
proof (rule lands_await [OF H], goal_cases)
  case (2 i)
  let ?step = "breaker_step 0 0 (i_time i, 0, Success_op) s"
  obtain r where r: "serve exec i (Eval SUCCESS_SCRIPT [k] [VNum (of_int STATE_TTL_MS)]) w =
      (Rep (RBulk (VStr (state_text (fst ?step)))), w\<lparr>redis := r\<rparr>)" "\<forall>k'. k' \<noteq> k \<longrightarrow> ent r k' = ent (redis w) k'"
    using breaker_served [OF k, of SUCCESS_SCRIPT "[VNum (of_int STATE_TTL_MS)]" 0 0 0 Success_op i] by auto
  from Q [OF _ r(2)] r(1) show ?case by (simp del: serve.simps)
qed

lemma recordFailure_lands:
  assumes H: "\<And>i. H i \<Longrightarrow> i_fault i = NoFault" and k: "keeps s (ent (redis w) k)"
    and Q: "\<And>tr' cs r. requests tr' = requests tr \<Longrightarrow>
      \<forall>k'. k' \<noteq> k \<longrightarrow> ent r k' = ent (redis w) k' \<Longrightarrow> Q tr' cs (w\<lparr>redis := r\<rparr>)"
  shows "lands exec H (recordFailure k threshold) Q tr w"
  unfolding recordFailure_def
proof (rule lands_await [OF H], goal_cases)
  case (2 i)
  show ?case
  proof (simp, rule lands_await [OF H], goal_cases)
    case (2 i')
    let ?step = "breaker_step threshold 0 (i_time i', i_clock i, Failure_op) s"
    obtain r where r: "serve exec i' (Eval FAILURE_SCRIPT [k] [VNum (of_int threshold), VNum (of_int (i_clock i)), VNum (of_int STATE_TTL_MS)]) w =
        (Rep (RBulk (VStr (state_text (fst ?step)))), w\<lparr>redis := r\<rparr>)" "\<forall>k'. k' \<noteq> k \<longrightarrow> ent r k' = ent (redis w) k'"
      using breaker_served [OF k, of FAILURE_SCRIPT "[VNum (of_int threshold), VNum (of_int (i_clock i)), VNum (of_int STATE_TTL_MS)]"
        threshold 0 "i_clock i" Failure_op i'] by auto
    from Q [OF _ r(2)] r(1) show ?case by (simp del: serve.simps breaker_step.simps)
  qed
qed

end

lemma updateState_lands:
  assumes H: "\<And>i. H i \<Longrightarrow> i_fault i = NoFault" and row: "rows_of j (tables w) = [row]"
    and n: "jr_attempts row + (if inc then 1 else 0) \<le> jr_maxattempts row" and err: "storable_opt err"
    and Q: "\<And>tr' res now. requests tr' = requests tr \<Longrightarrow>
      Q tr' res (w\<lparr>tables := change_job j (updated_row now state (if inc then 1 else 0) err due) (tables w)\<rparr>)"
  shows "lands exec H (updateState j state inc err due) Q tr w"
  unfolding updateState_def
proof (rule lands_await [OF H], goal_cases)
  case (2 i)
  have r: "rows_of j (change_job j (updated_row (i_time i) state (if inc then 1 else 0) err due) (tables w)) =
      [updated_row (i_time i) state (if inc then 1 else 0) err due row]"
    using row by (simp add: rows_of_change)
  have s: "serve exec i (Sql (UpdateJob j state (if inc then 1 else 0) err due)) w =
      (JobRows [updated_row (i_time i) state (if inc then 1 else 0) err due row],
       w\<lparr>tables := change_job j (updated_row (i_time i) state (if inc then 1 else 0) err due) (tables w)\<rparr>)"
    unfolding serve_sql sql_exec.simps sql_update_job_def using n err row r by (simp add: Let_def)
  show ?case unfolding s by (simp add: first_job_def Q)
qed

lemma get_webhook_lands:
  assumes H: "\<And>i. H i \<Longrightarrow> i_fault i = NoFault"
    and wh: "filter (\<lambda>row. wr_id row = j) (webhooks_t (tables w)) = [wh]"
    and Q: "\<And>tr'. requests tr' = requests tr \<Longrightarrow> Q tr' (toWebhook wh) w"
  shows "lands exec H (get_webhook j) Q tr w"
  unfolding get_webhook_def find_webhook_def lands_bind
proof (rule lands_await [OF H], goal_cases)
  case (2 i)
  have s: "serve exec i (Sql (SelectWebhook j)) w = (WebhookRows [wh], w)"
    unfolding serve_sql by (simp add: sql_select_webhook_def wh)
  show ?case unfolding s by (simp add: Q)
qed

lemma getSecret_lands:
  assumes H: "\<And>i. H i \<Longrightarrow> i_fault i = NoFault"
    and wh: "filter (\<lambda>row. wr_id row = j) (webhooks_t (tables w)) = [wh]" "wr_secret wh \<noteq> []"
    and Q: "\<And>tr'. requests tr' = requests tr \<Longrightarrow> Q tr' (wr_secret wh) w"
  shows "lands exec H (getSecret j) Q tr w"
  unfolding getSecret_def findSecretById_def lands_bind
proof (rule lands_await [OF H], goal_cases)
  case (2 i)
  have s: "serve exec i (Sql (SelectSecret j)) w = (SecretRows [wr_secret wh], w)"
    unfolding serve_sql by (simp add: sql_select_secret_def wh)
  show ?case unfolding s by (simp add: Q wh(2))
qed

text \<open>A delivery: one request, the job's, and one audit row with the answer.\<close>

definition delivered :: "(string \<Rightarrow> string \<Rightarrow> string) \<Rightarrow> job \<Rightarrow> string \<Rightarrow> string \<Rightarrow> http_request \<Rightarrow> bool" where
  "delivered hmac j webhookUrl secret req \<longleftrightarrow>
     (\<exists>n t. req = delivery_request j webhookUrl n t (sign hmac secret t (j_payload j)) (j_payload j))"

definition answered :: "int option \<Rightarrow> resp \<Rightarrow> bool" where
  "answered st r \<longleftrightarrow> (case st of None \<Rightarrow> rejected r | Some n \<Rightarrow> r = Status n)"

definition audited :: "string \<Rightarrow> int option \<Rightarrow> db \<Rightarrow> db \<Rightarrow> bool" where
  "audited j st d d' \<longleftrightarrow> (\<exists>a. d' = d\<lparr>attempts_t := attempts_t d @ [a]\<rparr> \<and> a_jobId a = j \<and> a_statusCode a = st)"

definition result_of :: "int option \<Rightarrow> delivery_result \<Rightarrow> bool" where
  "result_of st res \<longleftrightarrow> dr_success res = (case st of None \<Rightarrow> False | Some n \<Rightarrow> ok_status n) \<and>
     dr_retryable res = (\<not> dr_success res \<and> isRetryable st) \<and> storable_opt (dr_error res)"

lemma next_attempt_accepted:
  assumes "j \<in> jr_id ` set (jobs_t d)" and "a_jobId a = j"
    and "fst (sql_next_attempt j d) = NextRow (a_attemptNumber a)"
    and "storable_opt (a_responseBody a)" and "storable_opt (a_error a)"
  shows "sql_insert_attempt now a d = (NoRows, d\<lparr>attempts_t := attempts_t d @ [attempt_record.extend a \<lparr>a_attemptedAt = now\<rparr>]\<rparr>)"
proof -
  let ?ns = "map a_attemptNumber (filter (\<lambda>a. a_jobId a = j) (attempts_t d))"
  have n: "a_attemptNumber a = (if ?ns = [] then 0 else foldr max ?ns (hd ?ns)) + 1"
    using assms(3) by (simp add: sql_next_attempt_def Let_def)
  have "k < a_attemptNumber a" if "k \<in> attempt_numbers j d" for k
  proof -
    have k: "k \<in> set ?ns" using that by (auto simp: attempt_numbers_def)
    then have "?ns \<noteq> []" by (metis empty_iff empty_set)
    then show ?thesis using foldr_max_ge [OF k, of "hd ?ns"] unfolding n by (simp del: map_is_Nil_conv)
  qed
  then show ?thesis using assms(1,2,4,5) by (auto simp: sql_insert_attempt_def)
qed

lemma texts_storable [simp]:
  "storable []" "storable (c # s) \<longleftrightarrow> c \<noteq> CHR 0x00 \<and> storable s" "storable s \<Longrightarrow> storable (take k s)"
  "storable (show_int n)" "storable_opt None" "storable_opt (Some s) = storable s"
proof -
  have "CHR 0x00 \<notin> set (show_nat k)" for k
    using show_nat_is_digits [of k] by (auto simp: list_all_iff is_digit_def)
  then show "storable (show_int n)" by (simp add: storable_def show_int_def)
qed (auto simp: storable_def storable_opt_def dest: in_set_takeD)

lemma exchange_lands:
  assumes H: "\<And>i. H i \<Longrightarrow> i_fault i = NoFault" and S: "\<And>i. H i \<Longrightarrow> i_status i = st \<and> storable_opt (i_text i)"
    and Q: "\<And>tr' r txt err. requests tr' = requests tr @ [(Fetch req, r)] \<Longrightarrow> answered st r \<Longrightarrow>
      storable_opt txt \<Longrightarrow> storable_opt err \<Longrightarrow> Q tr' (st, txt, err) w"
  shows "lands exec H (http_exchange req) Q tr w"
  unfolding http_exchange_def
proof (rule lands_await_or [OF H], goal_cases)
  case (2 i)
  then have st: "i_status i = st" using S by blast
  show ?case
  proof (cases st)
    case None
    then show ?thesis using Q [of _ "Rejected ''fetch failed''"] st by (simp add: answered_def)
  next
    case (Some n)
    have s: "serve exec i (Fetch req) w = (Status n, w)" using Some st by simp
    show ?thesis unfolding s fst_conv snd_conv rejected.simps if_False Let_def as_status.simps
    proof (rule lands_await_or [OF H], goal_cases)
      case (2 i')
      have "storable_opt (i_text i')" using S [OF 2] by blast
      then show ?case using Q [of _ "Status n"] Some
        by (cases "i_text i'") (simp_all add: answered_def)
    qed
  qed
qed

lemma deliver_lands:
  assumes H: "\<And>i. H i \<Longrightarrow> i_fault i = NoFault" and S: "\<And>i. H i \<Longrightarrow> i_status i = st \<and> storable_opt (i_text i)"
    and row: "rows_of (j_id j) (tables w) = [row]"
    and Q: "\<And>tr' req r res d'. requests tr' = requests tr @ [(Fetch req, r)] \<Longrightarrow> answered st r \<Longrightarrow>
      delivered hmac j u secret req \<Longrightarrow> audited (j_id j) st (tables w) d' \<Longrightarrow> result_of st res \<Longrightarrow> Q tr' res (w\<lparr>tables := d'\<rparr>)"
  shows "lands exec H (deliver hmac j u secret) Q tr w"
  unfolding deliver_def nextAttemptNumber_def lands_bind
proof (rule lands_await [OF H], goal_cases)
  case (2 i)
  obtain n where n: "fst (sql_next_attempt (j_id j) (tables w)) = NextRow n" by (auto simp: sql_next_attempt_def Let_def)
  have s: "serve exec i (Sql (SelectNextAttempt (j_id j))) w = (NextRow n, w)"
    unfolding serve_sql using n by (simp add: sql_next_attempt_def Let_def)
  have ids: "j_id j \<in> jr_id ` set (jobs_t (tables w))"
    by (metis imageI row_found [OF row])
  show ?case unfolding s
  proof (simp, rule lands_await [OF H], goal_cases)
    case (2 i1)
    show ?case
    proof (simp, rule lands_await [OF H], goal_cases)
      case (2 i2)
      show ?case
      proof (simp add: Let_def lands_bind, rule exchange_lands [OF H S], assumption+, goal_cases)
        case (1 tr2 r content error)
        show ?case unfolding prod.case
        proof (rule lands_await [OF H], goal_cases)
          case (2 i3)
          show ?case
          proof (simp add: insert_attempt_def lands_bind, rule lands_await [OF H], goal_cases)
            case (2 i4)
            let ?a = "\<lparr>a_jobId = j_id j, a_attemptNumber = n, a_statusCode = st, a_responseBody = content, a_error = error,
              a_durationMs = i_clock i3 - i_clock i1\<rparr>"
            have ins: "sql_insert_attempt (i_time i4) ?a (tables w) =
                (NoRows, (tables w)\<lparr>attempts_t := attempts_t (tables w) @ [attempt_record.extend ?a \<lparr>a_attemptedAt = i_time i4\<rparr>]\<rparr>)"
              by (rule next_attempt_accepted [OF ids]) (simp_all add: n \<open>storable_opt content\<close> \<open>storable_opt error\<close>)
            show ?case unfolding serve_sql sql_exec.simps ins
              by (simp, rule Q [where req = "delivery_request j u n (show_int (i_clock i2)) (sign hmac secret (show_int (i_clock i2)) (j_payload j)) (j_payload j)"])
                 (use \<open>requests tr2 = _\<close> \<open>answered st r\<close> \<open>storable_opt error\<close> in \<open>auto simp: delivered_def audited_def result_of_def attempt_record.defs split: option.split\<close>)
          qed
        qed
      qed
    qed
  qed
qed

text \<open>A claimed job that can be delivered: its row is live with attempts left, its webhook has a secret, and
  both gates let it through.\<close>

definition deliverable :: "config \<Rightarrow> jobid \<Rightarrow> job_row \<Rightarrow> webhook_row \<Rightarrow> keyspace \<Rightarrow> db \<Rightarrow> bool" where
  "deliverable cfg j row wh e d \<longleftrightarrow> queue_keys e \<and> rows_of j d = [row] \<and>
     jr_state row \<noteq> Succeeded \<and> jr_state row \<noteq> Dead \<and> jr_attempts row < jr_maxattempts row \<and>
     filter (\<lambda>v. wr_id v = jr_webhookid row) (webhooks_t d) = [wh] \<and> wr_secret wh \<noteq> [] \<and>
     (\<exists>s. keeps s (e (circuit_key (jr_webhookid row))) \<and> lets_out s) \<and>
     has_token (e (ratelimit_key (jr_webhookid row))) \<and> 0 < perSecond cfg \<and> 1 \<le> burst cfg"

text \<open>What its processing leaves: the request was made and answered, its audit row written, and the
  outcome is in both stores.\<close>

definition attempted :: "(string \<Rightarrow> string \<Rightarrow> string) \<Rightarrow> job_row \<Rightarrow> webhook_row \<Rightarrow> int option \<Rightarrow> jobid \<Rightarrow> queue \<Rightarrow>
    event list \<Rightarrow> event list \<Rightarrow> db \<Rightarrow> keyspace \<Rightarrow> db \<Rightarrow> bool" where
  "attempted hmac row wh st j q tr0 tr d e' d' \<longleftrightarrow>
     (\<exists>req r. tr = tr0 @ [(Fetch req, r)] \<and> answered st r \<and> delivered hmac (toJob row) (wr_url wh) (wr_secret wh) req) \<and>
     (\<exists>a. attempts_t d' = attempts_t d @ [a] \<and> a_jobId a = j \<and> a_statusCode a = st) \<and>
     settled row st j q e' d'"

context redis_server
begin

text \<open>The three releases.\<close>

lemma qop_script_served:
  assumes "queue_keys (ent (redis w))" and "qop_of (Eval sc ks vs) = Some x"
    and "fst (lua_run exec (i_time i) (lua_body sc ks vs) (redis w)) = Inr rep"
  shows "\<exists>r. serve exec i (Eval sc ks vs) w = (resp_of rep, w\<lparr>redis := r\<rparr>) \<and> queue_keys (ent r) \<and>
    queue_of (ent r) = qop_apply x (queue_of (ent (redis w)))"
proof -
  let ?run = "lua_run exec (i_time i) (lua_body sc ks vs) (redis w)"
  have "?run = (Inr rep, snd ?run)" using assms(3) by (metis prod.collapse)
  from serve_eval [OF this] have s: "serve exec i (Eval sc ks vs) w = (resp_of rep, w\<lparr>redis := snd ?run\<rparr>)" .
  from qop_served [OF assms(1,2), of i] s
  have "ent (snd ?run) = queue_put (qop_apply x (queue_of (ent (redis w)))) (ent (redis w))" by (simp del: serve.simps)
  then have "queue_keys (ent (snd ?run)) \<and> queue_of (ent (snd ?run)) = qop_apply x (queue_of (ent (redis w)))"
    using assms(1) by (simp add: queue_wf_apply queue_wf_of)
  with s show ?thesis by blast
qed

lemma release_lands:
  assumes H: "\<And>i. H i \<Longrightarrow> i_fault i = NoFault" and q: "queue_keys (ent (redis w))"
    and Q: "\<And>tr' r x. requests tr' = requests tr \<Longrightarrow> queue_keys (ent r) \<Longrightarrow> x \<in> {OAck j, ORetry j due, ODead j} \<Longrightarrow>
      queue_of (ent r) = qop_apply x (queue_of (ent (redis w))) \<Longrightarrow> P x \<Longrightarrow> Q tr' () (w\<lparr>redis := r\<rparr>)"
  shows "P (OAck j) \<Longrightarrow> lands exec H (ack j) Q tr w"
    and "P (ORetry j due) \<Longrightarrow> lands exec H (retryLater j due) Q tr w"
    and "P (ODead j) \<Longrightarrow> lands exec H (deadLetter j) Q tr w"
proof -
  have step: "lands exec H (await (Eval sc ks vs) (\<lambda>_. Ret ())) Q tr w"
    if op: "qop_of (Eval sc ks vs) = Some x" and x: "P x" "x \<in> {OAck j, ORetry j due, ODead j}"
      and run: "\<And>i :: input. fst (lua_run exec (i_time i) (lua_body sc ks vs) (redis w)) = Inr (RInt 1)" for sc ks vs x
  proof (rule lands_await [OF H], goal_cases)
    case (2 i)
    obtain r where r: "serve exec i (Eval sc ks vs) w = (Rep (RInt 1), w\<lparr>redis := r\<rparr>)"
      "queue_keys (ent r)" "queue_of (ent r) = qop_apply x (queue_of (ent (redis w)))"
      using qop_script_served [OF q op run] by auto
    from Q [OF _ r(2) x(2) r(3) x(1)] show ?case unfolding r(1) by simp
  qed
  show "P (OAck j) \<Longrightarrow> lands exec H (ack j) Q tr w" unfolding ack_def
    by (rule step [where x = "OAck j"]) (simp_all add: ack_refines [OF q] del: lua_run_call)
  show "P (ORetry j due) \<Longrightarrow> lands exec H (retryLater j due) Q tr w" unfolding retryLater_def
    by (rule step [where x = "ORetry j due"]) (simp_all add: retry_refines [OF q] del: lua_run_call)
  show "P (ODead j) \<Longrightarrow> lands exec H (deadLetter j) Q tr w" unfolding deadLetter_def
    by (rule step [where x = "ODead j"]) (simp_all add: dead_refines [OF q] del: lua_run_call)
qed

lemma backoff_lands:
  assumes H: "\<And>i. H i \<Longrightarrow> i_fault i = NoFault" and Q: "\<And>tr' d. requests tr' = requests tr \<Longrightarrow> Q tr' d w"
  shows "lands exec H (backoffMs n) Q tr w"
  unfolding backoffMs_def
proof (rule lands_await [OF H], goal_cases)
  case (2 i)
  show ?case by (simp add: Q Let_def)
qed

lemma settle_lands:
  assumes H: "\<And>i. H i \<Longrightarrow> i_fault i = NoFault"
    and w: "queue_keys (ent (redis w))" "keeps s (ent (redis w) (circuit_key (jr_webhookid row)))"
      "rows_of (jr_id row) (tables w) = [row1]" "same_budget row row1" "jr_attempts row < jr_maxattempts row"
    and res: "result_of st res"
    and Q: "\<And>tr' w'. requests tr' = requests tr \<Longrightarrow>
      settled row st jobId (queue_of (ent (redis w))) (ent (redis w')) (tables w') \<Longrightarrow>
      attempts_t (tables w') = attempts_t (tables w) \<Longrightarrow> Q tr' () w'"
  shows "lands exec H (settle cfg (toJob row) jobId res) Q tr w"
proof -
  let ?v = "verdict (toJob row) st" and ?k = "circuit_key (jr_webhookid row)"
  have err: "storable_opt (dr_error res)" "storable_opt None" using res by (simp_all add: result_of_def storable_opt_def)
  have n: "jr_attempts row1 + (if True then 1 else 0) \<le> jr_maxattempts row1" using w(4,5) by (simp add: same_budget_def)
  have same: "queue_keys (ent r) \<and> queue_of (ent r) = queue_of (ent (redis w))"
    if r: "\<forall>k'. k' \<noteq> ?k \<longrightarrow> ent r k' = ent (redis w) k'" for r
  proof -
    have "ent r k' = ent (redis w) k'" if "queue_key k'" for k' using r that other_keys(2) by metis
    with queue_cong [of "ent r" "ent (redis w)"] w(1) show ?thesis by blast
  qed
  text \<open>The update and the release, in the order of the code.\<close>
  have close: "lands exec H (seq (updateState (jr_id row) ?v True err due) rel) Q tr1 (w\<lparr>redis := r\<rparr>)"
    if r: "\<forall>k'. k' \<noteq> ?k \<longrightarrow> ent r k' = ent (redis w) k'" and tr1: "requests tr1 = requests tr"
      and rel: "(?v = Succeeded \<and> rel = ack jobId) \<or> (?v = Dead \<and> rel = deadLetter jobId) \<or>
        (?v = Queued \<and> rel = retryLater jobId t \<and> due = Some t)"
      and err: "storable_opt err"
    for err due rel r tr1 t
    unfolding lands_bind
  proof (rule updateState_lands [OF H, where row = row1])
    fix tr2 a now
    assume tr2: "requests tr2 = requests tr1"
    let ?w = "w\<lparr>redis := r, tables := change_job (jr_id row) (updated_row now ?v (if True then 1 else 0) err due) (tables w)\<rparr>"
    have rows: "rows_of (jr_id row) (tables ?w) = [updated_row now ?v 1 err due row1]"
      using w(3) by (simp add: rows_of_change)
    let ?P = "\<lambda>x. (?v = Succeeded \<and> x = OAck jobId) \<or> (?v = Dead \<and> x = ODead jobId) \<or> (?v = Queued \<and> x = ORetry jobId t \<and> due = Some t)"
    have "lands exec H rel Q tr2 ?w"
    proof -
      have q: "queue_keys (ent (redis ?w))" using same [OF r] by simp
      have fin: "Q tr3 () (?w\<lparr>redis := r3\<rparr>)"
        if "requests tr3 = requests tr2" "queue_keys (ent r3)" "queue_of (ent r3) = qop_apply x (queue_of (ent (redis ?w)))" "?P x"
        for tr3 r3 x
      proof (rule Q)
        show "requests tr3 = requests tr" using that(1) tr1 tr2 by simp
        have "queue_of (ent r3) = released ?v jobId (jr_runat (updated_row now ?v 1 err due row1)) (queue_of (ent (redis w)))"
          using that(3,4) same [OF r] by (auto simp: updated_row_def)
        with rows that(2) w(4)
        show "settled row st jobId (queue_of (ent (redis w))) (ent (redis (?w\<lparr>redis := r3\<rparr>))) (tables (?w\<lparr>redis := r3\<rparr>))"
          by (simp add: settled_def same_budget_def)
        show "attempts_t (tables (?w\<lparr>redis := r3\<rparr>)) = attempts_t (tables w)" by simp
      qed
      from rel show ?thesis
      proof (elim disjE conjE)
        assume v: "?v = Succeeded" "rel = ack jobId"
        show ?thesis unfolding v(2) by (rule release_lands(1) [OF H q, where P = ?P], assumption, rule fin, assumption+, simp add: v)
      next
        assume v: "?v = Dead" "rel = deadLetter jobId"
        show ?thesis unfolding v(2) by (rule release_lands(3) [OF H q, where P = ?P], assumption, rule fin, assumption+, simp add: v)
      next
        assume v: "?v = Queued" "rel = retryLater jobId t" "due = Some t"
        show ?thesis unfolding v(2) by (rule release_lands(2) [OF H q, where P = ?P], assumption, rule fin, assumption+, simp add: v)
      qed
    qed
    then show "lands exec H rel Q tr2
        (w\<lparr>redis := r, tables := change_job (jr_id row) (updated_row now ?v (if True then 1 else 0) err due) (tables (w\<lparr>redis := r\<rparr>))\<rparr>)" by simp
  qed (use w(3) n err in simp_all)
  show ?thesis
  proof (cases "dr_success res")
    case True
    then have v: "?v = Succeeded" using res by (simp add: result_of_def verdict_def)
    have "lands exec H (seq (recordSuccess ?k) (seq (updateState (jr_id row) Succeeded True None None) (ack jobId))) Q tr w"
      unfolding lands_bind [where p = "recordSuccess ?k"]
      by (rule recordSuccess_lands [OF H w(2)], assumption, rule close [unfolded v], simp_all add: err)
    with True show ?thesis by (simp add: settle_def toJob_def)
  next
    case False
    then have s: "\<not> (case st of None \<Rightarrow> False | Some n \<Rightarrow> ok_status n)" "dr_retryable res = isRetryable st"
      using res by (simp_all add: result_of_def)
    show ?thesis
    proof (cases "\<not> isRetryable st \<or> jr_attempts row + 1 \<ge> jr_maxattempts row")
      case True
      then have v: "?v = Dead" using s by (simp add: verdict_def toJob_def)
      have "lands exec H (seq (recordFailure ?k (failureThreshold cfg)) (seq (updateState (jr_id row) Dead True (dr_error res) None) (deadLetter jobId))) Q tr w"
        unfolding lands_bind [where p = "recordFailure ?k (failureThreshold cfg)"]
        by (rule recordFailure_lands [OF H w(2)], assumption, rule close [unfolded v], simp_all add: err)
      with False True s(2) show ?thesis by (simp add: settle_def toJob_def Let_def)
    next
      case live: False
      then have v: "?v = Queued" using s by (simp add: verdict_def toJob_def)
      have "lands exec H (seq (recordFailure ?k (failureThreshold cfg)) (bind_prog (backoffMs (jr_attempts row + 1)) (\<lambda>delayMs.
          await DateNow (\<lambda>now. seq (updateState (jr_id row) Queued True (dr_error res) (Some (as_int now + delayMs)))
            (retryLater jobId (as_int now + delayMs)))))) Q tr w"
        unfolding lands_bind [where p = "recordFailure ?k (failureThreshold cfg)"]
      proof (rule recordFailure_lands [OF H w(2)])
        fix tr1 cs r
        assume tr1: "requests tr1 = requests tr" and r: "\<forall>k'. k' \<noteq> ?k \<longrightarrow> ent r k' = ent (redis w) k'"
        show "lands exec H (bind_prog (backoffMs (jr_attempts row + 1)) (\<lambda>delayMs.
          await DateNow (\<lambda>now. seq (updateState (jr_id row) Queued True (dr_error res) (Some (as_int now + delayMs)))
            (retryLater jobId (as_int now + delayMs))))) Q tr1 (w\<lparr>redis := r\<rparr>)"
          unfolding lands_bind [where p = "backoffMs (jr_attempts row + 1)"]
        proof (rule backoff_lands [OF H], goal_cases)
          case (2 tr2 d)
          show ?case
          proof (rule lands_await [OF H], goal_cases)
            case (2 i)
            show ?case by (simp, rule close [unfolded v, OF r]) (simp_all add: \<open>requests tr2 = _\<close> tr1 err)
          qed
        qed
      qed
      with False live s(2) show ?thesis by (simp add: settle_def toJob_def Let_def)
    qed
  qed
qed

lemma process_live_lands:
  assumes H: "\<And>i. H i \<Longrightarrow> i_fault i = NoFault" and S: "\<And>i. H i \<Longrightarrow> i_status i = st \<and> storable_opt (i_text i)" and w: "deliverable cfg j row wh (ent (redis w)) (tables w)"
    and Q: "\<And>tr' w'. attempted hmac row wh st j (queue_of (ent (redis w))) (requests tr) (requests tr')
      (tables w) (ent (redis w')) (tables w') \<Longrightarrow> Q tr' () w'"
  shows "lands exec H (process_live cfg hmac j (toJob row)) Q tr w"
proof -
  let ?wid = "jr_webhookid row" and ?j = "toJob row"
  obtain s where s: "keeps s (ent (redis w) (circuit_key ?wid))" "lets_out s" using w by (auto simp: deliverable_def)
  have q: "queue_keys (ent (redis w))" and row: "rows_of j (tables w) = [row]" and left: "jr_attempts row < jr_maxattempts row"
    and wh: "filter (\<lambda>v. wr_id v = ?wid) (webhooks_t (tables w)) = [wh]" "wr_secret wh \<noteq> []"
    and tok: "has_token (ent (redis w) (ratelimit_key ?wid))" and cfg: "0 < perSecond cfg" "1 \<le> burst cfg"
    using w by (simp_all add: deliverable_def)
  have id: "jr_id row = j" using row_found [OF row] by simp
  have ne: "ratelimit_key ?wid \<noteq> circuit_key ?wid" by (simp add: ratelimit_key_def circuit_key_def)
  have j: "j_webhookId ?j = ?wid" "j_id ?j = j" using id by (simp_all add: toJob_def)
  show ?thesis
    unfolding process_live_def j lands_bind [where p = "check k c" for k c]
  proof (rule check_lands [OF H s])
    fix tr1 cs r s1
    assume 1: "requests tr1 = requests tr" "cs \<noteq> Open" "keeps s1 (ent r (circuit_key ?wid))"
      "\<forall>k'. k' \<noteq> circuit_key ?wid \<longrightarrow> ent r k' = ent (redis w) k'"
    let ?w1 = "w\<lparr>redis := r\<rparr>"
    have tok1: "has_token (ent (redis ?w1) (ratelimit_key ?wid))" using tok ne 1(4) by simp
    show "lands exec H (if cs = Open then defer_job ?j j (cooldownMs cfg)
       else bind_prog (take_token (ratelimit_key ?wid) (perSecond cfg) (burst cfg) 1) (\<lambda>rate.
         if \<not> rr_allowed rate then defer_job ?j j (max (rr_retryAfterMs rate) 100)
         else seq (updateState j In_flight False None None)
           (bind_prog (get_webhook ?wid) (\<lambda>w. bind_prog (getSecret ?wid) (\<lambda>secret.
              bind_prog (deliver hmac ?j (w_url w) secret) (settle cfg ?j j)))))) Q tr1 ?w1"
      unfolding if_not_P [OF 1(2)] lands_bind [where p = "take_token k a b c" for k a b c]
    proof (rule token_lands [OF H tok1 cfg])
      fix tr2 res r2
      assume 2: "requests tr2 = requests tr1" "rr_allowed res"
        "\<forall>k'. k' \<noteq> ratelimit_key ?wid \<longrightarrow> ent r2 k' = ent (redis ?w1) k'"
      let ?w2 = "?w1\<lparr>redis := r2\<rparr>"
      have e2: "ent r2 k' = ent (redis w) k'" if "queue_key k'" for k'
      proof -
        have "k' \<noteq> circuit_key ?wid" "k' \<noteq> ratelimit_key ?wid" using that other_keys(2,3) by metis+
        then show ?thesis using 1(4) 2(3) by simp
      qed
      have q2: "queue_keys (ent r2)" "queue_of (ent r2) = queue_of (ent (redis w))"
        using queue_cong [of "ent r2" "ent (redis w)"] e2 q by blast+
      have s2: "keeps s1 (ent r2 (circuit_key ?wid))" using 1(3) 2(3) ne by simp
      show "lands exec H (if \<not> rr_allowed res then defer_job ?j j (max (rr_retryAfterMs res) 100)
         else seq (updateState j In_flight False None None)
           (bind_prog (get_webhook ?wid) (\<lambda>w. bind_prog (getSecret ?wid) (\<lambda>secret.
              bind_prog (deliver hmac ?j (w_url w) secret) (settle cfg ?j j))))) Q tr2 ?w2"
        unfolding if_not_P [OF iffD2 [OF not_not 2(2)]] lands_bind [where p = "updateState a b c d e" for a b c d e]
      proof (rule updateState_lands [OF H, where row = row])
        fix tr3 a now
        assume 3: "requests tr3 = requests tr2"
        let ?d3 = "change_job j (updated_row now In_flight (if False then 1 else 0) None None) (tables ?w2)"
        let ?w3 = "?w2\<lparr>tables := ?d3\<rparr>"
        have row3: "rows_of j ?d3 = [updated_row now In_flight 0 None None row]" using row by (simp add: rows_of_change)
        have wh3: "filter (\<lambda>v. wr_id v = ?wid) (webhooks_t (tables ?w3)) = [wh]" using wh(1) by simp
        show "lands exec H (bind_prog (get_webhook ?wid) (\<lambda>w. bind_prog (getSecret ?wid) (\<lambda>secret.
              bind_prog (deliver hmac ?j (w_url w) secret) (settle cfg ?j j)))) Q tr3 ?w3"
          unfolding lands_bind
        proof (rule get_webhook_lands [OF H wh3], assumption, rule getSecret_lands [OF H wh3 wh(2)], assumption,
            rule deliver_lands [OF H S, where row = "updated_row now In_flight 0 None None row"], assumption+, goal_cases)
          case (2 tr4 tr5 tr6 req r6 res6 d6)
          let ?row3 = "updated_row now In_flight 0 None None row"
          have d6: "rows_of j d6 = rows_of j ?d3" "\<exists>a. attempts_t d6 = attempts_t (tables w) @ [a] \<and> a_jobId a = j \<and> a_statusCode a = st"
            using 2(6) j(2) by (auto simp: audited_def rows_of_def)
          show ?case unfolding id [symmetric]
          proof (rule settle_lands [OF H, where st = st and s = s1 and ?row1.0 = ?row3], goal_cases)
            case (8 tr7 w7)
            show ?case
            proof (rule Q)
              have "requests tr7 = requests tr @ [(Fetch req, r6)]" using 8(1) 2 \<open>requests tr3 = _\<close> \<open>requests tr2 = _\<close> 1(1) by simp
              with 2(4,5) 8(2,3) d6(2) q2(2) id
              show "attempted hmac row wh st j (queue_of (ent (redis w))) (requests tr) (requests tr7) (tables w) (ent (redis w7)) (tables w7)"
                by (auto simp: attempted_def toWebhook_def)
            qed
          qed (use q2(1) s2 d6(1) row3 left 2(7) id in \<open>simp_all add: same_budget_def updated_row_def\<close>)
        qed (use row3 j(2) in simp_all)
      qed (use row left in simp_all)
    qed
  qed
qed

lemma process_lands:
  assumes H: "\<And>i. H i \<Longrightarrow> i_fault i = NoFault" and S: "\<And>i. H i \<Longrightarrow> i_status i = st \<and> storable_opt (i_text i)" and w: "deliverable cfg j row wh (ent (redis w)) (tables w)"
    and Q: "\<And>tr' w'. attempted hmac row wh st j (queue_of (ent (redis w))) (requests tr) (requests tr')
      (tables w) (ent (redis w')) (tables w') \<Longrightarrow> Q tr' () w'"
  shows "lands exec H (process cfg hmac j) Q tr w"
  unfolding process_def find_job_def lands_bind
proof (rule lands_await [OF H], assumption, goal_cases)
  case (1 i)
  have row: "rows_of j (tables w) = [row]" and live: "jr_state row \<noteq> Succeeded" "jr_state row \<noteq> Dead"
    using w by (simp_all add: deliverable_def)
  have s: "serve exec i (Sql (SelectJob j)) w = (JobRows [row], w)"
    unfolding serve_sql using row by (simp add: sql_select_job_def rows_of_def)
  have "lands exec H (process_live cfg hmac j (toJob row)) Q (tr @ [(Sql (SelectJob j), JobRows [row])]) w"
    by (rule process_live_lands [OF H S w], assumption+, rule Q) simp
  with live show ?case unfolding s by (simp add: first_job_def toJob_def)
qed

lemma reserve_lands:
  assumes H: "\<And>i. H i \<Longrightarrow> i_fault i = NoFault" and q: "queue_keys (ent (redis w))"
    and ready: "ready (queue_of (ent (redis w))) = js @ [j]" "j \<noteq> []"
    and Q: "\<And>tr' r expiry. requests tr' = requests tr \<Longrightarrow> queue_keys (ent r) \<Longrightarrow>
      queue_of (ent r) = lease_q j expiry (queue_of (ent (redis w))\<lparr>ready := js, inflight := j # inflight (queue_of (ent (redis w)))\<rparr>) \<Longrightarrow>
      \<forall>k. \<not> queue_key k \<longrightarrow> ent r k = ent (redis w) k \<Longrightarrow> Q tr' (Some j) (w\<lparr>redis := r\<rparr>)"
  shows "lands exec H (reserve n) Q tr w"
  unfolding reserve_def
proof (rule lands_await [OF H], assumption, goal_cases)
  case (1 i)
  let ?q = "queue_of (ent (redis w))" and ?r = "snd (exec (i_time i) (Brpoplpush READY_QUEUE INFLIGHT_QUEUE n) (redis w))"
  let ?q1 = "?q\<lparr>ready := js, inflight := j # inflight ?q\<rparr>"
  have c: "claim_q ?q = Some (j, ?q1)" using ready(1) by (simp add: claim_q_def)
  have r: "fst (exec (i_time i) (Brpoplpush READY_QUEUE INFLIGHT_QUEUE n) (redis w)) = RBulk (VStr j)"
    "ent ?r = queue_put ?q1 (ent (redis w))"
    using claim_refines [OF q, of "i_time i" n] c by simp_all
  have k: "queue_keys (ent ?r)" "queue_of (ent ?r) = ?q1"
    using q r(2) by (simp_all add: queue_wf_of)
  show ?case unfolding serve_cmd r(1)
  proof (simp add: ready(2), rule lands_await [OF H], assumption, goal_cases)
    case (1 i1)
    show ?case
    proof (simp, rule lands_await [OF H], assumption, goal_cases)
      case (1 i2)
      let ?c = "Zadd LEASES (i_clock i1 + VISIBILITY_TIMEOUT_MS) j"
      let ?r2 = "snd (exec (i_time i2) ?c ?r)"
      have e: "\<not> is_err (fst (exec (i_time i2) ?c ?r))"
        "ent ?r2 = queue_put (lease_q j (i_clock i1 + VISIBILITY_TIMEOUT_MS) ?q1) (ent ?r)"
        using queue_commands(9,10) [OF k(1)] k(2) by simp_all
      then have ok: "\<not> rejected (resp_of (fst (exec (i_time i2) ?c ?r)))" by (cases "fst (exec (i_time i2) ?c ?r)") auto
      have "queue_keys (ent ?r2)" "queue_of (ent ?r2) = lease_q j (i_clock i1 + VISIBILITY_TIMEOUT_MS) ?q1"
        using e(2) queue_wf_of [OF k(1)] k(2) by simp_all
      moreover have "\<forall>k. \<not> queue_key k \<longrightarrow> ent ?r2 k = ent (redis w) k"
        using e(2) r(2) by (simp add: queue_key_def queue_put_frame)
      ultimately show ?case unfolding serve_cmd using ok by (simp add: Q)
    qed
  qed
qed

lemma zrem_zadd: "zrem m (zadd s m z) = zrem m z"
  by (simp add: zrem_def zadd_def filter_insort_triv)

lemma released_lease: "released v j due (lease_q j e q) = released v j due q"
  by (cases v) (simp_all add: queue_ops zrem_zadd)

lemma consume_one_lands:
  assumes H: "\<And>i. H i \<Longrightarrow> i_fault i = NoFault" and S: "\<And>i. H i \<Longrightarrow> i_status i = st \<and> storable_opt (i_text i)" and ready: "ready (queue_of (ent (redis w))) = js @ [j]" "j \<noteq> []"
    and w: "deliverable cfg j row wh (ent (redis w)) (tables w)"
    and Q: "\<And>tr' w'. attempted hmac row wh st j
      (queue_of (ent (redis w))\<lparr>ready := js, inflight := j # inflight (queue_of (ent (redis w)))\<rparr>)
      (requests tr) (requests tr') (tables w) (ent (redis w')) (tables w') \<Longrightarrow> Q tr' () w'"
  shows "lands exec H (consume_one cfg hmac) Q tr w"
proof -
  have q: "queue_keys (ent (redis w))" using w by (simp add: deliverable_def)
  show ?thesis unfolding consume_one_def lands_bind
  proof (rule lands_catch, rule reserve_lands [OF H q ready], assumption)
    fix tr1 r expiry
    assume 1: "requests tr1 = requests tr" "queue_keys (ent r)"
      "queue_of (ent r) = lease_q j expiry (queue_of (ent (redis w))\<lparr>ready := js, inflight := j # inflight (queue_of (ent (redis w)))\<rparr>)"
      "\<forall>k. \<not> queue_key k \<longrightarrow> ent r k = ent (redis w) k"
    let ?q1 = "queue_of (ent (redis w))\<lparr>ready := js, inflight := j # inflight (queue_of (ent (redis w)))\<rparr>"
    have w1: "deliverable cfg j row wh (ent (redis (w\<lparr>redis := r\<rparr>))) (tables (w\<lparr>redis := r\<rparr>))"
      using w 1(2,4) by (simp add: deliverable_def)
    have "attempted hmac row wh st j ?q1 (requests tr) (requests tr2) (tables w) (ent (redis w2)) (tables w2)"
      if "attempted hmac row wh st j (queue_of (ent (redis (w\<lparr>redis := r\<rparr>)))) (requests tr1) (requests tr2)
        (tables (w\<lparr>redis := r\<rparr>)) (ent (redis w2)) (tables w2)" for tr2 w2
      using that 1(1,3) released_lease by (simp add: attempted_def settled_def)
    then have "lands exec H (process cfg hmac j) Q tr1 (w\<lparr>redis := r\<rparr>)"
      by (intro process_lands [OF H S w1]) (auto intro: Q)
    then show "lands exec H (case Some j of None \<Rightarrow> Ret () | Some j \<Rightarrow> catch_prog (process cfg hmac j) (\<lambda>err. Ret ())) Q tr1 (w\<lparr>redis := r\<rparr>)"
      by (simp add: lands_catch)
  qed
qed

end

end
