(* ===== verification/End_To_End.thy ===== *)
theory End_To_End
  imports Healthy
begin

text \<open>
  The path of an event through the whole platform when nothing fails: accepted by the API
  (\<open>enqueue\<close>), claimed and delivered by a worker (\<open>consume_one\<close>), or, after a failure, put off and
  brought back by the scheduler (\<open>tick\<close>). The contracts of \<open>Healthy\<close> are composed the way the
  processes are: through the two stores. The last section has the acceptance that fails.
\<close>

section \<open>Accepting an event\<close>

text \<open>The row of an accepted event, with the payload as the column keeps it.\<close>

definition fresh_row :: "enqueue_input \<Rightarrow> string \<Rightarrow> string \<Rightarrow> ms \<Rightarrow> job_row" where
  "fresh_row e p u now = \<lparr>jr_id = u, jr_tenant = in_tenant e, jr_webhookid = in_webhookId e, jr_eventtype = in_eventType e,
     jr_payload = p, jr_state = Queued, jr_attempts = 0, jr_maxattempts = max_attempts_default,
     jr_runat = the_default now (in_runAt e), jr_lasterror = None, jr_createdat = now, jr_updatedat = now\<rparr>"

text \<open>An event the API can accept: its webhook is the tenant's and active, its slot, if it names one, is
  free, the id that Postgres draws is new, and Postgres can store its texts and its payload (\<open>p\<close> is
  what the payload column makes of it).\<close>

definition acceptable :: "enqueue_input \<Rightarrow> string \<Rightarrow> string \<Rightarrow> webhook_row \<Rightarrow> keyspace \<Rightarrow> db \<Rightarrow> bool" where
  "acceptable e u p wh ks d \<longleftrightarrow> queue_keys ks \<and>
     filter (\<lambda>v. wr_id v = in_webhookId e) (webhooks_t d) = [wh] \<and> wr_tenant wh = in_tenant e \<and> wr_isactive wh \<and>
     (\<forall>k. key_of (in_idempotencyKey e) = Some k \<longrightarrow> ks (redisKey (in_tenant e) k) = None) \<and>
     u \<notin> jr_id ` set (jobs_t d) \<and> storable (in_tenant e) \<and> storable (in_eventType e) \<and>
     jsonb d (in_payload e) = Some p"

text \<open>What acceptance leaves: the row, the id on the ready list, and nothing else but the slot.\<close>

definition slot_keys :: "enqueue_input \<Rightarrow> key set" where
  "slot_keys e = {redisKey (in_tenant e) k | k. key_of (in_idempotencyKey e) = Some k}"

definition accepted_as :: "enqueue_input \<Rightarrow> string \<Rightarrow> ms \<Rightarrow> keyspace \<Rightarrow> keyspace \<Rightarrow> bool" where
  "accepted_as e u now ks ks' \<longleftrightarrow> queue_keys ks' \<and> queue_of ks' = push_q u (queue_of ks) \<and>
     (\<forall>k. \<not> queue_key k \<longrightarrow> k \<notin> slot_keys e \<longrightarrow> ks' k = ks k)"

context redis_server
begin

lemma getOwnedBy_lands:
  assumes H: "\<And>i. H i \<Longrightarrow> i_fault i = NoFault"
    and wh: "filter (\<lambda>v. wr_id v = j) (webhooks_t (tables w)) = [wh]" "wr_tenant wh = tenant"
    and Q: "\<And>tr'. Q tr' (toWebhook wh) w"
  shows "lands exec H (getOwnedBy j tenant) Q tr w"
  unfolding getOwnedBy_def find_webhook_def lands_bind
proof (rule lands_await [OF H], assumption, goal_cases)
  case (1 i)
  have s: "serve exec i (Sql (SelectWebhook j)) w = (WebhookRows [wh], w)"
    unfolding serve_sql by (simp add: sql_select_webhook_def wh)
  show ?case unfolding s using wh(2) Q by (simp add: toWebhook_def)
qed

lemma gate_lands:
  assumes H: "\<And>i. H i \<Longrightarrow> i_fault i = NoFault"
    and free: "\<forall>k. key_of (in_idempotencyKey e) = Some k \<longrightarrow> ent (redis w) (redisKey (in_tenant e) k) = None"
    and Q: "\<And>tr' r. \<forall>k. k \<notin> slot_keys e \<longrightarrow> ent r k = ent (redis w) k \<Longrightarrow> Q tr' None (w\<lparr>redis := r\<rparr>)"
  shows "lands exec H (idempotency_gate e) Q tr w"
proof (cases "key_of (in_idempotencyKey e)")
  case None
  then show ?thesis using Q [of "redis w" tr] by (simp add: idempotency_gate_def)
next
  case (Some k)
  let ?k = "redisKey (in_tenant e) k"
  have ttl: "0 < TTL_MS" by (simp add: TTL_MS_def)
  show ?thesis unfolding idempotency_gate_def Some option.case begin_slot_def Let_def lands_bind
  proof (rule lands_await [OF H], assumption, goal_cases)
    case (1 i)
    have l: "live (i_time i) (ent (redis w) ?k) = None" using free Some by simp
    note s = set_nx_px [OF ttl, of "i_time i" ?k "VStr PENDING" "redis w"]
    have f: "fst (exec (i_time i) (SetNxPx ?k (VStr PENDING) TTL_MS) (redis w)) = RBulk (VStr ''OK'')" using s l by simp
    have "\<forall>k'. k' \<notin> slot_keys e \<longrightarrow> ent (snd (exec (i_time i) (SetNxPx ?k (VStr PENDING) TTL_MS) (redis w))) k' = ent (redis w) k'"
      using s l Some by (auto simp: slot_keys_def)
    then show ?case unfolding serve_cmd f by (simp add: Q)
  qed
qed

lemma insert_job_lands:
  assumes H: "\<And>i. H i \<Longrightarrow> i_fault i = NoFault" "\<And>i. H i \<Longrightarrow> i_uuid i = u"
    and w: "in_webhookId e \<in> wr_id ` set (webhooks_t (tables w))" "u \<notin> jr_id ` set (jobs_t (tables w))"
      "storable (in_tenant e)" "storable (in_eventType e)" "jsonb (tables w) (in_payload e) = Some p"
    and Q: "\<And>tr' i. H i \<Longrightarrow> Q tr' (toJob (fresh_row e p u (i_time i)))
      (w\<lparr>tables := (tables w)\<lparr>jobs_t := jobs_t (tables w) @ [fresh_row e p u (i_time i)]\<rparr>\<rparr>)"
  shows "lands exec H (insert_job (in_tenant e) (in_webhookId e) (in_eventType e) (in_payload e) (in_runAt e)) Q tr w"
  unfolding insert_job_def
proof (rule lands_await [OF H(1)], assumption, goal_cases)
  case (1 i)
  have s: "serve exec i (Sql (InsertJob (in_tenant e) (in_webhookId e) (in_eventType e) (in_payload e) (in_runAt e))) w =
      (JobRows [fresh_row e p u (i_time i)], w\<lparr>tables := (tables w)\<lparr>jobs_t := jobs_t (tables w) @ [fresh_row e p u (i_time i)]\<rparr>\<rparr>)"
    unfolding serve_sql using w H(2) [OF 1] by (simp add: sql_insert_job_def fresh_row_def Let_def)
  show ?case unfolding s using Q [OF 1] by simp
qed

lemma push_lands:
  assumes H: "\<And>i. H i \<Longrightarrow> i_fault i = NoFault" and q: "queue_keys (ent (redis w))"
    and Q: "\<And>tr' n r. queue_keys (ent r) \<Longrightarrow> queue_of (ent r) = push_q u (queue_of (ent (redis w))) \<Longrightarrow>
      \<forall>k. \<not> queue_key k \<longrightarrow> ent r k = ent (redis w) k \<Longrightarrow> Q tr' n (w\<lparr>redis := r\<rparr>)"
  shows "lands exec H (push u) Q tr w"
  unfolding push_def
proof (rule lands_await [OF H], assumption, goal_cases)
  case (1 i)
  let ?r = "snd (exec (i_time i) (Lpush READY_QUEUE u) (redis w))"
  note p = queue_commands(1,2) [OF q, of "i_time i" u]
  have ok: "\<not> rejected (resp_of (fst (exec (i_time i) (Lpush READY_QUEUE u) (redis w))))"
    using p(1) by (cases "fst (exec (i_time i) (Lpush READY_QUEUE u) (redis w))") auto
  have "queue_keys (ent ?r)" "queue_of (ent ?r) = push_q u (queue_of (ent (redis w)))"
    "\<forall>k. \<not> queue_key k \<longrightarrow> ent ?r k = ent (redis w) k"
    using p(2) queue_wf_of [OF q] by (simp_all add: queue_key_def queue_put_frame)
  then show ?case unfolding serve_cmd using ok by (simp add: Q)
qed

lemma complete_lands:
  assumes H: "\<And>i. H i \<Longrightarrow> i_fault i = NoFault"
    and Q: "\<And>tr' r. \<forall>k. k \<notin> slot_keys e \<longrightarrow> ent r k = ent (redis w) k \<Longrightarrow> Q tr' () (w\<lparr>redis := r\<rparr>)"
  shows "lands exec H (case key_of (in_idempotencyKey e) of None \<Rightarrow> Ret () | Some k \<Rightarrow> complete_slot (in_tenant e) k u) Q tr w"
proof (cases "key_of (in_idempotencyKey e)")
  case None
  then show ?thesis using Q [of "redis w" tr] by simp
next
  case (Some k)
  have ttl: "0 < TTL_MS" by (simp add: TTL_MS_def)
  show ?thesis unfolding Some option.case complete_slot_def
  proof (rule lands_await [OF H], assumption, goal_cases)
    case (1 i)
    note s = set_px [OF ttl, of "i_time i" "redisKey (in_tenant e) k" "VStr u" "redis w"]
    have "\<forall>k'. k' \<notin> slot_keys e \<longrightarrow>
        ent (snd (exec (i_time i) (SetPx (redisKey (in_tenant e) k) (VStr u) TTL_MS) (redis w))) k' = ent (redis w) k'"
      using s Some by (auto simp: slot_keys_def)
    with s show ?case unfolding serve_cmd by (simp add: Q)
  qed
qed

lemma slot_keys_beside: "k \<in> slot_keys e \<Longrightarrow> \<not> queue_key k"
  by (auto simp: slot_keys_def)

lemma create_lands:
  assumes H: "\<And>i. H i \<Longrightarrow> i_fault i = NoFault" "\<And>i. H i \<Longrightarrow> i_uuid i = u"
    and due: "\<And>i i'. H i \<Longrightarrow> H i' \<Longrightarrow> the_default (i_time i) (in_runAt e) \<le> i_clock i'"
    and w: "queue_keys (ent (redis w))" "in_webhookId e \<in> wr_id ` set (webhooks_t (tables w))" "u \<notin> jr_id ` set (jobs_t (tables w))"
      "storable (in_tenant e)" "storable (in_eventType e)" "jsonb (tables w) (in_payload e) = Some p"
    and Q: "\<And>tr' now r. accepted_as e u now (ent (redis w)) (ent r) \<Longrightarrow> Q tr' (toJob (fresh_row e p u now))
      (w\<lparr>tables := (tables w)\<lparr>jobs_t := jobs_t (tables w) @ [fresh_row e p u now]\<rparr>, redis := r\<rparr>)"
  shows "lands exec H (create_job e) Q tr w"
  unfolding create_job_def lands_bind
proof (rule insert_job_lands [OF H w(2-6)], assumption+, goal_cases)
  case (1 tr1 i)
  let ?row = "fresh_row e p u (i_time i)"
  let ?w1 = "w\<lparr>tables := (tables w)\<lparr>jobs_t := jobs_t (tables w) @ [?row]\<rparr>\<rparr>"
  have j: "j_id (toJob ?row) = u" "j_runAt (toJob ?row) = the_default (i_time i) (in_runAt e)"
    by (simp_all add: toJob_def fresh_row_def)
  show ?case unfolding Let_def j(1)
  proof (rule lands_await [OF H(1)], assumption, goal_cases)
    case (1 i1)
    have now: "\<not> j_runAt (toJob ?row) > i_clock i1" using due [OF \<open>H i\<close> 1] j by simp
    have "lands exec H (seq (seq (push u) (Ret ())) (seq (case key_of (in_idempotencyKey e) of
          None \<Rightarrow> Ret () | Some k \<Rightarrow> complete_slot (in_tenant e) k u) (Ret (toJob ?row)))) Q tr2 ?w1" for tr2
      unfolding lands_bind
    proof (rule push_lands [OF H(1)], assumption, simp add: w(1), goal_cases)
      case (1 tr3 n r)
      show ?case unfolding lands.simps
      proof (rule complete_lands [OF H(1)], assumption, goal_cases)
        case (1 tr4 r2)
        have same: "ent r2 k = ent r k" if "queue_key k" for k using 1 slot_keys_beside that by auto
        have q2: "queue_keys (ent r2)" "queue_of (ent r2) = push_q u (queue_of (ent (redis w)))"
          using queue_cong [of "ent r2" "ent r"] same \<open>queue_keys (ent r)\<close> \<open>queue_of (ent r) = _\<close> by simp_all
        moreover have "\<forall>k. \<not> queue_key k \<longrightarrow> k \<notin> slot_keys e \<longrightarrow> ent r2 k = ent (redis w) k"
          using 1 \<open>\<forall>k. \<not> queue_key k \<longrightarrow> ent r k = _ k\<close> by simp
        ultimately have "accepted_as e u (i_time i) (ent (redis w)) (ent r2)" by (simp add: accepted_as_def)
        from Q [OF this] show ?case by simp
      qed
    qed
    with now show ?case by simp
  qed
qed

lemma enqueue_lands:
  assumes H: "\<And>i. H i \<Longrightarrow> i_fault i = NoFault" "\<And>i. H i \<Longrightarrow> i_uuid i = u"
    and due: "\<And>i i'. H i \<Longrightarrow> H i' \<Longrightarrow> the_default (i_time i) (in_runAt e) \<le> i_clock i'"
    and w: "acceptable e u p wh (ent (redis w)) (tables w)"
    and Q: "\<And>tr' now r. accepted_as e u now (ent (redis w)) (ent r) \<Longrightarrow> Q tr' (toJob (fresh_row e p u now))
      (w\<lparr>tables := (tables w)\<lparr>jobs_t := jobs_t (tables w) @ [fresh_row e p u now]\<rparr>, redis := r\<rparr>)"
  shows "lands exec H (enqueue e) Q tr w"
proof -
  have q: "queue_keys (ent (redis w))" and wh: "filter (\<lambda>v. wr_id v = in_webhookId e) (webhooks_t (tables w)) = [wh]"
    and ten: "wr_tenant wh = in_tenant e" and act: "wr_isactive wh" and new: "u \<notin> jr_id ` set (jobs_t (tables w))"
    and free: "\<forall>k. key_of (in_idempotencyKey e) = Some k \<longrightarrow> ent (redis w) (redisKey (in_tenant e) k) = None"
    and texts: "storable (in_tenant e)" "storable (in_eventType e)" "jsonb (tables w) (in_payload e) = Some p"
    using w by (simp_all add: acceptable_def)
  have mem: "in_webhookId e \<in> wr_id ` set (webhooks_t (tables w))"
    using filter_eq_ConsD [OF wh] by auto
  show ?thesis unfolding enqueue_def lands_bind
  proof (rule getOwnedBy_lands [OF H(1) wh ten], assumption, goal_cases)
    case (1 tr1)
    have a: "\<not> \<not> w_isActive (toWebhook wh)" using act by (simp add: toWebhook_def)
    show ?case unfolding if_not_P [OF a] lands_bind
    proof (rule gate_lands [OF H(1) free], assumption, goal_cases)
      case (1 tr2 r)
      have same: "ent r k = ent (redis w) k" if "queue_key k" for k using 1 slot_keys_beside that by auto
      have q1: "queue_keys (ent (redis (w\<lparr>redis := r\<rparr>)))" "queue_of (ent r) = queue_of (ent (redis w))"
        using queue_cong [of "ent r" "ent (redis w)"] same q by simp_all
      show ?case unfolding option.case
      proof (rule lands_catch, rule create_lands [where p = p, OF H due q1(1)], assumption+, goal_cases)
        case (6 tr3 now r2)
        have "accepted_as e u now (ent (redis w)) (ent r2)" using 6 1 q1(2) by (simp add: accepted_as_def)
        from Q [OF this] show ?case by simp
      qed (use mem new texts in simp_all)
    qed
  qed
qed

end

section \<open>A turn of the scheduler\<close>

text \<open>The tick leads: a process without the lock finds it free or lapsed, and one that holds it finds its
  own token, not lapsed, to renew.\<close>

definition can_lead :: "lock option \<Rightarrow> entry \<Rightarrow> ms \<Rightarrow> bool" where
  "can_lead l e t \<longleftrightarrow> (\<exists>s. holds s e \<and>
     (case l of None \<Rightarrow> owner t s = None | Some held \<Rightarrow> l_key held = LOCK_KEY \<and> owner t s = Some (l_token held)))"

context redis_server
begin

lemma sweep_lands:
  assumes H: "\<And>i. H i \<Longrightarrow> i_fault i = NoFault" and T: "\<And>i. H i \<Longrightarrow> t \<le> i_clock i" and q: "queue_keys (ent (redis w))"
    and Q: "\<And>tr' r t1 t2. t \<le> t1 \<Longrightarrow> queue_keys (ent r) \<Longrightarrow>
      queue_of (ent r) = reap_q t2 100 (promote_q t1 100 (queue_of (ent (redis w)))) \<Longrightarrow> Q tr' () (w\<lparr>redis := r\<rparr>)"
  shows "lands exec H sweep Q tr w"
  unfolding sweep_def
proof (rule lands_await [OF H], assumption, goal_cases)
  case (1 i1)
  show ?case unfolding promoteDue_def
  proof (simp add: lands_bind, rule lands_await [OF H], assumption, goal_cases)
    case (1 i2)
    obtain r where r: "serve exec i2 (Eval PROMOTE_SCRIPT [DELAYED, READY_QUEUE] [VNum (of_int (i_clock i1)), VNum 100]) w =
        (Rep (RInt (int (length (zdue (i_clock i1) 100 (delayed (queue_of (ent (redis w)))))))), w\<lparr>redis := r\<rparr>)"
      "queue_keys (ent r)" "queue_of (ent r) = promote_q (i_clock i1) 100 (queue_of (ent (redis w)))"
      using qop_script_served [OF q, of PROMOTE_SCRIPT "[DELAYED, READY_QUEUE]" "[VNum (of_int (i_clock i1)), VNum 100]"
        "OPromote (i_clock i1) 100" i2] promote_refines(1) [OF q, of "i_time i2" "i_clock i1" 100] by auto
    show ?case unfolding r(1)
    proof (simp, rule lands_await [OF H], assumption, goal_cases)
      case (1 i3)
      show ?case unfolding reapExpired_def
      proof (simp add: lands_bind, rule lands_await [OF H], assumption, goal_cases)
        case (1 i4)
        have q1: "queue_keys (ent (redis (w\<lparr>redis := r\<rparr>)))" using r(2) by simp
        obtain r2 where r2: "\<not> rejected (fst (serve exec i4 (Eval REAP_SCRIPT [LEASES, INFLIGHT_QUEUE, READY_QUEUE] [VNum (of_int (i_clock i3)), VNum 100]) (w\<lparr>redis := r\<rparr>)))"
          "snd (serve exec i4 (Eval REAP_SCRIPT [LEASES, INFLIGHT_QUEUE, READY_QUEUE] [VNum (of_int (i_clock i3)), VNum 100]) (w\<lparr>redis := r\<rparr>)) = w\<lparr>redis := r2\<rparr>"
          "queue_keys (ent r2)" "queue_of (ent r2) = reap_q (i_clock i3) 100 (promote_q (i_clock i1) 100 (queue_of (ent (redis w))))"
          using qop_script_served [OF q1, of REAP_SCRIPT "[LEASES, INFLIGHT_QUEUE, READY_QUEUE]" "[VNum (of_int (i_clock i3)), VNum 100]"
            "OReap (i_clock i3) 100" i4] reap_refines(1) [OF q1, of "i_time i4" "i_clock i3" 100] r(3) by auto
        show ?case using r2(1) unfolding r2(2) using Q [OF T r2(3,4)] \<open>H i1\<close> by simp
      qed
    qed
  qed
qed

lemma renew_served:
  assumes "holds s (ent (redis w) k)" and "owner (i_time i) s = Some tok" and "0 < ttl"
  shows "\<exists>r. serve exec i (Eval RENEW_SCRIPT [k] [VStr tok, VNum (of_int ttl)]) w = (Rep (RInt 1), w\<lparr>redis := r\<rparr>) \<and>
    (\<forall>k'. k' \<noteq> k \<longrightarrow> ent r k' = ent (redis w) k')"
proof -
  note l = holds_live [OF assms(1), of "i_time i"]
  let ?r1 = "snd (exec (i_time i) (Get k) (redis w))"
  let ?r2 = "snd (exec (i_time i) (Pexpire k ttl) ?r1)"
  have g: "fst (exec (i_time i) (Get k) (redis w)) = RBulk (VStr tok)" "ent ?r1 = ent (redis w)"
    using get [of "i_time i" "redis w" k] l [of tok] assms(2) by simp_all
  have p: "fst (exec (i_time i) (Pexpire k ttl) ?r1) = RInt 1" "\<forall>k'. k' \<noteq> k \<longrightarrow> ent ?r2 k' = ent (redis w) k'"
    using pexpire [of "i_time i" k ttl ?r1] g(2) l assms(2,3) by (auto split: option.splits)
  have "lua_run exec (i_time i) (lua_body RENEW_SCRIPT [k] [VStr tok, VNum (of_int ttl)]) (redis w) = (Inr (RInt 1), ?r2)"
    using g(1) p(1) by (simp add: renew_script_def split_beta prod_eq_iff)
  from serve_eval [OF this] p(2) show ?thesis by auto
qed

lemma lead_lands:
  assumes H: "\<And>i. H i \<Longrightarrow> i_fault i = NoFault" and q: "queue_keys (ent (redis w))"
    and L: "\<And>i. H i \<Longrightarrow> can_lead l (ent (redis w) LOCK_KEY) (i_time i)"
    and Q: "\<And>tr' l' r. queue_keys (ent r) \<Longrightarrow> queue_of (ent r) = queue_of (ent (redis w)) \<Longrightarrow> Q tr' (Some l') (w\<lparr>redis := r\<rparr>)"
  shows "lands exec H (lead l) Q tr w"
proof -
  have ttl: "0 < LOCK_TTL_MS" by (simp add: LOCK_TTL_MS_def)
  have keep: "queue_keys (ent r) \<and> queue_of (ent r) = queue_of (ent (redis w))"
    if e: "\<forall>k. k \<noteq> LOCK_KEY \<longrightarrow> ent r k = ent (redis w) k" for r
  proof -
    have "ent r k = ent (redis w) k" if "queue_key k" for k using e other_keys(4) that by metis
    with queue_cong [of "ent r" "ent (redis w)"] q show ?thesis by simp
  qed
  show ?thesis
  proof (cases l)
    case None
    show ?thesis unfolding lead_def None option.case acquire_def
    proof (rule lands_await [OF H], assumption, goal_cases)
      case (1 i)
      have u: "serve exec i RandomUUID w = (Text (i_uuid i), w)" "the_default [] (as_str (Text (i_uuid i))) = i_uuid i" by simp_all
      show ?case unfolding u fst_conv snd_conv Let_def
      proof (rule conjI, simp, rule lands_await [OF H], assumption, goal_cases)
        case (1 i1)
        let ?c = "SetNxPx LOCK_KEY (VStr (i_uuid i)) LOCK_TTL_MS"
        let ?r = "snd (exec (i_time i1) ?c (redis w))"
        have "live (i_time i1) (ent (redis w) LOCK_KEY) = None"
          using L [OF 1] None holds_live by (auto simp: can_lead_def)
        with set_nx_px [OF ttl, of "i_time i1" LOCK_KEY "VStr (i_uuid i)" "redis w"]
        have f: "fst (exec (i_time i1) ?c (redis w)) = RBulk (VStr ''OK'')" and e: "\<forall>k. k \<noteq> LOCK_KEY \<longrightarrow> ent ?r k = ent (redis w) k"
          by simp_all
        show ?case unfolding serve_cmd f using Q keep [OF e] by simp
      qed
    qed
  next
    case (Some held)
    show ?thesis unfolding lead_def Some option.case lands_bind renew_def
    proof (rule lands_await [OF H], assumption, goal_cases)
      case (1 i)
      obtain s where s: "holds s (ent (redis w) LOCK_KEY)" "l_key held = LOCK_KEY" "owner (i_time i) s = Some (l_token held)"
        using L [OF 1] Some by (auto simp: can_lead_def)
      obtain r where r: "serve exec i (Eval RENEW_SCRIPT [LOCK_KEY] [VStr (l_token held), VNum (of_int LOCK_TTL_MS)]) w = (Rep (RInt 1), w\<lparr>redis := r\<rparr>)"
        "\<forall>k'. k' \<noteq> LOCK_KEY \<longrightarrow> ent r k' = ent (redis w) k'"
        using renew_served [OF s(1,3) ttl] by blast
      show ?case unfolding s(2) r(1) using Q keep [OF r(2)] by simp
    qed
  qed
qed

lemma tick_lands:
  assumes H: "\<And>i. H i \<Longrightarrow> i_fault i = NoFault" and T: "\<And>i. H i \<Longrightarrow> t \<le> i_clock i" and q: "queue_keys (ent (redis w))"
    and L: "\<And>i. H i \<Longrightarrow> can_lead l (ent (redis w) LOCK_KEY) (i_time i)"
    and Q: "\<And>tr' l' r t1 t2. t \<le> t1 \<Longrightarrow> queue_keys (ent r) \<Longrightarrow>
      queue_of (ent r) = reap_q t2 100 (promote_q t1 100 (queue_of (ent (redis w)))) \<Longrightarrow> Q tr' (Some l') (w\<lparr>redis := r\<rparr>)"
  shows "lands exec H (tick l) Q tr w"
  unfolding tick_def
proof (rule lands_catch, unfold lands_bind, rule lead_lands [OF H q L], assumption+, goal_cases)
  case (1 tr1 l' r)
  then have q1: "queue_keys (ent (redis (w\<lparr>redis := r\<rparr>)))" by simp
  have "lands exec H (catch_prog (seq sweep (Ret (Some l'))) (\<lambda>err. Ret (Some l'))) Q tr1 (w\<lparr>redis := r\<rparr>)"
  proof (rule lands_catch, unfold lands_bind, rule sweep_lands [OF H T q1], assumption+, goal_cases)
    case (1 tr2 r2 t1 t2)
    then show ?case using Q \<open>queue_of (ent r) = _\<close> by simp
  qed
  then show ?case by simp
qed

end

section \<open>How many answers they use\<close>

lemma enqueue_length: "wp (enqueue e) (\<lambda>_ _. True) (\<lambda>_ _. True) (\<lambda>tr c. length tr < 10) []"
  by (auto simp: wp_simps enqueue_code split: if_splits option.splits)

lemma consume_one_length: "wp (consume_one cfg hmac) (\<lambda>_ _. True) (\<lambda>_ _. True) (\<lambda>tr c. length tr < 24) []"
  by (simp add: wp_simps consume_one_def reserve_def process_code)

context redis_server
begin

lemma turn_runs:
  assumes "ready (queue_of (ent (redis w))) = js @ [j]" and "j \<noteq> []" and "deliverable cfg j row wh (ent (redis w)) (tables w)"
    and "\<forall>i \<in> set ins. healthy st i" and "24 \<le> length ins"
    and "run exec (consume_one cfg hmac) ins w = ((tr, out), w')"
  shows "out = Done () \<and> attempted hmac row wh st j
    (queue_of (ent (redis w))\<lparr>ready := js, inflight := j # inflight (queue_of (ent (redis w)))\<rparr>)
    [] (requests tr) (tables w) (ent (redis w')) (tables w')"
proof -
  have "lands exec (healthy st) (consume_one cfg hmac) (\<lambda>tr _ w'. attempted hmac row wh st j
      (queue_of (ent (redis w))\<lparr>ready := js, inflight := j # inflight (queue_of (ent (redis w)))\<rparr>)
      [] (requests tr) (tables w) (ent (redis w')) (tables w')) [] w"
    by (rule consume_one_lands [OF _ _ assms(1-3)]) (simp_all add: healthy_def)
  from lands_run [OF this assms(4,6) run_complete [OF consume_one_length assms(5,6)]] show ?thesis by simp
qed

lemma enqueue_runs:
  assumes "acceptable e u p wh (ent (redis w)) (tables w)"
    and "\<forall>i \<in> set ins. i_fault i = NoFault \<and> i_uuid i = u \<and> the_default (i_time i) (in_runAt e) \<le> t \<and> t \<le> i_clock i" and "10 \<le> length ins"
    and "run exec (enqueue e) ins w = ((tr, out), w')"
  shows "\<exists>now r. out = Done (toJob (fresh_row e p u now)) \<and> accepted_as e u now (ent (redis w)) (ent r) \<and>
    w' = w\<lparr>tables := (tables w)\<lparr>jobs_t := jobs_t (tables w) @ [fresh_row e p u now]\<rparr>, redis := r\<rparr>"
proof -
  let ?H = "\<lambda>i. i_fault i = NoFault \<and> i_uuid i = u \<and> the_default (i_time i) (in_runAt e) \<le> t \<and> t \<le> i_clock i"
  have "lands exec ?H (enqueue e) (\<lambda>tr j w'. \<exists>now r. j = toJob (fresh_row e p u now) \<and> accepted_as e u now (ent (redis w)) (ent r) \<and>
    w' = w\<lparr>tables := (tables w)\<lparr>jobs_t := jobs_t (tables w) @ [fresh_row e p u now]\<rparr>, redis := r\<rparr>) [] w"
    by (rule enqueue_lands [where u = u, OF _ _ _ assms(1)]) (auto intro: order.trans)
  from lands_run [OF this assms(2,4) run_complete [OF enqueue_length assms(3,4)]] show ?thesis by auto
qed

lemma tick_runs:
  assumes "queue_keys (ent (redis w))"
    and "\<forall>i \<in> set ins. i_fault i = NoFault \<and> t \<le> i_clock i \<and> can_lead l (ent (redis w) LOCK_KEY) (i_time i)" and "6 \<le> length ins"
    and "run exec (tick l) ins w = ((tr, out), w')"
  shows "\<exists>l' t1 t2. out = Done (Some l') \<and> t \<le> t1 \<and> tables w' = tables w \<and>
    queue_of (ent (redis w')) = reap_q t2 100 (promote_q t1 100 (queue_of (ent (redis w))))"
proof -
  let ?H = "\<lambda>i. i_fault i = NoFault \<and> t \<le> i_clock i \<and> can_lead l (ent (redis w) LOCK_KEY) (i_time i)"
  have "lands exec ?H (tick l) (\<lambda>tr l' w'. \<exists>l1 t1 t2. l' = Some l1 \<and> t \<le> t1 \<and> tables w' = tables w \<and>
    queue_of (ent (redis w')) = reap_q t2 100 (promote_q t1 100 (queue_of (ent (redis w))))) [] w"
    by (rule tick_lands [where t = t and l = l, OF _ _ assms(1)]) auto
  from lands_run [OF this assms(2,4) run_complete [OF tick_length assms(3,4)]] show ?thesis by auto
qed

end

lemma fresh_rows:
  assumes "u \<notin> jr_id ` set (jobs_t d)"
  shows "rows_of u (d\<lparr>jobs_t := jobs_t d @ [fresh_row e p u now]\<rparr>) = [fresh_row e p u now]"
proof -
  have "filter (\<lambda>row. jr_id row = u) (jobs_t d) = []" using assms by (auto simp: filter_empty_conv)
  then show ?thesis by (simp add: rows_of_def fresh_row_def)
qed

lemma gate_keys_free:
  "circuit_key w \<notin> slot_keys e" "ratelimit_key w \<notin> slot_keys e"
  by (auto simp: slot_keys_def circuit_key_def ratelimit_key_def redisKey_def)

text \<open>A due id among the first hundred of the delayed set is among those that a batch takes.\<close>

lemma due_in_batch:
  assumes "(j, due) \<in> set (take n z)" and "due \<le> t"
  shows "j \<in> set (zdue t (int n) z)"
proof -
  have "set (take n z) \<inter> {p. snd p \<le> t} \<subseteq> set (take n (filter (\<lambda>p. snd p \<le> t) z))"
  proof (induction z arbitrary: n)
    case (Cons p z)
    show ?case
    proof (cases n)
      case (Suc m)
      have "set (take m zs) \<subseteq> set (take (Suc m) zs)" for zs :: zset by (simp add: set_take_subset_set_take)
      with Suc Cons.IH [of m] show ?thesis by auto
    qed simp
  qed simp
  with assms show ?thesis by (force simp: zdue_def Let_def take_map)
qed

lemma promoted_back:
  assumes "(j, due) \<in> set (take 100 (delayed q))" and "due \<le> t"
  shows "j \<in> set (ready (reap_q t2 100 (promote_q t 100 q))) \<and> j \<notin> fst ` set (delayed (reap_q t2 100 (promote_q t 100 q)))"
proof -
  have "j \<in> set (zdue t 100 (delayed q))" using due_in_batch [OF assms] by simp
  then show ?thesis by (auto simp: queue_ops keys_fold_zrem)
qed

text \<open>The reference world of \<open>Platform\<close> with one job that can be delivered.\<close>

lemma sample_deliverable:
  "deliverable sample_config ''j'' (sample_row Queued 0) sample_webhook (redis (sample_world Queued 0 (push_q ''j'' empty_queue)))
     (tables (sample_world Queued 0 (push_q ''j'' empty_queue)))"
proof -
  have "keeps None ((redis (sample_world Queued 0 (push_q ''j'' empty_queue))) (circuit_key ''w''))"
    by (simp add: keeps_def) code_simp
  moreover have "(redis (sample_world Queued 0 (push_q ''j'' empty_queue))) (ratelimit_key ''w'') = None" by code_simp
  ultimately show ?thesis
    by (auto simp: deliverable_def sample_world_def sample_defs rows_of_def lets_out_def has_token_def queue_wf_def zwf_def
        push_q_def empty_queue_def intro: exI [of _ None])
qed

text \<open>The same world under a scheduler that holds the lock.\<close>

definition leading_world :: "keyspace world" where
  "leading_world = (let w = sample_world Queued 0 (push_q ''j'' empty_queue)
     in w\<lparr>redis := (redis w)(LOCK_KEY \<mapsto> (DStr (VStr ''tok''), Some 60100))\<rparr>)"

lemma leading_deliverable:
  "deliverable sample_config ''j'' (sample_row Queued 0) sample_webhook (redis leading_world) (tables leading_world)"
proof -
  let ?w = "sample_world Queued 0 (push_q ''j'' empty_queue)"
  have same: "redis leading_world k = redis ?w k" if "k \<noteq> LOCK_KEY" for k
    using that by (simp add: leading_world_def Let_def)
  have t: "tables leading_world = tables ?w" by (simp add: leading_world_def Let_def)
  have k: "circuit_key ''w'' \<noteq> LOCK_KEY" "ratelimit_key ''w'' \<noteq> LOCK_KEY" by code_simp+
  have q: "queue_keys (redis leading_world) = queue_keys (redis ?w)"
  proof (rule queue_cong(2))
    fix k' assume "queue_key k'"
    then show "redis leading_world k' = redis ?w k'" using other_keys(4) same by metis
  qed
  have "jr_webhookid (sample_row Queued 0) = ''w''" by (simp add: sample_row_def)
  with sample_deliverable show ?thesis unfolding deliverable_def q t by (simp add: same k)
qed

text \<open>A database whose payload column, as \<open>JSONB\<close> does, puts the shorter key first.\<close>

definition submitted :: string where "submitted = ''{bb:1,a:2}''"
definition kept :: string where "kept = ''{a:2,bb:1}''"

definition one_webhook :: "keyspace world" where
  "one_webhook = \<lparr>redis = server_with empty_queue, tables = \<lparr>webhooks_t = [sample_webhook], jobs_t = [], attempts_t = [],
     jsonb = (\<lambda>p. if p = submitted then Some kept else Some p)\<rparr>\<rparr>"

section \<open>Properties\<close>

text \<open>C6: A healthy worker settles the next job. When the next id to be claimed has a live row with
  attempts left, its webhook has a secret and both gates let it out, a turn of the worker in which
  no command fails ends; it has sent one request, the job's signed one, and recorded the answer; and
  the row and the queue are as the answer calls for: succeeded and gone from the queue, dead and on
  the dead-letter list, or queued and delayed until the row's due time, with one attempt spent.\<close>

theorem ready_job_is_settled:
  assumes "redis_server exec ent"
    and "ready (queue_of (ent (redis w))) = js @ [j]" and "j \<noteq> []" and "deliverable cfg j row wh (ent (redis w)) (tables w)"
    and "\<forall>i \<in> set ins. healthy st i" and "24 \<le> length ins"
    and "run exec (consume_one cfg hmac) ins w = ((tr, out), w')"
  shows "out = Done () \<and>
    (\<exists>req r. requests tr = [(Fetch req, r)] \<and> answered st r \<and> delivered hmac (toJob row) (wr_url wh) (wr_secret wh) req) \<and>
    (\<exists>a. attempts_t (tables w') = attempts_t (tables w) @ [a] \<and> a_jobId a = j \<and> a_statusCode a = st) \<and>
    (\<exists>row'. rows_of j (tables w') = [row'] \<and> jr_state row' = verdict (toJob row) st \<and> jr_attempts row' = jr_attempts row + 1 \<and>
      queue_of (ent (redis w')) = released (verdict (toJob row) st) j (jr_runat row')
        (queue_of (ent (redis w))\<lparr>ready := js, inflight := j # inflight (queue_of (ent (redis w)))\<rparr>))"
proof -
  have "jr_id row = j" using assms(4) row_found by (auto simp: deliverable_def)
  with redis_server.turn_runs [OF assms] show ?thesis by (auto simp: attempted_def settled_def)
qed

theorem ready_job_is_settled_witness:
  "map jr_state (rows_of ''j'' (tables (snd (run mem_exec (consume_one sample_config (\<lambda>_ _. ''mac'')) (replicate 24 (ok_input 9))
     (sample_world Queued 0 (push_q ''j'' empty_queue)))))) = [Succeeded]"
proof -
  let ?w = "sample_world Queued 0 (push_q ''j'' empty_queue)"
  let ?run = "run mem_exec (consume_one sample_config (\<lambda>_ _. ''mac'')) (replicate 24 (ok_input 9)) ?w"
  have r: "ready (queue_of (redis ?w)) = [] @ [''j'']" by (simp add: sample_world_def push_q_def empty_queue_def)
  have h: "\<forall>i \<in> set (replicate 24 (ok_input 9)). healthy (Some 200) i" by (simp add: ok_input_def healthy_def)
  have v: "verdict (toJob (sample_row Queued 0)) (Some 200) = Succeeded" by (simp add: verdict_def ok_status_def)
  obtain tr out w' where run: "?run = ((tr, out), w')" by (metis prod.exhaust)
  from ready_job_is_settled [OF mem_server r _ sample_deliverable h _ run] v run show ?thesis by auto
qed

text \<open>C4: From the API to the endpoint. An event for an active webhook of the tenant, due now, whose slot
  is free and whose texts and payload Postgres can store, is accepted by an API whose stores are up.
  If the ready list is empty and the webhook's two gates let it out, the next turn of a worker whose
  commands are answered sends it: one request to the webhook's URL, whose body is the payload as
  Postgres gives it back (\<open>JSONB\<close> keeps the value, not the text), signed with the webhook's secret. When
  the endpoint answers with a 2xx status, the row is succeeded after one attempt, the audit trail
  has one row more, and the queue is as it was before the event came.\<close>

theorem accepted_event_is_delivered:
  assumes "redis_server exec ent" and "stores_agree ent w" and "ready (queue_of (ent (redis w))) = []"
    and "acceptable e u p wh (ent (redis w)) (tables w)" and "u \<noteq> []" and "wr_secret wh \<noteq> []"
    and "keeps s (ent (redis w) (circuit_key (in_webhookId e)))" and "lets_out s"
    and "has_token (ent (redis w) (ratelimit_key (in_webhookId e)))" and "0 < perSecond cfg" and "1 \<le> burst cfg"
    and "\<forall>i \<in> set ins. i_fault i = NoFault \<and> i_uuid i = u \<and> the_default (i_time i) (in_runAt e) \<le> t \<and> t \<le> i_clock i"
    and "10 \<le> length ins" and "run exec (enqueue e) ins w = ((tr1, out1), w1)"
    and "\<forall>i \<in> set ins'. healthy (Some n) i" and "ok_status n"
    and "24 \<le> length ins'" and "run exec (consume_one cfg hmac) ins' w1 = ((tr2, out2), w2)"
  shows "(\<exists>j. out1 = Done j \<and> j_id j = u) \<and> out2 = Done () \<and>
    (\<exists>req ts. requests tr2 = [(Fetch req, Status n)] \<and> url req = wr_url wh \<and> jsonb (tables w) (in_payload e) = Some (body req) \<and>
      map_of (headers req) ''x-job-id'' = Some u \<and> map_of (headers req) ''x-signature-timestamp'' = Some ts \<and>
      map_of (headers req) ''x-signature'' = Some (''v1='' @ hmac (wr_secret wh) (ts @ ''.'' @ body req))) \<and>
    (\<exists>row. rows_of u (tables w2) = [row] \<and> jr_state row = Succeeded \<and> jr_attempts row = 1) \<and>
    (\<exists>a. attempts_t (tables w2) = attempts_t (tables w) @ [a] \<and> a_jobId a = u \<and> a_statusCode a = Some n) \<and>
    queue_of (ent (redis w2)) = queue_of (ent (redis w))"
proof -
  let ?q = "queue_of (ent (redis w))"
  obtain now r where out1: "out1 = Done (toJob (fresh_row e p u now))" and acc: "accepted_as e u now (ent (redis w)) (ent r)"
    and w1: "w1 = w\<lparr>tables := (tables w)\<lparr>jobs_t := jobs_t (tables w) @ [fresh_row e p u now]\<rparr>, redis := r\<rparr>"
    using redis_server.enqueue_runs [OF assms(1,4,12-14)] by blast
  let ?row = "fresh_row e p u now"
  have new: "u \<notin> jr_id ` set (jobs_t (tables w))" and wh: "filter (\<lambda>v. wr_id v = in_webhookId e) (webhooks_t (tables w)) = [wh]"
    and p: "jsonb (tables w) (in_payload e) = Some p"
    using assms(4) by (simp_all add: acceptable_def)
  have q1: "queue_of (ent (redis w1)) = push_q u ?q" using acc w1 by (simp add: accepted_as_def)
  then have ready: "ready (queue_of (ent (redis w1))) = [] @ [u]" using assms(3) by (simp add: push_q_def)
  have rows: "rows_of u (tables w1) = [?row]" using fresh_rows [OF new] w1 by simp
  have "deliverable cfg u ?row wh (ent (redis w1)) (tables w1)"
    using acc w1 rows wh assms(6-11) gate_keys_free by (auto simp: deliverable_def accepted_as_def fresh_row_def max_attempts_default_def)
  note t = redis_server.turn_runs [OF assms(1) ready assms(5) this assms(15,17,18)]
  have v: "verdict (toJob ?row) (Some n) = Succeeded" using assms(16) by (simp add: verdict_def)
  have "u \<notin> fst ` set (leases ?q)" using assms(2) new by (auto simp: stores_agree_def queue_ids_def row_ids_def)
  then have z: "zrem u (leases ?q) = leases ?q" by (auto simp: zrem_def filter_id_conv)
  have q2: "queue_of (ent (redis w2)) = ?q"
    using t v q1 z assms(3) by (auto simp: attempted_def settled_def ack_q_def push_q_def)
  have row: "\<exists>row. rows_of u (tables w2) = [row] \<and> jr_state row = Succeeded \<and> jr_attempts row = 1"
    using t v by (auto simp: attempted_def settled_def fresh_row_def)
  have att: "\<exists>a. attempts_t (tables w2) = attempts_t (tables w) @ [a] \<and> a_jobId a = u \<and> a_statusCode a = Some n"
    using t w1 by (auto simp: attempted_def)
  from t obtain req where "requests tr2 = [(Fetch req, Status n)]" "delivered hmac (toJob ?row) (wr_url wh) (wr_secret wh) req"
    by (auto simp: attempted_def answered_def)
  then have "\<exists>req ts. requests tr2 = [(Fetch req, Status n)] \<and> url req = wr_url wh \<and> jsonb (tables w) (in_payload e) = Some (body req) \<and>
      map_of (headers req) ''x-job-id'' = Some u \<and> map_of (headers req) ''x-signature-timestamp'' = Some ts \<and>
      map_of (headers req) ''x-signature'' = Some (''v1='' @ hmac (wr_secret wh) (ts @ ''.'' @ body req))"
    using p by (auto simp: delivered_def delivery_request_def sign_def toJob_def fresh_row_def)
  with out1 t q2 row att show ?thesis by (auto simp: toJob_def fresh_row_def)
qed

theorem accepted_event_is_delivered_witness:
  "let e = sample_input ''t'' (Some ''k'')\<lparr>in_payload := submitted\<rparr>;
       w1 = snd (run mem_exec (enqueue e) (replicate 10 (ok_input 9)) one_webhook);
       run2 = run mem_exec (consume_one sample_config (\<lambda>_ _. ''mac'')) (replicate 24 (ok_input 9)) w1
   in map jr_state (rows_of ''u'' (tables w1)) = [Queued] \<and> ready (queue_of (redis w1)) = [''u''] \<and>
      (\<exists>req. requests (fst (fst run2)) = [(Fetch req, Status 200)] \<and> body req = kept) \<and>
      map jr_state (rows_of ''u'' (tables (snd run2))) = [Succeeded] \<and> queue_of (redis (snd run2)) = empty_queue"
proof -
  let ?e = "sample_input ''t'' (Some ''k'')\<lparr>in_payload := submitted\<rparr>"
  let ?run1 = "run mem_exec (enqueue ?e) (replicate 10 (ok_input 9)) one_webhook"
  let ?run2 = "run mem_exec (consume_one sample_config (\<lambda>_ _. ''mac'')) (replicate 24 (ok_input 9)) (snd ?run1)"
  have q: "queue_of (redis one_webhook) = empty_queue" by (simp add: one_webhook_def)
  have a: "stores_agree (\<lambda>e. e) one_webhook" "ready (queue_of (redis one_webhook)) = []"
    by (simp_all add: one_webhook_def stores_agree_def db_wf_def sample_webhook_def empty_queue_def queue_wf_def zwf_def queue_ids_def)
  have p: "jsonb (tables one_webhook) (in_payload ?e) = Some kept" by (simp add: one_webhook_def)
  have b: "acceptable ?e ''u'' kept sample_webhook (redis one_webhook) (tables one_webhook)"
    unfolding acceptable_def p
    by (simp add: one_webhook_def sample_input_def sample_webhook_def empty_queue_def queue_wf_def zwf_def) code_simp
  have c: "keeps None (redis one_webhook (circuit_key (in_webhookId ?e)))" "lets_out None"
    "has_token (redis one_webhook (ratelimit_key (in_webhookId ?e)))"
    by (simp_all add: keeps_def lets_out_def has_token_def one_webhook_def sample_input_def server_with_def queue_put_def
        empty_queue_def put_list_def put_zset_def)
  have i: "\<forall>i \<in> set (replicate 10 (ok_input 9)). i_fault i = NoFault \<and> i_uuid i = ''u'' \<and>
      the_default (i_time i) (in_runAt ?e) \<le> 9 \<and> 9 \<le> i_clock i"
    "\<forall>i \<in> set (replicate 24 (ok_input 9)). healthy (Some 200) i"
    by (simp_all add: ok_input_def healthy_def sample_input_def)
  obtain tr1 out1 w1 where 1: "?run1 = ((tr1, out1), w1)" by (metis prod.exhaust)
  obtain tr2 out2 w2 where 2: "?run2 = ((tr2, out2), w2)" by (metis prod.exhaust)
  from accepted_event_is_delivered [OF mem_server a b _ _ c _ _ i(1) _ 1 i(2) _ _ 2 [unfolded 1 snd_conv], unfolded p q]
  have "(\<exists>req. requests tr2 = [(Fetch req, Status 200)] \<and> body req = kept) \<and>
      map jr_state (rows_of ''u'' (tables w2)) = [Succeeded] \<and> queue_of (redis w2) = empty_queue"
    by (force simp: sample_webhook_def sample_config_def ok_status_def)
  moreover have "map jr_state (rows_of ''u'' (tables (snd ?run1))) = [Queued] \<and> ready (queue_of (redis (snd ?run1))) = [''u'']"
    by code_simp
  ultimately show ?thesis using 2 by (simp add: Let_def)
qed

text \<open>C7: A failed delivery is tried again. When the answer calls for a retry, the turn ends with the job
  delayed until the row's due time. A tick of the scheduler that leads (it finds the lock free or
  lapsed, or renews its own) and runs at or after that time with its commands answered puts the id back on the ready list and off
  the delayed set, with the row still queued and the attempt counted, if the id is among the
  hundred that are due first (the batch of one tick).\<close>

theorem failed_delivery_comes_back:
  assumes "redis_server exec ent"
    and "ready (queue_of (ent (redis w))) = js @ [j]" and "j \<noteq> []" and "deliverable cfg j row wh (ent (redis w)) (tables w)"
    and "\<forall>i \<in> set ins. healthy st i" and "24 \<le> length ins"
    and "run exec (consume_one cfg hmac) ins w = ((tr1, out1), w1)" and "verdict (toJob row) st = Queued"
    and "rows_of j (tables w1) = [row1]" and "j \<in> fst ` set (take 100 (delayed (queue_of (ent (redis w1)))))"
    and "\<forall>i \<in> set ins'. i_fault i = NoFault \<and> jr_runat row1 \<le> i_clock i \<and> can_lead l (ent (redis w1) LOCK_KEY) (i_time i)"
    and "6 \<le> length ins'" and "run exec (tick l) ins' w1 = ((tr2, out2), w2)"
  shows "(\<exists>l'. out2 = Done (Some l')) \<and> j \<in> set (ready (queue_of (ent (redis w2)))) \<and>
    j \<notin> fst ` set (delayed (queue_of (ent (redis w2)))) \<and>
    rows_of j (tables w2) = [row1] \<and> jr_state row1 = Queued \<and> jr_attempts row1 = jr_attempts row + 1"
proof -
  let ?q = "queue_of (ent (redis w))\<lparr>ready := js, inflight := j # inflight (queue_of (ent (redis w)))\<rparr>"
  have id: "jr_id row = j" and q: "queue_keys (ent (redis w))" using assms(4) row_found by (auto simp: deliverable_def)
  from redis_server.turn_runs [OF assms(1-7)] assms(8,9) id
  have w1: "queue_keys (ent (redis w1))" "jr_state row1 = Queued" "jr_attempts row1 = jr_attempts row + 1"
    "queue_of (ent (redis w1)) = retry_q j (jr_runat row1) ?q"
    by (auto simp: attempted_def settled_def)
  obtain l' t1 t2 where t: "out2 = Done (Some l')" "jr_runat row1 \<le> t1" "tables w2 = tables w1"
    "queue_of (ent (redis w2)) = reap_q t2 100 (promote_q t1 100 (queue_of (ent (redis w1))))"
    using redis_server.tick_runs [OF assms(1) w1(1) assms(11,12,13)] by blast
  let ?z = "delayed (queue_of (ent (redis w1)))"
  obtain due where d: "(j, due) \<in> set (take 100 ?z)" using assms(10) by auto
  have "?z = zadd (jr_runat row1) j (delayed (queue_of (ent (redis w))))"
    unfolding w1(4) by (simp add: queue_ops)
  then have "due = jr_runat row1" using in_set_takeD [OF d] by (auto simp: set_zadd zrem_def)
  with promoted_back [OF d, of t1 t2] t w1(2,3) assms(9) show ?thesis by simp
qed

theorem failed_delivery_comes_back_witness:
  "let w1 = snd (run mem_exec (consume_one sample_config (\<lambda>_ _. ''mac'')) (replicate 24 (ok_input 9\<lparr>i_status := Some 503\<rparr>)) leading_world);
       w2 = snd (run mem_exec (tick (Some \<lparr>l_key = LOCK_KEY, l_token = ''tok''\<rparr>)) (replicate 6 (ok_input 60009)) w1)
   in map fst (delayed (queue_of (redis w1))) = [''j''] \<and> ''j'' \<in> set (ready (queue_of (redis w2)))"
proof -
  let ?run1 = "run mem_exec (consume_one sample_config (\<lambda>_ _. ''mac'')) (replicate 24 (ok_input 9\<lparr>i_status := Some 503\<rparr>)) leading_world"
  let ?l = "Some \<lparr>l_key = LOCK_KEY, l_token = ''tok''\<rparr>"
  let ?run2 = "run mem_exec (tick ?l) (replicate 6 (ok_input 60009)) (snd ?run1)"
  have r: "ready (queue_of (redis leading_world)) = [] @ [''j'']" by code_simp
  have h: "\<forall>i \<in> set (replicate 24 (ok_input 9\<lparr>i_status := Some 503\<rparr>)). healthy (Some 503) i" by (simp add: ok_input_def healthy_def)
  have v: "verdict (toJob (sample_row Queued 0)) (Some 503) = Queued" by code_simp
  have all: "case ?run1 of (_, w1) \<Rightarrow> (case rows_of ''j'' (tables w1) of [row1] \<Rightarrow> jr_runat row1 \<le> 60009 | _ \<Rightarrow> False) \<and>
      (case redis w1 LOCK_KEY of Some (DStr (VStr tok), Some x) \<Rightarrow> tok = ''tok'' \<and> x = 60100 | _ \<Rightarrow> False) \<and> map fst (delayed (queue_of (redis w1))) = [''j'']" by code_simp
  obtain tr1 out1 w1 where 1: "?run1 = ((tr1, out1), w1)" by (metis prod.exhaust)
  from all obtain row1 where row1: "rows_of ''j'' (tables w1) = [row1]" "jr_runat row1 \<le> 60009"
    and f: "redis w1 LOCK_KEY = Some (DStr (VStr ''tok''), Some 60100)" and d: "map fst (delayed (queue_of (redis w1))) = [''j'']"
    unfolding 1 by (auto split: list.splits option.splits prod.splits rdata.splits val.splits)
  have n: "''j'' \<in> fst ` set (take 100 (delayed (queue_of (redis w1))))" using d by force
  have "can_lead ?l (redis w1 LOCK_KEY) 60009" unfolding can_lead_def f
    by (rule exI [of _ "Some (''tok'', 60100)"]) (simp add: owner_def)
  then have i: "\<forall>i \<in> set (replicate 6 (ok_input 60009)). i_fault i = NoFault \<and> jr_runat row1 \<le> i_clock i \<and>
      can_lead ?l (redis w1 LOCK_KEY) (i_time i)"
    using row1(2) by (simp add: ok_input_def)
  obtain tr2 out2 w2 where 2: "?run2 = ((tr2, out2), w2)" by (metis prod.exhaust)
  from failed_delivery_comes_back [OF mem_server r _ leading_deliverable h _ 1 v row1(1) n i _ 2 [unfolded 1 snd_conv]]
  have "''j'' \<in> set (ready (queue_of (redis w2)))" by simp
  with d 1 2 show ?thesis by (simp add: Let_def)
qed

text \<open>Why \<open>healthy\<close> asks for an answer that Postgres can store: after a 200 whose body holds a NUL
  character the insertion into the audit trail is refused, \<open>process\<close> throws, no attempt is counted, and the
  claim stays until its lease runs out. Nothing bounds the number of deliveries that follow.\<close>

theorem nul_answer_is_not_counted:
  "case run mem_exec (consume_one sample_config (\<lambda>_ _. ''mac'')) (replicate 24 (ok_input 9\<lparr>i_text := Some [CHR 0x00]\<rparr>))
      (sample_world Queued 0 (push_q ''j'' empty_queue)) of ((tr, _), w) \<Rightarrow>
     length (filter (\<lambda>(c, _). case c of Fetch _ \<Rightarrow> True | _ \<Rightarrow> False) tr) = 1 \<and> attempts_t (tables w) = [] \<and>
     map (\<lambda>x. (jr_state x, jr_attempts x)) (jobs_t (tables w)) = [(In_flight, 0)] \<and> inflight (queue_of (redis w)) = [''j'']"
  by code_simp

section \<open>A creation that fails\<close>

text \<open>Before the creation \<open>enqueue\<close> inserts nothing.\<close>

lemma nothing_created:
  "\<forall>c \<in> set (sent (play (getOwnedBy j t) rs)). \<not> creates c" "\<forall>c \<in> set (sent (play (idempotency_gate e) rs)). \<not> creates c"
  by (rule wp_sent_all; auto simp: wp_simps enqueue_code split: if_splits option.splits)+

lemma failed_creation:
  assumes "play (enqueue i) rs = (tr, Threw e)" and "key_of (in_idempotencyKey i) = Some k"
    and "\<exists>ev \<in> set tr. creates (fst ev)"
  shows "\<exists>tr1 tr2 e0 r. tr = tr1 @ tr2 @ [(RCmd (Del (redisKey (in_tenant i) k)), r)] \<and>
    play (create_job i) (map snd tr2) = (tr2, Threw e0) \<and> e = (if rejected r then Failure (reason r) else e0)"
  using assms(1) unfolding enqueue_def
proof (cases rule: play_bind_threw)
  case 1
  with nothing_created(1) [of "in_webhookId i" "in_tenant i" "map snd tr"] assms(3) show ?thesis by auto
next
  case (2 tr1 tr2 wh)
  have n1: "\<not> (\<exists>ev \<in> set tr1. creates (fst ev))"
    using nothing_created(1) [of "in_webhookId i" "in_tenant i" "map snd tr1"] unfolding 2(2) by simp
  have act: "w_isActive wh"
  proof (rule ccontr)
    assume "\<not> w_isActive wh"
    with 2(3) have "tr2 = []" by simp
    with n1 2(1) assms(3) show False by simp
  qed
  from 2(3) act have "play (bind_prog (idempotency_gate i) (\<lambda>found. case found of Some existing \<Rightarrow> Ret existing
      | None \<Rightarrow> catch_prog (create_job i) (\<lambda>err. seq (case key_of (in_idempotencyKey i) of None \<Rightarrow> Ret ()
          | Some k \<Rightarrow> abort_slot (in_tenant i) k) (Throw err)))) (map snd tr2) = (tr2, Threw e)" by simp
  then show ?thesis
  proof (cases rule: play_bind_threw)
    case 1
    with nothing_created(2) [of i "map snd tr2"] n1 2(1) assms(3) show ?thesis by auto
  next
    case (2 tr3 tr4 found)
    have n3: "\<not> (\<exists>ev \<in> set tr3. creates (fst ev))"
      using nothing_created(2) [of i "map snd tr3"] unfolding 2(2) by simp
    have "found = None" using 2(3) by (cases found) auto
    with 2(3) have x: "play (catch_prog (create_job i) (\<lambda>err. seq (abort_slot (in_tenant i) k) (Throw err))) (map snd tr4) = (tr4, Threw e)"
      using assms(2) by simp
    obtain tr5 tr6 e0 where c: "tr4 = tr5 @ tr6" "play (create_job i) (map snd tr5) = (tr5, Threw e0)"
      and h: "play (seq (abort_slot (in_tenant i) k) (Throw e0 :: job js)) (map snd tr6) = (tr6, Threw e)"
      by (rule play_catch_threw [OF x]) (rule that)
    obtain r where r: "tr6 = [(RCmd (Del (redisKey (in_tenant i) k)), r)]" "e = (if rejected r then Failure (reason r) else e0)"
      using h by (cases tr6) (auto simp: abort_slot_def await_def split: resp.splits)
    show ?thesis
      using \<open>tr = tr1 @ tr2\<close> 2(1) c r by (intro exI [of _ "tr1 @ tr3"] exI [of _ tr5] exI [of _ e0] exI [of _ r]) simp
  qed
qed

text \<open>C23: A failed creation gives the slot back. Let a run of \<open>enqueue\<close> with an idempotency key throw after
  it has sent the insertion. Then it ended with the creation throwing an error \<open>e0\<close>, wherever it
  threw, and with one more command, the deletion of the slot. If the deletion is answered, the slot
  is gone from the store, so the client's retry is not told "in progress" for a day, and the
  caller gets that very error \<open>e0\<close>; if not, it gets the failure of the deletion.\<close>

theorem failed_creation_frees_slot:
  assumes "redis_server exec ent" and "run exec (enqueue i) ins w = ((tr, Threw e), w')"
    and "key_of (in_idempotencyKey i) = Some k" and "\<exists>ev \<in> set tr. creates (fst ev)"
  shows "\<exists>tr1 tr2 e0 r. tr = tr1 @ tr2 @ [(RCmd (Del (redisKey (in_tenant i) k)), r)] \<and>
    play (create_job i) (map snd tr2) = (tr2, Threw e0) \<and>
    (if rejected r then e = Failure (reason r) else e = e0 \<and> ent (redis w') (redisKey (in_tenant i) k) = None)"
proof -
  let ?k = "redisKey (in_tenant i) k"
  note p = run_is_play [OF assms(2)]
  obtain tr1 tr2 e0 r where tr: "tr = tr1 @ tr2 @ [(RCmd (Del ?k), r)]" "play (create_job i) (map snd tr2) = (tr2, Threw e0)"
    and e: "e = (if rejected r then Failure (reason r) else e0)"
    using failed_creation [OF conjunct1 [OF p] assms(3,4)] by blast
  have "ent (redis w') ?k = None" if "\<not> rejected r"
  proof -
    from conjunct2 [OF p] tr(1) obtain w1 i1 where "perform exec i1 (RCmd (Del ?k)) w1 = (r, w')"
      by (auto simp: perform_all_append)
    then have "w' = snd (serve exec i1 (RCmd (Del ?k)) w1)"
      by (cases rule: perform_cases) (use that in \<open>simp_all del: serve.simps\<close>)
    moreover have "redis_strings exec ent" using assms(1) by (simp add: redis_server_def)
    ultimately show ?thesis using redis_strings.del [of exec ent "i_time i1" ?k "redis w1"]
      unfolding serve_cmd by simp
  qed
  with tr e show ?thesis by auto
qed

theorem failed_creation_frees_slot_witness:
  "let i = sample_input ''t'' (Some ''k'');
       ((tr, out), w) = run mem_exec (enqueue i) [ok_input 9, ok_input 9, ok_input 9\<lparr>i_fault := Dropped ''timeout''\<rparr>, ok_input 9] one_webhook
   in out = Threw (Failure ''timeout'') \<and> redis w (redisKey ''t'' ''k'') = None"
proof -
  let ?i = "sample_input ''t'' (Some ''k'')"
  let ?run = "run mem_exec (enqueue ?i) [ok_input 9, ok_input 9, ok_input 9\<lparr>i_fault := Dropped ''timeout''\<rparr>, ok_input 9] one_webhook"
  have thrown: "snd (fst ?run) = Threw (Failure ''timeout'')" and c: "\<exists>ev \<in> set (fst (fst ?run)). creates (fst ev)"
    and ok: "\<not> rejected (snd (last (fst (fst ?run))))" by code_simp+
  obtain tr w' where r: "?run = ((tr, Threw (Failure ''timeout'')), w')" using thrown by (metis prod.collapse)
  have ev: "\<exists>ev \<in> set tr. creates (fst ev)" and last: "\<not> rejected (snd (last tr))" using c ok unfolding r by simp_all
  have k: "key_of (in_idempotencyKey ?i) = Some ''k''" by (simp add: sample_input_def)
  from failed_creation_frees_slot [OF mem_server r k ev] last have "redis w' (redisKey ''t'' ''k'') = None" by (auto simp: sample_input_def)
  then show ?thesis by (simp add: r)
qed

end
