(* ===== verification/History.thy ===== *)
theory History
  imports Platform
begin

text \<open>
  What Postgres remembers. Whatever runs, in whatever interleaving, with faults and crashes: rows are
  never removed and the event in a row never changes, the audit trail and the webhooks only grow,
  no row enters the state \<open>failed\<close>, and an attempt is only ever spent on a request that was sent.
\<close>

section \<open>The event of a row\<close>

definition same_event :: "job_row \<Rightarrow> job_row \<Rightarrow> bool" where
  "same_event a b \<longleftrightarrow> jr_id b = jr_id a \<and> jr_tenant b = jr_tenant a \<and> jr_webhookid b = jr_webhookid a \<and>
     jr_eventtype b = jr_eventtype a \<and> jr_payload b = jr_payload a \<and> jr_maxattempts b = jr_maxattempts a \<and>
     jr_createdat b = jr_createdat a"

text \<open>One database continues another.\<close>

definition continues :: "db \<Rightarrow> db \<Rightarrow> bool" where
  "continues d d' \<longleftrightarrow>
     (\<exists>rows new. jobs_t d' = rows @ new \<and> list_all2 same_event (jobs_t d) rows) \<and>
     (\<exists>new. attempts_t d' = attempts_t d @ new) \<and> (\<exists>new. webhooks_t d' = webhooks_t d @ new)"

lemma same_event_refl [simp]: "same_event a a"
  by (simp add: same_event_def)

lemma same_event_trans: "same_event a b \<Longrightarrow> same_event b c \<Longrightarrow> same_event a c"
  by (simp add: same_event_def)

lemma same_events_refl: "list_all2 same_event rows rows"
  by (simp add: list_all2_refl)

lemma continuesI:
  assumes "jobs_t d' = rows @ new" and "list_all2 same_event (jobs_t d) rows"
    and "attempts_t d' = attempts_t d @ as" and "webhooks_t d' = webhooks_t d @ ws"
  shows "continues d d'"
  unfolding continues_def using assms by blast

lemma continues_refl: "continues d d"
  by (rule continuesI [of _ "jobs_t d" "[]" _ "[]" "[]"]) (simp_all add: same_events_refl)

lemma continues_trans:
  assumes "continues d d1" and "continues d1 d2"
  shows "continues d d2"
proof -
  from assms obtain rows new rows1 new1 where j: "jobs_t d1 = rows @ new" "list_all2 same_event (jobs_t d) rows"
    "jobs_t d2 = rows1 @ new1" "list_all2 same_event (rows @ new) rows1" by (auto simp: continues_def)
  then obtain us vs where u: "rows1 = us @ vs" "list_all2 same_event rows us" by (auto simp: list_all2_append1)
  have "list_all2 same_event (jobs_t d) us"
    by (rule list_all2_trans [OF same_event_trans j(2) u(2)])
  moreover have "jobs_t d2 = us @ (vs @ new1)" using j(3) u(1) by simp
  moreover obtain as as1 ws ws1 where "attempts_t d1 = attempts_t d @ as" "attempts_t d2 = attempts_t d1 @ as1"
    "webhooks_t d1 = webhooks_t d @ ws" "webhooks_t d2 = webhooks_t d1 @ ws1"
    using assms unfolding continues_def by blast
  then have "attempts_t d2 = attempts_t d @ (as @ as1)" "webhooks_t d2 = webhooks_t d @ (ws @ ws1)" by simp_all
  ultimately show ?thesis using continuesI by blast
qed

lemma change_continues:
  assumes "\<And>row. same_event row (f row)"
  shows "continues d (change_job i f d)"
proof -
  have "list_all2 same_event (jobs_t d) (jobs_t (change_job i f d))"
    by (simp add: change_job_def list_all2_map2 list_all2_same assms)
  then show ?thesis by (intro continuesI [of _ "jobs_t (change_job i f d)" "[]" _ "[]" "[]"]) (simp_all add: change_job_def)
qed

lemma changes_keep_event: "same_event row (updated_row now st n err ra row)" "same_event row (reset_row now row)"
  by (simp_all add: same_event_def updated_row_def reset_row_def)

lemma statement_continues: "continues d (snd (sql_exec now uuid st d))"
proof (cases st)
  case (UpdateJob i st n err ra)
  then show ?thesis by (auto simp: sql_defs Let_def continues_refl intro!: change_continues changes_keep_event)
next
  case (ResetJob i)
  then show ?thesis by (auto simp: sql_defs Let_def intro!: change_continues changes_keep_event)
next
  case (InsertJob t w e p ra)
  then show ?thesis by (auto simp: sql_defs Let_def continues_refl same_events_refl split: option.split intro!: continuesI [of _ "jobs_t d" _ _ "[]" "[]"])
next
  case (InsertAttempt a)
  then show ?thesis by (auto simp: sql_defs continues_refl same_events_refl intro!: continuesI [of _ "jobs_t d" "[]" _ _ "[]"])
next
  case (InsertWebhook t u sec)
  then show ?thesis by (auto simp: sql_defs Let_def continues_refl same_events_refl intro!: continuesI [of _ "jobs_t d" "[]" _ "[]"])
qed (simp_all add: sql_defs Let_def continues_refl)

section \<open>Attempts and requests\<close>

text \<open>The requests sent with the id of a job, and the attempts charged to it.\<close>

fun request_for :: "jobid \<Rightarrow> event \<Rightarrow> bool" where
  "request_for j (Fetch req, r) \<longleftrightarrow> (''x-job-id'', j) \<in> set (headers req)"
| "request_for j _ \<longleftrightarrow> False"

definition requests_for :: "jobid \<Rightarrow> event list \<Rightarrow> int" where
  "requests_for j tr = int (length (filter (request_for j) tr))"

fun charge :: "jobid \<Rightarrow> event \<Rightarrow> int" where
  "charge j (Sql (UpdateJob i st n err ra), r) = (if i = j then n else 0)"
| "charge j _ = 0"

definition charged :: "jobid \<Rightarrow> event list \<Rightarrow> int" where
  "charged j tr = sum_list (map (charge j) tr)"

lemma counts [simp]:
  "requests_for j [] = 0" "requests_for j (tr @ tr') = requests_for j tr + requests_for j tr'"
  "requests_for j (ev # tr) = (if request_for j ev then 1 else 0) + requests_for j tr"
  "charged j [] = 0" "charged j (tr @ tr') = charged j tr + charged j tr'" "charged j (ev # tr) = charge j ev + charged j tr"
  by (simp_all add: requests_for_def charged_def)

text \<open>An update may charge one attempt for a request that has not been charged.\<close>

definition covered :: "event list \<Rightarrow> bool" where
  "covered tr \<longleftrightarrow> (\<forall>j. charged j tr \<le> requests_for j tr)"

fun honest_update :: "event list \<Rightarrow> eff \<Rightarrow> bool" where
  "honest_update tr (Sql (UpdateJob i st n err ra)) \<longleftrightarrow> st \<noteq> Failed \<and> (n = 0 \<or> n = 1 \<and> charged i tr < requests_for i tr)"
| "honest_update tr _ \<longleftrightarrow> True"

abbreviation charges_honestly :: "'a js \<Rightarrow> event list \<Rightarrow> bool" where
  "charges_honestly p tr \<equiv> wp p (\<lambda>tr _. covered tr) (\<lambda>tr _. covered tr) honest_update tr"

lemma covered_le:
  assumes "covered tr"
  shows "charged j tr \<le> requests_for j tr" and "charged j tr \<le> requests_for j tr + 1"
proof -
  show "charged j tr \<le> requests_for j tr" using assms by (simp add: covered_def)
  then show "charged j tr \<le> requests_for j tr + 1" by linarith
qed

lemma covered_snoc:
  assumes "covered tr" and "honest_update tr c"
  shows "covered (tr @ [(c, r)])"
proof -
  have "charged j tr + charge j (c, r) \<le> requests_for j tr + (if request_for j (c, r) then 1 else 0)" for j
    using assms covered_le(2) [OF assms(1)] by (cases "(tr, c)" rule: honest_update.cases) (auto simp: covered_def)
  then show ?thesis by (simp add: covered_def)
qed

lemma process_charges:
  assumes "covered tr"
  shows "charges_honestly (process cfg hmac jobId) tr"
  using covered_le [OF assms] by (auto simp: wp_simps process_code toJob_def delivery_request_def covered_def)

lemma consume_charges: "covered tr \<Longrightarrow> charges_honestly (consume cfg hmac n) tr"
proof (induction n arbitrary: tr)
  case (Suc n)
  have snoc: "covered (tr @ [(RCmd c, r)])" "covered (tr @ [(RCmd c, r), (DateNow, r')])"
    "covered (tr @ [(RCmd c, r), (DateNow, r'), (RCmd c', r'')])" for c r r' c' r''
    using Suc.prems by (simp_all add: covered_def)
  then show ?case using Suc
    by (auto simp: wp_simps consume_one_def reserve_def intro!: wp_mono [OF process_charges])
qed simp

lemma tick_charges: "wp (tick l) (\<lambda>tr _. True) (\<lambda>tr _. True) honest_update tr"
  by (cases l) (auto simp: wp_simps tick_code)

lemma scheduler_charges: "wp (scheduler_loop n l) (\<lambda>tr l'. True) (\<lambda>tr _. True) honest_update tr"
  by (induction n arbitrary: l tr) (auto simp: wp_simps intro!: wp_mono [OF tick_charges])

lemma replay_charges: "wp (replay_loop n replayed) (\<lambda>_ _. True) (\<lambda>_ _. True) honest_update tr"
  by (induction n arbitrary: replayed tr) (simp_all add: wp_simps replay_code)

lemma handle_charges: "wp (handle protocol_of rt rq) (\<lambda>_ _. True) (\<lambda>_ _. True) honest_update tr"
proof (cases rt)
  case Post_replay
  show ?thesis by (simp add: Post_replay post_replay_def replay_def ok_def wp_simps replay_charges)
next
  case Post_events
  show ?thesis
    by (auto simp: Post_events wp_simps post_events_def enqueue_code split: if_splits option.splits)
qed (auto simp: wp_simps handler_code service_code)

lemma program_charges: "wp (program s t) (\<lambda>_ _. True) (\<lambda>_ _. True) honest_update []"
proof (cases t)
  case (Api rt rq)
  have "wp (respond (s_protocol s) (s_validate s) rt rq) (\<lambda>_ _. True) (\<lambda>_ _. True) honest_update []"
    by (rule wp_respond) (simp_all add: handle_charges)
  with Api show ?thesis by (simp add: wp_simps)
next
  case (Scheduler n)
  have "wp (scheduler_loop n None) (\<lambda>tr l. wp (bind_prog (scheduler_shutdown l) (\<lambda>_. Ret ())) (\<lambda>_ _. True) (\<lambda>_ _. True) honest_update tr)
      (\<lambda>tr _. True) honest_update []"
    by (rule wp_mono [OF scheduler_charges]) (auto simp: wp_simps scheduler_shutdown_def release_def split: option.split)
  with Scheduler show ?thesis by (simp add: wp_bind)
next
  case (Worker n)
  have "covered []" by (simp add: covered_def)
  from consume_charges [OF this] show ?thesis unfolding Worker program.simps by (rule wp_mono) auto
qed

section \<open>Executions\<close>

definition charge_ok :: "event list \<times> unit js \<Rightarrow> bool" where
  "charge_ok x \<longleftrightarrow> wp (snd x) (\<lambda>_ _. True) (\<lambda>_ _. True) honest_update (fst x) \<and> covered (fst x)"

text \<open>What is left over of the requests of the living processes is left over of all requests.\<close>

definition slack :: "jobid \<Rightarrow> (event list \<times> unit js) list \<Rightarrow> int" where
  "slack j ps = sum_list (map (\<lambda>x. requests_for j (fst x) - charged j (fst x)) ps)"

lemma slack_simps [simp]:
  "slack j [] = 0" "slack j (x # ps) = requests_for j (fst x) - charged j (fst x) + slack j ps"
  "slack j (ps @ qs) = slack j ps + slack j qs"
  by (simp_all add: slack_def)

lemma execution_charges:
  assumes "execution exec s p0 evs p" and "procs p0 = []"
  shows "(\<forall>x \<in> set (procs p). charge_ok x) \<and> (\<forall>j. charged j evs + slack j (procs p) \<le> requests_for j evs)"
  using assms
proof (induction rule: execution.induct)
  case (start evs w ps t)
  then show ?case by (auto simp: charge_ok_def program_charges covered_def)
next
  case (act evs w ps tr c k qs i r w')
  then have x: "charge_ok (tr, Do c k)" and s: "\<And>j. charged j evs + (slack j ps + (requests_for j tr - charged j tr + slack j qs)) \<le> requests_for j evs"
    by auto
  from x have "charge_ok (tr @ [(c, r)], k r)" by (auto simp: charge_ok_def intro: covered_snoc)
  moreover have "charged j (evs @ [(c, r)]) + slack j (ps @ (tr @ [(c, r)], k r) # qs) \<le> requests_for j (evs @ [(c, r)])" for j
    using s [of j] by simp
  ultimately show ?case using act by auto
next
  case (stop evs w ps x qs)
  then have "covered (fst x)" by (simp add: charge_ok_def)
  then have "0 \<le> requests_for j (fst x) - charged j (fst x)" for j using covered_le(1) [of "fst x" j] by simp
  moreover have "charged j evs + (slack j ps + (requests_for j (fst x) - charged j (fst x) + slack j qs)) \<le> requests_for j evs" for j
    using stop by simp
  ultimately have "charged j evs + slack j (ps @ qs) \<le> requests_for j evs" for j
    by (smt (verit) slack_simps(3))
  with stop show ?case by auto
qed auto

lemma slack_nonneg: "\<forall>x \<in> set ps. charge_ok x \<Longrightarrow> 0 \<le> slack j ps"
proof (induction ps)
  case (Cons x ps)
  with covered_le(1) [of "fst x" j] show ?case by (auto simp: charge_ok_def)
qed simp

lemma perform_tables:
  assumes "perform exec i c w = (r, w')"
  shows "tables w' = tables w \<or> (\<exists>st. c = Sql st \<and> tables w' = snd (sql_exec (i_time i) (i_uuid i) st (tables w)))"
  using assms
proof (cases rule: perform_cases)
  case 1
  then show ?thesis by simp
qed (cases "\<exists>st. c = Sql st"; auto simp: tables_serve tables_serve_other simp del: serve.simps)+

lemma execution_continues:
  assumes "execution exec s p0 evs p"
  shows "continues (tables (stores p0)) (tables (stores p))"
  using assms
proof (induction rule: execution.induct)
  case (act evs w ps tr c k qs i r w')
  have "continues (tables w) (tables w')" using perform_tables [OF act(2)] statement_continues continues_refl by auto
  with act show ?case by (auto intro: continues_trans)
qed (simp_all add: continues_refl)

text \<open>Rows with a bound on what has been charged to them.\<close>

definition bounded_rows :: "(jobid \<Rightarrow> int) \<Rightarrow> db \<Rightarrow> bool" where
  "bounded_rows b d \<longleftrightarrow> (\<forall>row \<in> set (jobs_t d). jr_state row \<noteq> Failed \<and> jr_attempts row \<le> b (jr_id row))"

lemma bounded_mono: "bounded_rows b d \<Longrightarrow> \<forall>j. b j \<le> b' j \<Longrightarrow> bounded_rows b' d"
  unfolding bounded_rows_def by (meson order_trans)

lemma bounded_change:
  assumes "bounded_rows b d" and "\<forall>j. b j \<le> b' j" and "\<And>row. jr_id (f row) = jr_id row"
    and "\<And>row. row \<in> set (jobs_t d) \<Longrightarrow> jr_id row = i \<Longrightarrow> jr_state (f row) \<noteq> Failed \<and> jr_attempts (f row) \<le> b' i"
  shows "bounded_rows b' (change_job i f d)"
  using bounded_mono [OF assms(1,2)] assms(3,4) by (auto simp: bounded_rows_def set_change_job)

lemma statement_bounds:
  assumes "bounded_rows b d" and "\<forall>j. 0 \<le> b j" and "honest_update tr (Sql st)"
  shows "bounded_rows (\<lambda>j. b j + charge j (Sql st, r)) (snd (sql_exec now uuid st d))"
proof -
  have up: "bounded_rows (\<lambda>j. b j + charge j (Sql st, r)) d"
    by (rule bounded_mono [OF assms(1)]) (use assms(3) in \<open>cases st; auto\<close>)
  show ?thesis
  proof (cases st)
    case (UpdateJob i s n err ra)
    have "jr_attempts row \<le> b i" if "row \<in> set (jobs_t d)" "jr_id row = i" for row
      using that assms(1) by (auto simp: bounded_rows_def)
    then have "bounded_rows (\<lambda>j. b j + charge j (Sql st, r)) (change_job i (updated_row now s n err ra) d)"
      by (intro bounded_change [OF up]) (use assms(3) UpdateJob in simp_all)
    with up UpdateJob show ?thesis by (simp add: sql_update_job_def violates_def refuses_text_def Let_def)
  next
    case (ResetJob i)
    have "bounded_rows (\<lambda>j. b j + charge j (Sql st, r)) (change_job i (reset_row now) d)"
      by (intro bounded_change [OF up]) (use assms(2) ResetJob in simp_all)
    with ResetJob show ?thesis by (simp add: sql_reset_job_def Let_def)
  next
    case (InsertJob t w e p ra)
    with up assms(2) show ?thesis by (simp add: sql_insert_job_def violates_def refuses_text_def Let_def bounded_rows_def split: option.split)
  qed (use up in \<open>simp_all add: bounded_rows_def sql_defs Let_def\<close>)
qed

lemma execution_bounds:
  assumes "execution exec s p0 evs p" and "procs p0 = []" and "bounded_rows b (tables (stores p0))" and "\<forall>j. 0 \<le> b j"
  shows "bounded_rows (\<lambda>j. b j + charged j evs) (tables (stores p)) \<and> (\<forall>j. 0 \<le> charged j evs)"
  using assms
proof (induction rule: execution.induct)
  case (act evs w ps tr c k qs i r w')
  have x: "charge_ok (tr, Do c k)" using execution_charges [OF act(1) act.prems(1)] by simp
  then have h: "honest_update tr c" by (simp add: charge_ok_def)
  have ih: "bounded_rows (\<lambda>j. b j + charged j evs) (tables w)" "\<forall>j. 0 \<le> charged j evs" using act by simp_all
  have n: "0 \<le> charge j (c, r)" for j using h by (cases "(tr, c)" rule: honest_update.cases) auto
  have "bounded_rows (\<lambda>j. b j + charged j evs + charge j (c, r)) (tables w')"
    using perform_tables [OF act(2)]
  proof
    assume "tables w' = tables w"
    then show ?thesis using ih(1) n by (fastforce simp: bounded_rows_def intro: order_trans)
  next
    assume "\<exists>st. c = Sql st \<and> tables w' = snd (sql_exec (i_time i) (i_uuid i) st (tables w))"
    then show ?thesis using statement_bounds [OF ih(1), of tr _ r "i_time i" "i_uuid i"] ih(2) act.prems(3) h by fastforce
  qed
  then show ?case using ih(2) n by (simp add: add.assoc)
qed (auto simp: bounded_rows_def)

section \<open>Properties\<close>

text \<open>C3: History is kept. In every execution, whatever fails or dies: the rows of the jobs stay, in their
  order, and the event in them (tenant, webhook, type, payload, creation) never changes; audit rows
  and webhooks are only added; no row enters the state failed; and an attempt is charged to a job only
  for a request that was sent with its id, so that its attempts are at most those it had plus the
  requests sent for it, by however many workers.\<close>

theorem history_is_kept:
  assumes "execution exec s \<lparr>stores = w, procs = []\<rparr> evs p"
  shows "continues (tables w) (tables (stores p)) \<and>
    ((\<forall>row \<in> set (jobs_t (tables w)). jr_state row \<noteq> Failed \<and> jr_attempts row \<le> b (jr_id row)) \<and> (\<forall>j. 0 \<le> b j) \<longrightarrow>
     (\<forall>row \<in> set (jobs_t (tables (stores p))). jr_state row \<noteq> Failed \<and>
        jr_attempts row \<le> b (jr_id row) + requests_for (jr_id row) evs))"
proof -
  have c: "continues (tables w) (tables (stores p))" using execution_continues [OF assms] by simp
  have "charged j evs \<le> requests_for j evs" for j
    using execution_charges [OF assms] slack_nonneg [of "procs p" j] by (smt (verit) platform.select_convs(2))
  then have le: "b j + charged j evs \<le> b j + requests_for j evs" for j by simp
  show ?thesis using c execution_bounds [OF assms, of b] le by (fastforce simp: bounded_rows_def intro: order_trans)
qed

theorem history_is_kept_witness:
  "let w = sample_world Queued 0 (push_q ''j'' empty_queue);
       run = run mem_exec (program sample_setting (Worker 1)) (replicate 30 (ok_input 9)) w
   in continues (tables w) (tables (snd run)) \<and>
      (\<forall>row \<in> set (jobs_t (tables (snd run))). jr_attempts row \<le> requests_for (jr_id row) (fst (fst run)))"
proof -
  let ?w = "sample_world Queued 0 (push_q ''j'' empty_queue)"
  let ?run = "run mem_exec (program sample_setting (Worker 1)) (replicate 30 (ok_input 9)) ?w"
  obtain ps where "execution mem_exec sample_setting \<lparr>stores = ?w, procs = []\<rparr> (fst (fst ?run)) \<lparr>stores = snd ?run, procs = ps\<rparr>"
    using task_execution [of mem_exec sample_setting "Worker 1" _ _ "fst (fst ?run)" "snd (fst ?run)" "snd ?run"] by auto
  moreover have "\<forall>row \<in> set (jobs_t (tables ?w)). jr_state row \<noteq> Failed \<and> jr_attempts row \<le> 0"
    by (simp add: sample_world_def sample_row_def)
  ultimately show ?thesis using history_is_kept [of mem_exec sample_setting ?w _ _ "\<lambda>_. 0"] by (fastforce simp: Let_def)
qed

end
