(* ===== verification/Dto.thy ===== *)
theory Dto
  imports Http_Safety
begin

text \<open>
  The compile-time half of the request and response contracts: the interfaces of
  \<open>src/src/modules/jobs/job.dto.ts\<close> and \<open>webhooks/webhook.dto.ts\<close>, the API shapes of
  \<open>src/src/types.ts\<close>, and the type arguments with which the controllers register their handlers.
  TypeScript erases them: nothing checks at run time that a body that passed its JSON schema has
  the type the handler declares, nor that an answer has the type it promises. Here both are proved.
\<close>

section \<open>Types\<close>

text \<open>The types the contracts use. On the wire a \<open>string\<close> may be the text of a date; an interface lists
  its members, each with whether it may be missing, and allows others.\<close>

datatype ts =
    TString
  | TNumber
  | TBoolean
  | TUnknown
  | TNull
  | TLiterals "string list"
  | TOr ts ts
  | TArray ts
  | TInterface "(string \<times> bool \<times> ts) list"

fun has_type :: "ts \<Rightarrow> json \<Rightarrow> bool" where
  "has_type TString v \<longleftrightarrow> (case v of JStr s \<Rightarrow> True | JDate t \<Rightarrow> True | _ \<Rightarrow> False)"
| "has_type TNumber v \<longleftrightarrow> (case v of JNum n \<Rightarrow> True | _ \<Rightarrow> False)"
| "has_type TBoolean v \<longleftrightarrow> (case v of JBool b \<Rightarrow> True | _ \<Rightarrow> False)"
| "has_type TUnknown v \<longleftrightarrow> True"
| "has_type TNull v \<longleftrightarrow> (case v of JNull \<Rightarrow> True | _ \<Rightarrow> False)"
| "has_type (TLiterals xs) v \<longleftrightarrow> (case v of JStr s \<Rightarrow> s \<in> set xs | _ \<Rightarrow> False)"
| "has_type (TOr a b) v \<longleftrightarrow> has_type a v \<or> has_type b v"
| "has_type (TArray a) v \<longleftrightarrow> (case v of JArr vs \<Rightarrow> list_all (has_type a) vs | _ \<Rightarrow> False)"
| "has_type (TInterface ms) v \<longleftrightarrow> (case v of
     JObj fs \<Rightarrow> list_all (\<lambda>(k, optional, a). case map_of fs k of None \<Rightarrow> optional | Some x \<Rightarrow> has_type a x) ms
   | _ \<Rightarrow> False)"

text \<open>A member that is there, one that may be missing, and an interface that extends another.\<close>

definition member :: "string \<Rightarrow> ts \<Rightarrow> string \<times> bool \<times> ts" where
  "member k a = (k, False, a)"

definition optional_member :: "string \<Rightarrow> ts \<Rightarrow> string \<times> bool \<times> ts" where
  "optional_member k a = (k, True, a)"

section \<open>API shapes (types.ts)\<close>

definition JobState :: ts where
  "JobState = TLiterals [''queued'', ''in_flight'', ''succeeded'', ''failed'', ''dead'']"

definition Webhook :: "(string \<times> bool \<times> ts) list" where
  "Webhook = [member ''id'' TString, member ''tenant'' TString, member ''url'' TString,
     member ''isActive'' TBoolean, member ''createdAt'' TString]"

definition Job :: "(string \<times> bool \<times> ts) list" where
  "Job = [member ''id'' TString, member ''tenant'' TString, member ''webhookId'' TString, member ''eventType'' TString,
     member ''payload'' TUnknown, member ''state'' JobState, member ''attempts'' TNumber, member ''maxAttempts'' TNumber,
     member ''runAt'' TString, member ''lastError'' (TOr TString TNull), member ''createdAt'' TString]"

text \<open>The view of \<open>delivery.repository.ts\<close>.\<close>

definition Attempt :: "(string \<times> bool \<times> ts) list" where
  "Attempt = [member ''jobId'' TString, member ''attemptNumber'' TNumber, member ''statusCode'' (TOr TNumber TNull),
     member ''responseBody'' (TOr TString TNull), member ''error'' (TOr TString TNull), member ''durationMs'' TNumber,
     member ''attemptedAt'' TString]"

section \<open>Contracts of the job routes (job.dto.ts)\<close>

definition EnqueueEventBody :: ts where
  "EnqueueEventBody = TInterface [member ''tenant'' TString, member ''webhookId'' TString, member ''eventType'' TString,
     member ''payload'' TUnknown, optional_member ''runAt'' TString]"

definition EnqueueEventResponse :: ts where
  "EnqueueEventResponse = TInterface [member ''jobId'' TString, member ''state'' JobState]"

definition JobParams :: ts where
  "JobParams = TInterface [member ''id'' TString]"

definition ListJobsQuery :: ts where
  "ListJobsQuery = TInterface [member ''tenant'' TString, optional_member ''state'' JobState, optional_member ''limit'' TNumber]"

definition ListJobsResponse :: ts where
  "ListJobsResponse = TInterface [member ''jobs'' (TArray (TInterface Job)), member ''count'' TNumber]"

section \<open>Contracts of the webhook routes (webhook.dto.ts)\<close>

definition RegisterWebhookBody :: ts where
  "RegisterWebhookBody = TInterface [member ''tenant'' TString, member ''url'' TString]"

definition RegisterWebhookResponse :: ts where
  "RegisterWebhookResponse = TInterface (Webhook @ [member ''secret'' TString])"

definition ListWebhooksQuery :: ts where
  "ListWebhooksQuery = TInterface [member ''tenant'' TString]"

definition ListWebhooksResponse :: ts where
  "ListWebhooksResponse = TInterface [member ''webhooks'' (TArray (TInterface Webhook))]"

definition WebhookParams :: ts where
  "WebhookParams = TInterface [member ''id'' TString]"

section \<open>The types of the handlers\<close>

text \<open>\<open>app.post<{ Body: ... }>\<close> and its like: the type a handler reads the checked part of the request at.\<close>

definition limit_option :: ts where
  "limit_option = TInterface [optional_member ''limit'' TNumber]"

fun webhook_generics :: "route \<Rightarrow> ts option" where
  "webhook_generics Post_webhooks = Some RegisterWebhookBody"
| "webhook_generics Get_webhooks = Some ListWebhooksQuery"
| "webhook_generics Get_webhook = Some WebhookParams"
| "webhook_generics _ = None"

fun job_generics :: "route \<Rightarrow> ts option" where
  "job_generics Post_events = Some EnqueueEventBody"
| "job_generics Get_job = Some JobParams"
| "job_generics Get_attempts = Some JobParams"
| "job_generics Get_jobs = Some ListJobsQuery"
| "job_generics _ = None"

fun queue_generics :: "route \<Rightarrow> ts option" where
  "queue_generics Get_dlq = Some limit_option"
| "queue_generics Post_replay = Some limit_option"
| "queue_generics _ = None"

definition declared_input :: "route \<Rightarrow> ts option" where
  "declared_input rt =
     (case webhook_generics rt of Some a \<Rightarrow> Some a
      | None \<Rightarrow> (case job_generics rt of Some a \<Rightarrow> Some a | None \<Rightarrow> queue_generics rt))"

text \<open>The type of a handler's answer: where the source annotates it, the annotation; elsewhere the type of
  the value it returns.\<close>

fun declared_answer :: "route \<Rightarrow> ts" where
  "declared_answer Post_webhooks = RegisterWebhookResponse"
| "declared_answer Get_webhooks = ListWebhooksResponse"
| "declared_answer Get_webhook = TInterface Webhook"
| "declared_answer Post_events = EnqueueEventResponse"
| "declared_answer Get_job = TInterface Job"
| "declared_answer Get_attempts = TInterface [member ''attempts'' (TArray (TInterface Attempt)), member ''count'' TNumber]"
| "declared_answer Get_jobs = ListJobsResponse"
| "declared_answer Get_stats = TInterface [member ''ready'' TNumber, member ''inflight'' TNumber, member ''delayed'' TNumber, member ''dlq'' TNumber]"
| "declared_answer Get_dlq = TInterface [member ''jobs'' (TArray (TInterface Job)), member ''count'' TNumber]"
| "declared_answer Post_replay = TInterface [member ''replayed'' TNumber, member ''jobIds'' (TArray TString)]"
| "declared_answer Get_root = TInterface [member ''service'' TString, member ''status'' TString]"
| "declared_answer Get_health = TInterface [member ''status'' (TLiterals [''healthy'', ''unhealthy'']),
     member ''checks'' (TInterface [member ''redis'' TBoolean, member ''postgres'' TBoolean]), member ''uptimeSeconds'' TNumber]"

definition error_type :: ts where
  "error_type = TInterface [member ''error'' TString, member ''code'' TString]"

lemmas members = member_def optional_member_def
lemmas shapes = JobState_def Webhook_def Job_def members
lemmas contracts = EnqueueEventBody_def EnqueueEventResponse_def JobParams_def ListJobsQuery_def ListJobsResponse_def
  RegisterWebhookBody_def RegisterWebhookResponse_def ListWebhooksQuery_def ListWebhooksResponse_def WebhookParams_def
  limit_option_def shapes

section \<open>What is checked has its type\<close>

text \<open>A property that passes its part of the schema has the type that goes with it.\<close>

fun prop_type :: "pschema \<Rightarrow> ts" where
  "prop_type (PString lo hi) = TString"
| "prop_type PUuid = TString"
| "prop_type PDateTime = TString"
| "prop_type (PEnum xs) = TLiterals xs"
| "prop_type (PInteger lo hi d) = TNumber"
| "prop_type PObject = TUnknown"

lemma prop_typed: "prop_ok p v \<Longrightarrow> has_type (prop_type p) v"
  by (cases "(p, v)" rule: prop_ok.cases) auto

text \<open>A schema gives an interface when each member is one of its properties, and required unless it is
  optional.\<close>

definition schema_gives :: "schema \<Rightarrow> (string \<times> bool \<times> ts) list \<Rightarrow> bool" where
  "schema_gives s ms \<longleftrightarrow> list_all (\<lambda>(k, optional, a).
     (\<exists>p. (k, p) \<in> set (sc_props s) \<and> (a = TUnknown \<or> prop_type p = a)) \<and> (optional \<or> k \<in> set (sc_required s))) ms"

lemma conforming_typed:
  assumes "conforms s v" and "schema_gives s ms"
  shows "has_type (TInterface ms) v"
proof -
  from assms(1) obtain fs where v: "v = JObj fs" by (cases v) auto
  have "case map_of fs k of None \<Rightarrow> optional | Some x \<Rightarrow> has_type a x" if "(k, optional, a) \<in> set ms" for k optional a
  proof -
    from assms(2) that obtain p where p: "(k, p) \<in> set (sc_props s)" "a = TUnknown \<or> prop_type p = a" "optional \<or> k \<in> set (sc_required s)"
      by (fastforce simp: schema_gives_def list_all_iff)
    show ?thesis
    proof (cases "map_of fs k")
      case None
      with assms(1) v p(3) show ?thesis by (auto simp: list_all_iff)
    next
      case (Some x)
      with assms(1) v p(1) have "prop_ok p x" by (fastforce simp: list_all_iff)
      with Some p(2) prop_typed [of p x] show ?thesis by auto
    qed
  qed
  then show ?thesis by (auto simp: v list_all_iff)
qed

context validator
begin

lemma checked_typed:
  assumes "check_request validate rt rq = Inr rq'" and "declared_input rt = Some a"
  shows "has_type a (checked_part rt rq')"
proof -
  obtain s v where s: "route_schema rt = Some s" "validate s (checked_part rt rq) = Inr v" "rq' = with_part rt v rq"
    using assms by (cases rt) (auto simp: check_request_def declared_input_def split: sum.splits)
  have p: "checked_part rt rq' = v" using s(1,3) by (cases rt) auto
  have "\<exists>ms. a = TInterface ms \<and> schema_gives s ms"
    using assms(2) s(1) by (cases rt) (auto simp: declared_input_def contracts schema_gives_def schema_defs JOB_STATES_def)
  with conforming_typed [OF sound [OF s(2)]] show ?thesis by (auto simp only: p)
qed

end

section \<open>What is answered has its type\<close>

lemma states_typed: "has_type JobState (JStr (state_name st))"
  by (cases st) (simp_all add: JobState_def)

lemma rendered_typed:
  "has_type (TInterface Job) (job_json j)"
  "has_type (TInterface Webhook) (JObj (webhook_fields v))"
  "has_type RegisterWebhookResponse (JObj (webhook_fields v @ [(''secret'', JStr secret)]))"
  using states_typed [of "j_state j"]
  by (simp_all add: Job_def Webhook_def RegisterWebhookResponse_def members job_json_def webhook_fields_def del: has_type.simps(6) split: option.split)
    (cases "j_lastError j"; simp)+

lemma attempt_typed: "has_type (TInterface Attempt) (attempt_json a)"
  by (cases "a_statusCode a"; cases "a_responseBody a"; cases "a_error a") (simp_all add: Attempt_def members attempt_json_def)

lemma arrays_typed:
  "has_type (TArray (TInterface Job)) (JArr (map job_json js))"
  "has_type (TArray (TInterface Webhook)) (JArr (map (\<lambda>v. JObj (webhook_fields v)) vs))"
  "has_type (TArray (TInterface Attempt)) (JArr (map attempt_json as))"
  "has_type (TArray TString) (JArr (map JStr ids))"
  using rendered_typed(1,2) attempt_typed by (simp_all add: list_all_iff del: has_type.simps(9))

text \<open>An object with the members of an interface, in its order.\<close>

lemma object_typed:
  "has_type (TInterface ms) (JObj fs)" if "list_all (\<lambda>(k, optional, a). \<exists>x. map_of fs k = Some x \<and> has_type a x) ms"
  using that by (fastforce simp: list_all_iff split: option.splits)

lemma counted_typed:
  "has_type (TArray a) (JArr xs) \<Longrightarrow> has_type (TInterface [member k (TArray a), member ''count'' TNumber]) (counted k xs)"
  if "k \<noteq> ''count''"
  using that by (simp add: counted_def members)

lemma answers_typed:
  "wp (handle protocol_of rt rq) (\<lambda>tr res. has_type (declared_answer rt) (rs_body res)) (\<lambda>tr e. True) (\<lambda>tr c. True) tr"
proof (cases rt)
  case Post_replay
  have "wp (replay_loop n replayed) (\<lambda>tr ids. has_type (declared_answer rt)
      (JObj [(''replayed'', JNum (int (length ids))), (''jobIds'', JArr (map JStr ids))])) (\<lambda>tr e. True) (\<lambda>tr c. True) tr" for n replayed
  proof -
    have "has_type (declared_answer rt) (JObj [(''replayed'', JNum (int (length ids))), (''jobIds'', JArr (map JStr ids))])" for ids
      using arrays_typed(4) [of ids] by (simp add: Post_replay members)
    then show ?thesis by (induction n arbitrary: tr replayed) (simp_all add: wp_simps replay_code)
  qed
  from this [of _ "[]"] show ?thesis
    by (simp add: Post_replay post_replay_def replay_def ok_def wp_simps)
next
  case Get_jobs
  show ?thesis using counted_typed [OF _ arrays_typed(1), of "''jobs''"]
    by (simp add: Get_jobs ListJobsResponse_def wp_simps handler_code service_code del: has_type.simps)
next
  case Get_dlq
  show ?thesis using counted_typed [OF _ arrays_typed(1), of "''jobs''"]
    by (simp add: Get_dlq wp_simps handler_code service_code del: has_type.simps)
next
  case Get_attempts
  show ?thesis using counted_typed [OF _ arrays_typed(3), of "''attempts''"]
    by (simp add: Get_attempts wp_simps handler_code service_code del: has_type.simps)
next
  case Get_webhooks
  show ?thesis using arrays_typed(2)
    by (simp add: Get_webhooks ListWebhooksResponse_def members wp_simps handler_code service_code)
next
  case Post_events
  show ?thesis using states_typed
    by (simp add: Post_events EnqueueEventResponse_def members wp_simps handler_code service_code del: has_type.simps(6))
next
  case Post_webhooks
  show ?thesis using rendered_typed(3)
    by (simp add: Post_webhooks wp_simps handler_code service_code del: has_type.simps)
next
  case Get_webhook
  show ?thesis using rendered_typed(2)
    by (simp add: Get_webhook wp_simps handler_code service_code del: has_type.simps)
next
  case Get_job
  show ?thesis using rendered_typed(1)
    by (simp add: Get_job wp_simps handler_code service_code del: has_type.simps)
qed (auto simp: wp_simps handler_code service_code members stats_json_def)

section \<open>Properties\<close>

text \<open>C29: The contracts of the API hold at run time. With every validator that keeps its documented
  promises: the part of a request that passed the schema of its route has the TypeScript type at
  which the handler reads it, and whatever a route answers, in any run, has the type its handler
  declares, or is an error with a message and a code.\<close>

theorem contracts_hold:
  assumes "validator validate" and "play (respond protocol_of validate rt rq) rs = (tr, Done res)"
  shows "(has_type (declared_answer rt) (rs_body res) \<or> has_type error_type (rs_body res)) \<and>
    (\<forall>rq' a. check_request validate rt rq = Inr rq' \<and> declared_input rt = Some a \<longrightarrow> has_type a (checked_part rt rq'))"
proof -
  have e: "has_type error_type (rs_body (error_handler h))" for h
    by (cases h rule: error_handler.cases) (simp_all add: error_type_def members error_body_def)
  let ?Q = "\<lambda>(tr :: (eff \<times> resp) list) res. has_type (declared_answer rt) (rs_body res) \<or> has_type error_type (rs_body res)"
  have h: "wp (handle protocol_of rt rq') ?Q (\<lambda>tr e. ?Q tr (error_handler (Raised e))) (\<lambda>tr c. True) []" for rq'
    by (rule wp_mono [OF answers_typed]) (blast intro: e)+
  have "wp (respond protocol_of validate rt rq) ?Q (\<lambda>tr e. False) (\<lambda>tr c. True) []"
    by (rule wp_respond) (rule disjI2, rule e, rule disjI2, rule e, rule h)
  from wp_play [OF this assms(2)] validator.checked_typed [OF assms(1)] show ?thesis by auto
qed

theorem contracts_hold_witness:
  "has_type ListJobsResponse (counted ''jobs'' []) \<or> has_type error_type (counted ''jobs'' [])"
proof -
  let ?rq = "\<lparr>rq_params = JNull, rq_query = JObj [(''tenant'', JStr ''acme'')], rq_body = JNull, rq_key = [], rq_parse = None\<rparr>"
  let ?run = "play (respond (\<lambda>_. None) ref_validate Get_jobs ?rq) [JobRows []]"
  have "snd ?run = Done \<lparr>rs_status = 200, rs_body = counted ''jobs'' []\<rparr>" by code_simp
  then have "?run = (fst ?run, Done \<lparr>rs_status = 200, rs_body = counted ''jobs'' []\<rparr>)" by (metis prod.collapse)
  from contracts_hold [OF ref_validator this] show ?thesis by simp
qed

end
