(* ===== verification/Config.thy ===== *)
theory Config
  imports Jobs
begin

text \<open>
  The configuration, \<open>src/src/config.ts\<close>: what each process reads from its environment before it
  does anything. The environment is a map; a thrown \<open>Error\<close> is its message. \<open>Number\<close> is JavaScript's
  conversion of a string, over exact rationals (the rounding to doubles is left out).
\<close>

section \<open>Number of a string\<close>

datatype jsnum = NaN | Infinite bool | Num rat

definition js_space :: "char \<Rightarrow> bool" where
  "js_space c \<longleftrightarrow> c \<in> set [CHR 0x09, CHR 0x0A, CHR 0x0B, CHR 0x0C, CHR 0x0D, CHR 0x20, CHR 0xA0]"

definition trim :: "string \<Rightarrow> string" where
  "trim s = rev (dropWhile js_space (rev (dropWhile js_space s)))"

definition digit_value :: "char \<Rightarrow> nat" where
  "digit_value c = (let n = of_char c in if n < 58 then n - 48 else if 97 \<le> n then n - 87 else n - 55)"

definition radix_digit :: "nat \<Rightarrow> char \<Rightarrow> bool" where
  "radix_digit b c \<longleftrightarrow> c \<in> set ''0123456789abcdefABCDEF'' \<and> digit_value c < b"

definition radix_number :: "nat \<Rightarrow> string \<Rightarrow> jsnum" where
  "radix_number b s =
     (if s \<noteq> [] \<and> list_all (radix_digit b) s then Num (of_nat (foldl (\<lambda>a c. b * a + digit_value c) 0 s)) else NaN)"

text \<open>A sign, then digits; the exponent of a literal.\<close>

definition signed_digits :: "string \<Rightarrow> int option" where
  "signed_digits s =
     (let (neg, ds) = (case s of [] \<Rightarrow> (False, []) | c # cs \<Rightarrow>
            if c = CHR ''-'' then (True, cs) else if c = CHR ''+'' then (False, cs) else (False, s))
      in if ds \<noteq> [] \<and> list_all is_digit ds then Some ((if neg then - 1 else 1) * int (digits_value ds)) else None)"

definition scale :: "rat \<Rightarrow> int \<Rightarrow> rat" where
  "scale q e = (if 0 \<le> e then q * 10 ^ nat e else q / 10 ^ nat (- e))"

text \<open>An unsigned decimal literal: digits, optionally a point and digits, optionally an exponent.\<close>

definition decimal :: "string \<Rightarrow> jsnum" where
  "decimal s =
     (let whole = takeWhile is_digit s; rest = dropWhile is_digit s;
          (frac, rest') = (case rest of [] \<Rightarrow> ([], []) | c # cs \<Rightarrow>
             if c = CHR ''.'' then (takeWhile is_digit cs, dropWhile is_digit cs) else ([], rest));
          mantissa = of_nat (digits_value (whole @ frac)) / 10 ^ length frac
      in if whole = [] \<and> frac = [] then NaN
         else case rest' of
           [] \<Rightarrow> Num mantissa
         | c # cs \<Rightarrow> if c = CHR ''e'' \<or> c = CHR ''E''
             then (case signed_digits cs of None \<Rightarrow> NaN | Some e \<Rightarrow> Num (scale mantissa e)) else NaN)"

fun negate :: "jsnum \<Rightarrow> jsnum" where
  "negate NaN = NaN"
| "negate (Infinite b) = Infinite (\<not> b)"
| "negate (Num q) = Num (- q)"

definition unsigned :: "string \<Rightarrow> jsnum" where
  "unsigned s = (if s = ''Infinity'' then Infinite True else decimal s)"

definition Number :: "string \<Rightarrow> jsnum" where
  "Number raw =
     (let s = trim raw in
      if s = [] then Num 0
      else if take 2 s = ''0x'' \<or> take 2 s = ''0X'' then radix_number 16 (drop 2 s)
      else if take 2 s = ''0o'' \<or> take 2 s = ''0O'' then radix_number 8 (drop 2 s)
      else if take 2 s = ''0b'' \<or> take 2 s = ''0B'' then radix_number 2 (drop 2 s)
      else if hd s = CHR ''-'' then negate (unsigned (tl s))
      else if hd s = CHR ''+'' then unsigned (tl s)
      else unsigned s)"

fun as_integer :: "jsnum \<Rightarrow> int option" where
  "as_integer (Num q) = (if of_int \<lfloor>q\<rfloor> = q then Some \<lfloor>q\<rfloor> else None)"
| "as_integer _ = None"

section \<open>The readers\<close>

type_synonym environment = "string \<Rightarrow> string option"

definition required :: "environment \<Rightarrow> string \<Rightarrow> string + string" where
  "required env k =
     (case env k of
        None \<Rightarrow> Inl (''Missing required environment variable: '' @ k)
      | Some v \<Rightarrow> if v = [] then Inl (''Missing required environment variable: '' @ k) else Inr v)"

definition parse_int :: "string \<Rightarrow> string \<Rightarrow> string + int" where
  "parse_int k raw =
     (case as_integer (Number raw) of
        None \<Rightarrow> Inl (''Environment variable '' @ k @ '' must be an integer, got: '' @ raw)
      | Some n \<Rightarrow> Inr n)"

text \<open>The first error ends the reading.\<close>

fun sum_bind :: "'e + 'a \<Rightarrow> ('a \<Rightarrow> 'e + 'b) \<Rightarrow> 'e + 'b" where
  "sum_bind (Inl e) f = Inl e"
| "sum_bind (Inr a) f = f a"

definition requiredInt :: "environment \<Rightarrow> string \<Rightarrow> string + int" where
  "requiredInt env k = sum_bind (required env k) (parse_int k)"

definition optionalInt :: "environment \<Rightarrow> string \<Rightarrow> int \<Rightarrow> string + int" where
  "optionalInt env k fallback =
     (case env k of None \<Rightarrow> Inr fallback | Some raw \<Rightarrow> if raw = [] then Inr fallback else parse_int k raw)"

record app_config =
  c_env :: string
  c_api_port :: int
  c_redis_host :: string
  c_redis_port :: int
  c_pg_host :: string
  c_pg_port :: int
  c_pg_user :: string
  c_pg_password :: string
  c_pg_database :: string
  c_limits :: config

definition load_config :: "environment \<Rightarrow> string + app_config" where
  "load_config env =
     sum_bind (requiredInt env ''API_PORT'') (\<lambda>port.
     sum_bind (required env ''REDIS_HOST'') (\<lambda>rhost.
     sum_bind (requiredInt env ''REDIS_PORT'') (\<lambda>rport.
     sum_bind (required env ''PGHOST'') (\<lambda>host.
     sum_bind (requiredInt env ''PGPORT'') (\<lambda>pport.
     sum_bind (required env ''PGUSER'') (\<lambda>user.
     sum_bind (required env ''PGPASSWORD'') (\<lambda>password.
     sum_bind (required env ''PGDATABASE'') (\<lambda>database.
     sum_bind (optionalInt env ''RATE_LIMIT_PER_SECOND'' 10) (\<lambda>rate.
     sum_bind (optionalInt env ''RATE_LIMIT_BURST'' 20) (\<lambda>brst.
     sum_bind (optionalInt env ''CIRCUIT_FAILURE_THRESHOLD'' 5) (\<lambda>threshold.
     sum_bind (optionalInt env ''CIRCUIT_COOLDOWN_MS'' 30000) (\<lambda>cooldown.
     Inr \<lparr>c_env = the_default ''development'' (env ''NODE_ENV''), c_api_port = port, c_redis_host = rhost,
          c_redis_port = rport, c_pg_host = host, c_pg_port = pport, c_pg_user = user, c_pg_password = password,
          c_pg_database = database,
          c_limits = \<lparr>perSecond = rate, burst = brst, failureThreshold = threshold, cooldownMs = cooldown\<rparr>\<rparr>))))))))))))"

section \<open>Reading a rendered integer\<close>

lemma digit_not_special:
  "is_digit c \<Longrightarrow> \<not> js_space c \<and> c \<notin> {CHR ''-'', CHR ''+'', CHR ''x'', CHR ''X'', CHR ''o'', CHR ''O'', CHR ''b'', CHR ''B'', CHR ''I''}"
  by (auto simp: is_digit_def js_space_def)

lemma dropWhile_id: "xs \<noteq> [] \<Longrightarrow> \<not> P (hd xs) \<Longrightarrow> dropWhile P xs = xs"
  by (cases xs) auto

lemma trim_id: "s \<noteq> [] \<Longrightarrow> \<not> js_space (hd s) \<Longrightarrow> \<not> js_space (last s) \<Longrightarrow> trim s = s"
  by (simp add: trim_def dropWhile_id hd_rev)

lemma trim_blank: "list_all js_space s \<Longrightarrow> trim s = []"
proof -
  assume "list_all js_space s"
  then have "dropWhile js_space s = []" by (simp add: list_all_iff)
  then show ?thesis unfolding trim_def by (simp only: rev.simps dropWhile.simps)
qed

lemma trim_surround:
  assumes "list_all js_space pre" and "list_all js_space post"
  shows "trim (pre @ s @ post) = trim s"
proof (cases "list_all js_space s")
  case True
  with assms show ?thesis by (simp add: trim_blank)
next
  case False
  have l: "dropWhile js_space (xs @ ys) = dropWhile js_space ys" if "list_all js_space xs" for xs ys
    using that by (induction xs) auto
  have "dropWhile js_space (s @ post) = dropWhile js_space s @ post"
    using False by (metis dropWhile_append1 list_all_iff)
  moreover have "dropWhile js_space (rev post @ ys) = dropWhile js_space ys" for ys
    using l [of "rev post" ys] assms(2) by (simp add: list_all_iff)
  ultimately show ?thesis by (simp add: trim_def l [OF assms(1)])
qed

lemma decimal_digits: "s \<noteq> [] \<Longrightarrow> list_all is_digit s \<Longrightarrow> decimal s = Num (of_nat (digits_value s))"
proof -
  assume s: "s \<noteq> []" "list_all is_digit s"
  then have "takeWhile is_digit s = s" "dropWhile is_digit s = []"
    by (simp_all add: takeWhile_eq_all_conv list_all_iff)
  then show ?thesis using s(1) unfolding decimal_def Let_def by (simp del: dropWhile_eq_Nil_conv takeWhile_eq_all_conv)
qed

lemma unsigned_digits: "s \<noteq> [] \<Longrightarrow> list_all is_digit s \<Longrightarrow> unsigned s = Num (of_nat (digits_value s))"
  using digit_not_special [of "CHR ''I''"] by (auto simp: unsigned_def decimal_digits)

lemma Number_show_nat: "Number (show_nat n) = Num (of_nat n)"
proof -
  let ?s = "show_nat n"
  have d: "list_all is_digit ?s" "?s \<noteq> []" by (simp_all add: show_nat_is_digits)
  have c: "is_digit c" if "c \<in> set ?s" for c using d that by (auto simp: list_all_iff)
  have t: "trim ?s = ?s" using d digit_not_special c by (intro trim_id) auto
  have two: "take 2 ?s \<noteq> [x, y]" if "\<not> is_digit y" for x y
    using c that by (metis in_set_takeD list.set_intros(1) list.set_intros(2))
  have no: "\<not> is_digit (CHR ''x'')" "\<not> is_digit (CHR ''X'')" "\<not> is_digit (CHR ''o'')" "\<not> is_digit (CHR ''O'')"
    "\<not> is_digit (CHR ''b'')" "\<not> is_digit (CHR ''B'')" by code_simp+
  have h: "hd ?s \<noteq> CHR ''-''" "hd ?s \<noteq> CHR ''+''" using digit_not_special c d by auto
  from unsigned_digits [OF d(2,1)] have "unsigned ?s = Num (of_nat n)" by (simp add: show_nat_value)
  with t h d(2) two [OF no(1)] two [OF no(2)] two [OF no(3)] two [OF no(4)] two [OF no(5)] two [OF no(6)]
  show ?thesis by (simp add: Number_def Let_def)
qed

lemma Number_show_int: "Number (show_int i) = Num (of_int i)"
proof (cases "i < 0")
  case True
  let ?s = "show_nat (nat (- i))"
  have d: "list_all is_digit ?s" "?s \<noteq> []" by (simp_all add: show_nat_is_digits)
  have "trim (CHR ''-'' # ?s) = CHR ''-'' # ?s"
    using d digit_not_special [of "last ?s"] by (intro trim_id) (auto simp: js_space_def list_all_iff)
  moreover have "negate (unsigned ?s) = Num (of_int i)"
    using True unsigned_digits [OF d(2,1)] by (simp add: show_nat_value of_nat_nat)
  ultimately show ?thesis using True by (simp add: show_int_def Number_def Let_def take_Cons')
next
  case False
  then show ?thesis by (simp add: show_int_def Number_show_nat of_nat_nat)
qed

section \<open>Properties\<close>

text \<open>An integer written into the environment is the integer read. For every integer, a variable set to
  its decimal text, with any JavaScript white space around it, is read back as that integer, by
  the required reader and by the optional one.\<close>

theorem integers_round_trip:
  assumes "list_all js_space pre" and "list_all js_space post"
  shows "requiredInt [k \<mapsto> pre @ show_int i @ post] k = Inr i \<and> optionalInt [k \<mapsto> pre @ show_int i @ post] k d = Inr i"
proof -
  have "trim (pre @ show_int i @ post) = trim (show_int i)"
    using assms by (simp add: trim_surround)
  then have "Number (pre @ show_int i @ post) = Number (show_int i)" by (simp add: Number_def)
  then have "parse_int k (pre @ show_int i @ post) = Inr i" by (simp add: parse_int_def Number_show_int)
  moreover have "show_int i \<noteq> []" by (simp add: show_int_def)
  ultimately show ?thesis by (simp add: requiredInt_def required_def optionalInt_def)
qed

theorem integers_round_trip_witness:
  "requiredInt [''API_PORT'' \<mapsto> '' '' @ show_int 3000 @ []] ''API_PORT'' = Inr 3000"
  using integers_round_trip [of "'' ''" "[]" "''API_PORT''" 3000] by (simp add: js_space_def)

text \<open>The variables, in the order in which they are read.\<close>

definition required_keys :: "string list" where
  "required_keys = [''API_PORT'', ''REDIS_HOST'', ''REDIS_PORT'', ''PGHOST'', ''PGPORT'', ''PGUSER'', ''PGPASSWORD'', ''PGDATABASE'']"

definition integer_keys :: "string list" where
  "integer_keys = [''API_PORT'', ''REDIS_PORT'', ''PGPORT'', ''RATE_LIMIT_PER_SECOND'', ''RATE_LIMIT_BURST'',
     ''CIRCUIT_FAILURE_THRESHOLD'', ''CIRCUIT_COOLDOWN_MS'']"

definition unset :: "environment \<Rightarrow> string \<Rightarrow> bool" where
  "unset env k \<longleftrightarrow> env k = None \<or> env k = Some []"

definition readable :: "environment \<Rightarrow> string \<Rightarrow> bool" where
  "readable env k \<longleftrightarrow> (\<forall>raw. env k = Some raw \<and> raw \<noteq> [] \<longrightarrow> as_integer (Number raw) \<noteq> None)"

lemma reader_ok:
  "(\<exists>v. required env k = Inr v) \<longleftrightarrow> \<not> unset env k"
  "(\<exists>v. requiredInt env k = Inr v) \<longleftrightarrow> \<not> unset env k \<and> readable env k"
  "(\<exists>v. optionalInt env k d = Inr v) \<longleftrightarrow> readable env k"
  by (auto simp: required_def requiredInt_def optionalInt_def parse_int_def unset_def readable_def split: option.splits)

lemma sum_bind_InrE: "sum_bind x f = Inr b \<Longrightarrow> (\<And>a. x = Inr a \<Longrightarrow> f a = Inr b \<Longrightarrow> R) \<Longrightarrow> R"
  by (cases x) auto

text \<open>The value that the readers give.\<close>

definition denotes :: "environment \<Rightarrow> string \<Rightarrow> int \<Rightarrow> bool" where
  "denotes env k n \<longleftrightarrow> (\<exists>raw. env k = Some raw \<and> as_integer (Number raw) = Some n)"

definition knob :: "environment \<Rightarrow> string \<Rightarrow> int \<Rightarrow> int \<Rightarrow> bool" where
  "knob env k fallback n \<longleftrightarrow> (if unset env k then n = fallback else denotes env k n)"

lemma reader_values:
  "required env k = Inr v \<Longrightarrow> env k = Some v" "requiredInt env k = Inr n \<Longrightarrow> denotes env k n"
  "optionalInt env k d = Inr n \<Longrightarrow> knob env k d n"
  by (auto simp: required_def requiredInt_def optionalInt_def parse_int_def unset_def denotes_def knob_def
      split: option.splits if_splits)

lemma loaded_values:
  assumes "load_config env = Inr c"
  shows "knob env ''RATE_LIMIT_PER_SECOND'' 10 (perSecond (c_limits c)) \<and> knob env ''RATE_LIMIT_BURST'' 20 (burst (c_limits c)) \<and>
      knob env ''CIRCUIT_FAILURE_THRESHOLD'' 5 (failureThreshold (c_limits c)) \<and>
      knob env ''CIRCUIT_COOLDOWN_MS'' 30000 (cooldownMs (c_limits c)) \<and>
      denotes env ''API_PORT'' (c_api_port c) \<and> denotes env ''REDIS_PORT'' (c_redis_port c) \<and> denotes env ''PGPORT'' (c_pg_port c) \<and>
      env ''REDIS_HOST'' = Some (c_redis_host c) \<and> env ''PGHOST'' = Some (c_pg_host c) \<and> env ''PGUSER'' = Some (c_pg_user c) \<and>
      env ''PGPASSWORD'' = Some (c_pg_password c) \<and> env ''PGDATABASE'' = Some (c_pg_database c) \<and>
      c_env c = the_default ''development'' (env ''NODE_ENV'')"
  using assms unfolding load_config_def by (elim sum_bind_InrE) (auto simp: reader_values)

lemma sum_bind_ok: "(\<exists>b. sum_bind x f = Inr b) \<longleftrightarrow> (\<exists>a. x = Inr a \<and> (\<exists>b. f a = Inr b))"
  by (cases x) auto

text \<open>C38: A process starts exactly when its environment is complete. Loading the configuration succeeds if
  and only if each of the eight required variables is set and not empty, and each of the seven
  integer variables that is set and not empty denotes an integer. Then every field has the value of
  its own variable: the hosts and names as they are set, the ports the integers their variables
  denote, and each of the four tuning knobs, whatever the other three are, the integer its variable
  denotes or, if that is missing or empty, its default: 10 deliveries a second, bursts of 20, 5
  failures, 30 seconds.\<close>

theorem config_loads_iff_complete:
  "((\<exists>c. load_config env = Inr c) \<longleftrightarrow>
      (\<forall>k \<in> set required_keys. \<not> unset env k) \<and> (\<forall>k \<in> set integer_keys. readable env k)) \<and>
   (\<forall>c. load_config env = Inr c \<longrightarrow>
      knob env ''RATE_LIMIT_PER_SECOND'' 10 (perSecond (c_limits c)) \<and> knob env ''RATE_LIMIT_BURST'' 20 (burst (c_limits c)) \<and>
      knob env ''CIRCUIT_FAILURE_THRESHOLD'' 5 (failureThreshold (c_limits c)) \<and>
      knob env ''CIRCUIT_COOLDOWN_MS'' 30000 (cooldownMs (c_limits c)) \<and>
      denotes env ''API_PORT'' (c_api_port c) \<and> denotes env ''REDIS_PORT'' (c_redis_port c) \<and> denotes env ''PGPORT'' (c_pg_port c) \<and>
      env ''REDIS_HOST'' = Some (c_redis_host c) \<and> env ''PGHOST'' = Some (c_pg_host c) \<and> env ''PGUSER'' = Some (c_pg_user c) \<and>
      env ''PGPASSWORD'' = Some (c_pg_password c) \<and> env ''PGDATABASE'' = Some (c_pg_database c) \<and>
      c_env c = the_default ''development'' (env ''NODE_ENV''))"
proof -
  have "(\<exists>c. load_config env = Inr c) \<longleftrightarrow>
      (\<exists>v. requiredInt env ''API_PORT'' = Inr v) \<and> (\<exists>v. required env ''REDIS_HOST'' = Inr v) \<and>
      (\<exists>v. requiredInt env ''REDIS_PORT'' = Inr v) \<and> (\<exists>v. required env ''PGHOST'' = Inr v) \<and>
      (\<exists>v. requiredInt env ''PGPORT'' = Inr v) \<and> (\<exists>v. required env ''PGUSER'' = Inr v) \<and>
      (\<exists>v. required env ''PGPASSWORD'' = Inr v) \<and> (\<exists>v. required env ''PGDATABASE'' = Inr v) \<and>
      (\<exists>v. optionalInt env ''RATE_LIMIT_PER_SECOND'' 10 = Inr v) \<and> (\<exists>v. optionalInt env ''RATE_LIMIT_BURST'' 20 = Inr v) \<and>
      (\<exists>v. optionalInt env ''CIRCUIT_FAILURE_THRESHOLD'' 5 = Inr v) \<and> (\<exists>v. optionalInt env ''CIRCUIT_COOLDOWN_MS'' 30000 = Inr v)"
    unfolding load_config_def sum_bind_ok by blast
  then have "(\<exists>c. load_config env = Inr c) \<longleftrightarrow>
      (\<forall>k \<in> set required_keys. \<not> unset env k) \<and> (\<forall>k \<in> set integer_keys. readable env k)"
    unfolding reader_ok required_keys_def integer_keys_def by auto
  then show ?thesis using loaded_values by blast
qed

text \<open>A complete environment.\<close>

definition sample_env :: environment where
  "sample_env = map_of [(''API_PORT'', ''80''), (''REDIS_HOST'', ''localhost''), (''REDIS_PORT'', ''79''), (''PGHOST'', ''localhost''),
     (''PGPORT'', ''5''), (''PGUSER'', ''u''), (''PGPASSWORD'', ''p''), (''PGDATABASE'', ''d''), (''RATE_LIMIT_BURST'', ''1e1'')]"

theorem config_loads_iff_complete_witness:
  "\<exists>c. load_config sample_env = Inr c \<and> c_api_port c = 80 \<and>
    c_limits c = \<lparr>perSecond = 10, burst = 10, failureThreshold = 5, cooldownMs = 30000\<rparr>"
proof -
  have "\<forall>k \<in> set required_keys. \<not> unset sample_env k" by code_simp
  moreover have "list_all (\<lambda>k. case sample_env k of None \<Rightarrow> True | Some raw \<Rightarrow> as_integer (Number raw) \<noteq> None) integer_keys" by code_simp
  then have "\<forall>k \<in> set integer_keys. readable sample_env k" by (auto simp: list_all_iff readable_def)
  ultimately obtain c where c: "load_config sample_env = Inr c" using config_loads_iff_complete [of sample_env] by blast
  have u: "unset sample_env ''RATE_LIMIT_PER_SECOND''" "unset sample_env ''CIRCUIT_FAILURE_THRESHOLD''"
    "unset sample_env ''CIRCUIT_COOLDOWN_MS''" "\<not> unset sample_env ''RATE_LIMIT_BURST''" by code_simp+
  have v: "sample_env ''RATE_LIMIT_BURST'' = Some ''1e1''" "sample_env ''API_PORT'' = Some ''80''"
    "as_integer (Number ''1e1'') = Some 10" "as_integer (Number ''80'') = Some 80" by code_simp+
  from config_loads_iff_complete [of sample_env] c
  have "knob sample_env ''RATE_LIMIT_PER_SECOND'' 10 (perSecond (c_limits c))" "knob sample_env ''RATE_LIMIT_BURST'' 20 (burst (c_limits c))"
    "knob sample_env ''CIRCUIT_FAILURE_THRESHOLD'' 5 (failureThreshold (c_limits c))"
    "knob sample_env ''CIRCUIT_COOLDOWN_MS'' 30000 (cooldownMs (c_limits c))" "denotes sample_env ''API_PORT'' (c_api_port c)"
    by blast+
  then have "perSecond (c_limits c) = 10" "burst (c_limits c) = 10" "failureThreshold (c_limits c) = 5" "cooldownMs (c_limits c) = 30000"
    "c_api_port c = 80"
    by (simp_all add: knob_def denotes_def u v)
  with c show ?thesis by (intro exI [of _ c]) simp
qed

text \<open>A blank port is port zero. A required integer variable that holds only white space is not
  reported as missing or malformed: it is read as 0.\<close>

theorem blank_integer_is_zero:
  assumes "raw \<noteq> []" and "list_all js_space raw"
  shows "requiredInt [k \<mapsto> raw] k = Inr 0"
proof -
  have "trim raw = []" using assms(2) by (rule trim_blank)
  with assms(1) show ?thesis by (simp add: requiredInt_def required_def parse_int_def Number_def)
qed

theorem blank_integer_is_zero_witness: "requiredInt [''API_PORT'' \<mapsto> '' ''] ''API_PORT'' = Inr 0"
  by (rule blank_integer_is_zero) (simp_all add: js_space_def)

end
