(* ===== verification/Migrate.thy ===== *)
theory Migrate
  imports Prog "HOL-Library.Sublist"
begin

text \<open>
  The migration runner, \<open>src/src/migrate.ts\<close>. The directory is a list of file names with their
  texts; what the SQL of a migration does to the schema is a parameter \<open>run_sql\<close> (an error message
  or the new schema). The database has a committed state and, between \<open>BEGIN\<close> and \<open>COMMIT\<close>, the
  state inside the open transaction; when the connection or the process dies the transaction is
  gone. Every command may be lost, or its reply, and the process may die after any command.
\<close>

section \<open>Commands\<close>

datatype mig_cmd =
    CreateBookkeeping
  | ReadDir
  | SelectNames
  | ReadFile string
  | Connect
  | Begin_tx
  | RunSql string
  | InsertName string
  | Commit_tx
  | Rollback_tx
  | Release_client
  | ClosePool

datatype mig_reply = Names "string list" | Content string | Completed | Failed_with string

type_synonym 'a mig = "(mig_cmd, mig_reply, 'a) prog"

definition mig_await :: "mig_cmd \<Rightarrow> (mig_reply \<Rightarrow> 'a mig) \<Rightarrow> 'a mig" where
  "mig_await c k = Do c (\<lambda>r. case r of Failed_with m \<Rightarrow> Throw (Failure m) | _ \<Rightarrow> k r)"

abbreviation mig_do :: "mig_cmd \<Rightarrow> unit mig" where
  "mig_do c \<equiv> mig_await c (\<lambda>_. Ret ())"

fun reply_names :: "mig_reply \<Rightarrow> string list" where
  "reply_names (Names xs) = xs"
| "reply_names _ = []"

fun reply_text :: "mig_reply \<Rightarrow> string" where
  "reply_text (Content s) = s"
| "reply_text _ = []"

section \<open>The runner\<close>

definition sql_file :: "string \<Rightarrow> bool" where
  "sql_file f \<longleftrightarrow> suffix ''.sql'' f"

text \<open>The files that still have to run, in the order of their names.\<close>

definition pending :: "string list \<Rightarrow> string list \<Rightarrow> string list" where
  "pending filesOnDisk alreadyApplied =
     filter (\<lambda>file. file \<notin> set alreadyApplied) (sort (filter sql_file filesOnDisk))"

text \<open>\<open>try { p } finally { q }\<close>: \<open>q\<close> runs either way, then the error goes on.\<close>

definition finally_do :: "unit mig \<Rightarrow> unit mig \<Rightarrow> unit mig" where
  "finally_do p q =
     bind_prog (catch_prog (bind_prog p (\<lambda>_. Ret None)) (\<lambda>e. Ret (Some e))) (\<lambda>err.
     bind_prog q (\<lambda>_. case err of None \<Rightarrow> Ret () | Some e \<Rightarrow> Throw e))"

definition apply_file :: "string \<Rightarrow> unit mig" where
  "apply_file file =
     mig_await (ReadFile file) (\<lambda>r.
     mig_await Connect (\<lambda>_.
     finally_do
       (catch_prog
          (mig_await Begin_tx (\<lambda>_.
           mig_await (RunSql (reply_text r)) (\<lambda>_.
           mig_await (InsertName file) (\<lambda>_.
           mig_do Commit_tx))))
          (\<lambda>err. bind_prog (mig_do Rollback_tx) (\<lambda>_. Throw err)))
       (mig_do Release_client)))"

primrec apply_files :: "string list \<Rightarrow> unit mig" where
  "apply_files [] = Ret ()"
| "apply_files (file # files) = bind_prog (apply_file file) (\<lambda>_. apply_files files)"

definition migrate :: "unit mig" where
  "migrate =
     mig_await CreateBookkeeping (\<lambda>_.
     mig_await ReadDir (\<lambda>filesOnDisk.
     mig_await SelectNames (\<lambda>result.
     apply_files (pending (reply_names filesOnDisk) (reply_names result)))))"

text \<open>The entry point: the exit status of the process.\<close>

definition migrate_main :: "nat mig" where
  "migrate_main =
     catch_prog
       (bind_prog migrate (\<lambda>_. mig_await ClosePool (\<lambda>_. Ret 0)))
       (\<lambda>err. mig_await ClosePool (\<lambda>_. Ret 1))"

section \<open>The database and the directory\<close>

record 'd pg =
  committed :: "string list \<times> 'd"
  tx :: "(string list \<times> 'd) option"

fun pg_serve :: "(string \<Rightarrow> 'd \<Rightarrow> string + 'd) \<Rightarrow> (string \<times> string) list \<Rightarrow> mig_cmd \<Rightarrow> 'd pg \<Rightarrow> mig_reply \<times> 'd pg" where
  "pg_serve run_sql disk ReadDir s = (Names (map fst disk), s)"
| "pg_serve run_sql disk SelectNames s = (Names (fst (committed s)), s)"
| "pg_serve run_sql disk (ReadFile f) s =
     (case map_of disk f of None \<Rightarrow> (Failed_with ''ENOENT'', s) | Some t \<Rightarrow> (Content t, s))"
| "pg_serve run_sql disk Begin_tx s = (Completed, s\<lparr>tx := Some (committed s)\<rparr>)"
| "pg_serve run_sql disk (RunSql t) s =
     (case tx s of None \<Rightarrow> (Failed_with ''no transaction'', s)
      | Some (ns, d) \<Rightarrow> (case run_sql t d of Inl m \<Rightarrow> (Failed_with m, s) | Inr d' \<Rightarrow> (Completed, s\<lparr>tx := Some (ns, d')\<rparr>)))"
| "pg_serve run_sql disk (InsertName f) s =
     (case tx s of None \<Rightarrow> (Failed_with ''no transaction'', s)
      | Some (ns, d) \<Rightarrow>
          if f \<in> set ns then (Failed_with ''violates constraint schema_migrations_pkey'', s)
          else (Completed, s\<lparr>tx := Some (ns @ [f], d)\<rparr>))"
| "pg_serve run_sql disk Commit_tx s =
     (case tx s of None \<Rightarrow> (Completed, s) | Some st \<Rightarrow> (Completed, s\<lparr>committed := st, tx := None\<rparr>))"
| "pg_serve run_sql disk Rollback_tx s = (Completed, s\<lparr>tx := None\<rparr>)"
| "pg_serve run_sql disk _ s = (Completed, s)"

fun pg_perform :: "(string \<Rightarrow> 'd \<Rightarrow> string + 'd) \<Rightarrow> (string \<times> string) list \<Rightarrow> fault \<Rightarrow> mig_cmd \<Rightarrow> 'd pg \<Rightarrow> mig_reply \<times> 'd pg" where
  "pg_perform run_sql disk NoFault c s = pg_serve run_sql disk c s"
| "pg_perform run_sql disk (Dropped m) c s = (Failed_with m, s)"
| "pg_perform run_sql disk (ReplyLost m) c s = (Failed_with m, snd (pg_serve run_sql disk c s))"

text \<open>A run: its result (none if the process died), the faults it did not use up, and the database.\<close>

primrec pg_run :: "(string \<Rightarrow> 'd \<Rightarrow> string + 'd) \<Rightarrow> (string \<times> string) list \<Rightarrow> 'a mig \<Rightarrow> fault list \<Rightarrow> 'd pg \<Rightarrow>
    (err + 'a) option \<times> fault list \<times> 'd pg" where
  "pg_run run_sql disk (Ret a) = (\<lambda>fs s. (Some (Inr a), fs, s))"
| "pg_run run_sql disk (Throw e) = (\<lambda>fs s. (Some (Inl e), fs, s))"
| "pg_run run_sql disk (Do c k) = (\<lambda>fs s. case fs of
       [] \<Rightarrow> (None, [], s)
     | f # fs' \<Rightarrow> (case pg_perform run_sql disk f c s of (r, s') \<Rightarrow> pg_run run_sql disk (k r) fs' s'))"

lemma pg_run_bind:
  "pg_run run_sql disk (bind_prog p g) fs s =
     (case pg_run run_sql disk p fs s of
        (Some (Inr a), fs', s') \<Rightarrow> pg_run run_sql disk (g a) fs' s'
      | (Some (Inl e), fs', s') \<Rightarrow> (Some (Inl e), fs', s')
      | (None, fs', s') \<Rightarrow> (None, fs', s'))"
  by (induction p arbitrary: fs s) (auto split: list.split prod.split)

lemma pg_run_catch:
  "pg_run run_sql disk (catch_prog p g) fs s =
     (case pg_run run_sql disk p fs s of
        (Some (Inl e), fs', s') \<Rightarrow> pg_run run_sql disk (g e) fs' s'
      | (Some (Inr a), fs', s') \<Rightarrow> (Some (Inr a), fs', s')
      | (None, fs', s') \<Rightarrow> (None, fs', s'))"
  by (induction p arbitrary: fs s) (auto split: list.split prod.split)

lemma pg_run_await:
  "pg_run run_sql disk (mig_await c k) fs s =
     (case fs of [] \<Rightarrow> (None, [], s)
      | f # fs' \<Rightarrow> (case pg_perform run_sql disk f c s of
           (Failed_with m, s') \<Rightarrow> (Some (Inl (Failure m)), fs', s')
         | (r, s') \<Rightarrow> pg_run run_sql disk (k r) fs' s'))"
  by (auto simp: mig_await_def split: list.split prod.split mig_reply.split)

section \<open>Migrating, abstractly\<close>

text \<open>Running files in order, each with its record, as one step each.\<close>

fun migrated :: "(string \<Rightarrow> 'd \<Rightarrow> string + 'd) \<Rightarrow> (string \<times> string) list \<Rightarrow> string list \<Rightarrow> string list \<times> 'd \<Rightarrow> (string list \<times> 'd) option" where
  "migrated run_sql disk [] st = Some st"
| "migrated run_sql disk (f # fs) (ns, d) =
     (case map_of disk f of None \<Rightarrow> None | Some t \<Rightarrow>
        (case run_sql t d of Inl m \<Rightarrow> None | Inr d' \<Rightarrow> migrated run_sql disk fs (ns @ [f], d')))"

lemma migrated_names: "migrated run_sql disk fs st = Some st' \<Longrightarrow> fst st' = fst st @ fs"
  by (induction fs arbitrary: st) (auto split: option.splits sum.splits)

lemma migrated_append:
  "migrated run_sql disk (fs @ gs) st = (case migrated run_sql disk fs st of None \<Rightarrow> None | Some st' \<Rightarrow> migrated run_sql disk gs st')"
  by (induction fs arbitrary: st) (auto split: option.splits sum.splits)

section \<open>One file\<close>

lemma pg_awaitE:
  assumes "pg_run run_sql disk (mig_await c k) fs s = (res, fs', s')"
  obtains (died) "res = None" and "s' = s"
  | (failed) m where "res = Some (Inl (Failure m))" and "s' = s \<or> s' = snd (pg_serve run_sql disk c s)"
  | (served) r s1 fs1 where "pg_serve run_sql disk c s = (r, s1)" and "\<forall>m. r \<noteq> Failed_with m"
      and "pg_run run_sql disk (k r) fs1 s1 = (res, fs', s')"
proof (cases fs)
  case Nil
  with assms died show ?thesis by (simp add: pg_run_await)
next
  case (Cons f fs1)
  obtain r s1 where p: "pg_perform run_sql disk f c s = (r, s1)" by (metis prod.exhaust)
  show ?thesis
  proof (cases "\<exists>m. r = Failed_with m")
    case True
    then obtain m where m: "r = Failed_with m" by blast
    have "s1 = s \<or> s1 = snd (pg_serve run_sql disk c s)" using p by (cases f) auto
    moreover from assms Cons p m have "res = Some (Inl (Failure m))" "s' = s1" by (simp_all add: pg_run_await)
    ultimately show ?thesis using failed by blast
  next
    case False
    then have "pg_serve run_sql disk c s = (r, s1)" using p by (cases f) auto
    moreover have "pg_run run_sql disk (k r) fs1 s1 = (res, fs', s')"
      using assms Cons p False by (cases r) (auto simp: pg_run_await)
    ultimately show ?thesis using served False by blast
  qed
qed

lemma serve_committed: "c \<noteq> Commit_tx \<Longrightarrow> committed (snd (pg_serve run_sql disk c s)) = committed s"
  by (cases c) (auto split: option.split sum.split)

text \<open>The transaction: all of the file or nothing.\<close>

lemma transaction_run:
  assumes "pg_run run_sql disk (mig_await Begin_tx (\<lambda>_. mig_await (RunSql t) (\<lambda>_. mig_await (InsertName f) (\<lambda>_. mig_do Commit_tx)))) fs s
      = (res, fs', s')" and "committed s = (ns, d)"
  shows "(res \<noteq> Some (Inr ()) \<and> committed s' = (ns, d)) \<or>
    ((res = Some (Inr ()) \<longrightarrow> tx s' = None) \<and> (\<exists>d'. run_sql t d = Inr d' \<and> committed s' = (ns @ [f], d')))"
  using assms(1)
proof (cases rule: pg_awaitE)
  case (served r1 s1 fs1)
  then have s1: "committed s1 = (ns, d)" "tx s1 = Some (ns, d)" using assms(2) by auto
  from served(3) show ?thesis
  proof (cases rule: pg_awaitE)
    case (served r2 s2 fs2)
    then obtain d' where d': "run_sql t d = Inr d'" "committed s2 = (ns, d)" "tx s2 = Some (ns, d')"
      using s1 by (auto split: sum.splits)
    from served(3) show ?thesis
    proof (cases rule: pg_awaitE)
      case (served r3 s3 fs3)
      then have s3: "committed s3 = (ns, d)" "tx s3 = Some (ns @ [f], d')" using d' by (auto split: if_splits)
      from served(3) show ?thesis
      proof (cases rule: pg_awaitE)
        case (failed m)
        with s3 d'(1) show ?thesis by auto
      next
        case (served r4 s4 fs4)
        with s3 d'(1) show ?thesis by auto
      qed (use s3 in simp)
    next
      case (failed m)
      with d'(2) serve_committed [of "InsertName f" run_sql disk s2] show ?thesis by auto
    qed (use d'(2) in simp)
  next
    case (failed m)
    with s1(1) serve_committed [of "RunSql t" run_sql disk s1] show ?thesis by auto
  qed (use s1(1) in simp)
next
  case (failed m)
  with assms(2) serve_committed [of Begin_tx run_sql disk s] show ?thesis by auto
qed (use assms(2) in simp)

text \<open>A command that is not a commit, whatever becomes of it.\<close>

lemma side_command:
  assumes "pg_run run_sql disk (mig_do c) fs s = (res, fs', s')" and "c \<noteq> Commit_tx"
  shows "committed s' = committed s" and "c = Release_client \<Longrightarrow> tx s' = tx s"
proof -
  from assms(1) show "committed s' = committed s"
    by (cases rule: pg_awaitE) (use serve_committed [OF assms(2), of run_sql disk s] in \<open>auto simp: prod_eq_iff\<close>)
  from assms(1) show "c = Release_client \<Longrightarrow> tx s' = tx s" by (cases rule: pg_awaitE) auto
qed

lemma guarded_run:
  assumes "pg_run run_sql disk (catch_prog (mig_await Begin_tx (\<lambda>_. mig_await (RunSql t) (\<lambda>_. mig_await (InsertName f) (\<lambda>_. mig_do Commit_tx))))
      (\<lambda>err. bind_prog (mig_do Rollback_tx) (\<lambda>_. Throw err))) fs s = (res, fs', s')" and "committed s = (ns, d)"
  shows "(res \<noteq> Some (Inr ()) \<and> committed s' = (ns, d)) \<or>
    ((res = Some (Inr ()) \<longrightarrow> tx s' = None) \<and> (\<exists>d'. run_sql t d = Inr d' \<and> committed s' = (ns @ [f], d')))"
proof -
  let ?t = "mig_await Begin_tx (\<lambda>_. mig_await (RunSql t) (\<lambda>_. mig_await (InsertName f) (\<lambda>_. mig_do Commit_tx)))"
  obtain res1 fs1 s1 where t: "pg_run run_sql disk ?t fs s = (res1, fs1, s1)" by (metis prod.exhaust)
  note tr = transaction_run [OF t assms(2)]
  show ?thesis
  proof (cases "\<exists>e. res1 = Some (Inl e)")
    case True
    then obtain e where e: "res1 = Some (Inl e)" by blast
    obtain res2 fs2 s2 where r: "pg_run run_sql disk (mig_do Rollback_tx) fs1 s1 = (res2, fs2, s2)" by (metis prod.exhaust)
    from assms(1) t e r have "s' = s2" "res \<noteq> Some (Inr ())"
      by (auto simp: pg_run_catch pg_run_bind split: option.splits sum.splits)
    with side_command(1) [OF r] tr e show ?thesis by auto
  next
    case False
    with assms(1) t have "s' = s1" "res = res1"
      by (auto simp: pg_run_catch split: option.splits sum.splits)
    with tr show ?thesis by simp
  qed
qed

lemma finally_run:
  assumes "pg_run run_sql disk (finally_do p (mig_do Release_client)) fs s = (res, fs', s')"
  obtains res1 fs1 s1 where "pg_run run_sql disk p fs s = (res1, fs1, s1)" and "committed s' = committed s1"
    and "res = Some (Inr ()) \<longrightarrow> res1 = Some (Inr ())"
proof -
  obtain res1 fs1 s1 where p: "pg_run run_sql disk p fs s = (res1, fs1, s1)" by (metis prod.exhaust)
  obtain res2 fs2 s2 where r: "pg_run run_sql disk (mig_do Release_client) fs1 s1 = (res2, fs2, s2)" by (metis prod.exhaust)
  from side_command(1) [OF r] have c: "committed s2 = committed s1" by simp
  have "(s' = s1 \<or> s' = s2) \<and> (res = Some (Inr ()) \<longrightarrow> res1 = Some (Inr ()))"
    using assms p r by (auto simp: finally_do_def pg_run_bind pg_run_catch split: option.splits sum.splits)
  with that [OF p] c show ?thesis by auto
qed

lemma apply_file_run:
  assumes "pg_run run_sql disk (apply_file f) fs s = (res, fs', s')" and "committed s = (ns, d)"
  shows "(res \<noteq> Some (Inr ()) \<and> committed s' = (ns, d)) \<or> migrated run_sql disk [f] (ns, d) = Some (committed s')"
  using assms(1) unfolding apply_file_def
proof (cases rule: pg_awaitE)
  case (failed m)
  with assms(2) serve_committed [of "ReadFile f" run_sql disk s] show ?thesis by auto
next
  case (served r1 s1 fs1)
  then obtain t where t: "map_of disk f = Some t" "reply_text r1 = t" "s1 = s" by (auto split: option.splits)
  from served(3) show ?thesis
  proof (cases rule: pg_awaitE)
    case (failed m)
    with assms(2) t serve_committed [of Connect run_sql disk s] show ?thesis by auto
  next
    case (served r2 s2 fs2)
    from served(1) t(3) have s2: "committed s2 = (ns, d)" using assms(2) by simp
    from served(3) show ?thesis
      by (rule finally_run) (use guarded_run [OF _ s2] t(1,2) in fastforce)
  qed (use assms(2) t in simp)
qed (use assms(2) in simp)

lemma apply_files_run:
  assumes "pg_run run_sql disk (apply_files files) fs s = (res, fs', s')" and "committed s = (ns, d)"
  shows "\<exists>k \<le> length files. migrated run_sql disk (take k files) (ns, d) = Some (committed s') \<and>
    (res = Some (Inr ()) \<longrightarrow> k = length files)"
  using assms
proof (induction files arbitrary: fs s ns d)
  case (Cons f files)
  obtain res1 fs1 s1 where f: "pg_run run_sql disk (apply_file f) fs s = (res1, fs1, s1)" by (metis prod.exhaust)
  show ?case
  proof (cases "res1 = Some (Inr ())")
    case True
    with apply_file_run [OF f Cons.prems(2)] have m: "migrated run_sql disk [f] (ns, d) = Some (committed s1)" by simp
    from Cons.prems(1) f True have r: "pg_run run_sql disk (apply_files files) fs1 s1 = (res, fs', s')"
      by (simp add: pg_run_bind)
    obtain ns1 d1 where c1: "committed s1 = (ns1, d1)" by (metis prod.exhaust)
    from Cons.IH [OF r c1] obtain k where k: "k \<le> length files" "migrated run_sql disk (take k files) (ns1, d1) = Some (committed s')"
      "res = Some (Inr ()) \<longrightarrow> k = length files" by blast
    have "migrated run_sql disk (take (Suc k) (f # files)) (ns, d) = Some (committed s')"
      using m k(2) c1 migrated_append [of run_sql disk "[f]" "take k files" "(ns, d)"] by (simp del: migrated.simps)
    with k(1,3) show ?thesis by (intro exI [of _ "Suc k"]) simp
  next
    case False
    with Cons.prems(1) f have s: "s' = s1" "res \<noteq> Some (Inr ())"
      by (auto simp: pg_run_bind split: option.splits sum.splits)
    from apply_file_run [OF f Cons.prems(2)] s(1) consider "committed s' = (ns, d)" | "migrated run_sql disk [f] (ns, d) = Some (committed s')" by blast
    then show ?thesis
    proof cases
      case 1
      with s(2) show ?thesis by (intro exI [of _ 0]) simp
    next
      case 2
      with s(2) show ?thesis by (intro exI [of _ "Suc 0"]) simp
    qed
  qed
qed simp

lemma migrate_run:
  assumes "pg_run run_sql disk migrate fs s = (res, fs', s')" and "committed s = (ns, d)"
  shows "\<exists>k \<le> length (pending (map fst disk) ns).
    migrated run_sql disk (take k (pending (map fst disk) ns)) (ns, d) = Some (committed s') \<and>
    (res = Some (Inr ()) \<longrightarrow> k = length (pending (map fst disk) ns))"
  using assms(1) unfolding migrate_def
proof (cases rule: pg_awaitE)
  case (served r1 s1 fs1)
  then have s1: "s1 = s" by simp
  from served(3) show ?thesis
  proof (cases rule: pg_awaitE)
    case (served r2 s2 fs2)
    then have s2: "s2 = s" "reply_names r2 = map fst disk" using s1 by auto
    from served(3) show ?thesis
    proof (cases rule: pg_awaitE)
      case (served r3 s3 fs3)
      then have s3: "s3 = s" "reply_names r3 = ns" using s2 assms(2) by auto
      from apply_files_run [of run_sql disk "pending (map fst disk) ns" fs3 s res fs' s' ns d] served(3) s2(2) s3 assms(2)
      show ?thesis by simp
    next
      case (failed m)
      with s2 assms(2) show ?thesis by (intro exI [of _ 0]) auto
    qed (use s2 assms(2) in \<open>auto intro!: exI [of _ 0]\<close>)
  next
    case (failed m)
    with s1 assms(2) show ?thesis by (intro exI [of _ 0]) auto
  qed (use s1 assms(2) in \<open>auto intro!: exI [of _ 0]\<close>)
next
  case (failed m)
  with assms(2) show ?thesis by (intro exI [of _ 0]) auto
qed (use assms(2) in \<open>auto intro!: exI [of _ 0]\<close>)

lemma main_run:
  assumes "pg_run run_sql disk migrate_main fs s = (res, fs', s')"
  obtains res1 fs1 s1 where "pg_run run_sql disk migrate fs s = (res1, fs1, s1)" and "committed s' = committed s1"
    and "res = Some (Inr 0) \<longrightarrow> res1 = Some (Inr ())"
proof -
  have close: "committed s2 = committed s1 \<and> (\<forall>m. res2 = Some (Inr m) \<longrightarrow> m = n)"
    if "pg_run run_sql disk (mig_await ClosePool (\<lambda>_. Ret n)) fs1 s1 = (res2, fs2, s2)" for n :: nat and fs1 s1 res2 fs2 s2
    using that by (cases rule: pg_awaitE) (auto simp del: pg_run.simps(3))
  obtain res1 fs1 s1 where m: "pg_run run_sql disk migrate fs s = (res1, fs1, s1)" by (metis prod.exhaust)
  obtain ra fa sa where a: "pg_run run_sql disk (mig_await ClosePool (\<lambda>_. Ret (0 :: nat))) fs1 s1 = (ra, fa, sa)" by (metis prod.exhaust)
  obtain rb fb sb where b: "pg_run run_sql disk (mig_await ClosePool (\<lambda>_. Ret (1 :: nat))) fs1 s1 = (rb, fb, sb)" by (metis prod.exhaust)
  obtain rc fc sc where c: "pg_run run_sql disk (mig_await ClosePool (\<lambda>_. Ret (1 :: nat))) fa sa = (rc, fc, sc)" by (metis prod.exhaust)
  note cl = close [OF a] close [OF b] close [OF c]
  have "committed s' = committed s1 \<and> (res = Some (Inr 0) \<longrightarrow> res1 = Some (Inr ()))"
    using assms m a b c cl
    by (auto simp: migrate_main_def pg_run_catch pg_run_bind split: option.splits sum.splits)
  with that [OF m] show ?thesis by blast
qed

section \<open>The pending files\<close>

lemma pending_props:
  "set (pending files ns) = {f \<in> set files. sql_file f \<and> f \<notin> set ns}" "sorted (pending files ns)"
  "distinct files \<Longrightarrow> distinct (pending files ns)"
  by (auto simp: pending_def sorted_filter [where f = "\<lambda>x. x", simplified])

lemma pending_after:
  assumes "distinct files"
  shows "pending files (ns @ take k (pending files ns)) = drop k (pending files ns)"
proof -
  let ?p = "pending files ns"
  have "pending files (ns @ take k ?p) = filter (\<lambda>f. f \<notin> set (take k ?p)) ?p"
    by (simp add: pending_def conj_commute)
  also have "\<dots> = filter (\<lambda>f. f \<notin> set (take k ?p)) (take k ?p) @ filter (\<lambda>f. f \<notin> set (take k ?p)) (drop k ?p)"
    by (metis append_take_drop_id filter_append)
  also have "filter (\<lambda>f. f \<notin> set (take k ?p)) (take k ?p) = []" by (simp add: filter_empty_conv)
  also have "filter (\<lambda>f. f \<notin> set (take k ?p)) (drop k ?p) = drop k ?p"
    using set_take_disj_set_drop_if_distinct [OF pending_props(3) [OF assms], of k k ns] by (auto simp: filter_id_conv)
  finally show ?thesis by simp
qed

section \<open>Properties\<close>

text \<open>C36: Migrations run in order, each wholly or not at all. Whatever faults a run of the migration
  process meets and wherever it dies, the committed database is what the first \<open>k\<close> pending files
  make of it, run one after the other by increasing name, with exactly their names recorded; the
  pending files are the .sql files of the directory that are not recorded yet. The process exits
  with 0 only when all of them have run.\<close>

theorem migrations_in_order:
  assumes "pg_run run_sql disk migrate_main faults s = (res, faults', s')" and "committed s = (ns, d)"
    and "p = pending (map fst disk) ns"
  shows "(\<exists>k \<le> length p. migrated run_sql disk (take k p) (ns, d) = Some (committed s') \<and>
      fst (committed s') = ns @ take k p \<and> (res = Some (Inr 0) \<longrightarrow> k = length p)) \<and>
    sorted p \<and> set p = {f \<in> fst ` set disk. sql_file f \<and> f \<notin> set ns}"
proof -
  obtain res1 fs1 s1 where m: "pg_run run_sql disk migrate faults s = (res1, fs1, s1)" "committed s' = committed s1"
    "res = Some (Inr 0) \<longrightarrow> res1 = Some (Inr ())" by (rule main_run [OF assms(1)])
  from migrate_run [OF m(1) assms(2)] m(2) obtain k where k: "k \<le> length p"
    "migrated run_sql disk (take k p) (ns, d) = Some (committed s')" "res1 = Some (Inr ()) \<longrightarrow> k = length p"
    unfolding assms(3) by auto
  have "fst (committed s') = ns @ take k p" using migrated_names [OF k(2)] by simp
  with k m(3) have "\<exists>k \<le> length p. migrated run_sql disk (take k p) (ns, d) = Some (committed s') \<and>
      fst (committed s') = ns @ take k p \<and> (res = Some (Inr 0) \<longrightarrow> k = length p)" by blast
  moreover have "sorted p" "set p = {f \<in> fst ` set disk. sql_file f \<and> f \<notin> set ns}"
    unfolding assms(3) by (rule pending_props(2), simp add: pending_props(1))
  ultimately show ?thesis by blast
qed

text \<open>A directory of two migrations out of order and a note; running a text appends it, and the text
  \<open>bad\<close> fails.\<close>

definition sample_disk :: "(string \<times> string) list" where
  "sample_disk = [(''002.sql'', ''B''), (''README'', ''x''), (''001.sql'', ''A'')]"

definition sample_sql :: "string \<Rightarrow> string \<Rightarrow> string + string" where
  "sample_sql t d = (if t = ''bad'' then Inl ''syntax error'' else Inr (d @ t))"

theorem migrations_in_order_witness:
  "fst (committed (snd (snd (pg_run sample_sql sample_disk migrate_main (replicate 20 NoFault) \<lparr>committed = ([], []), tx = None\<rparr>)))) =
     [''001.sql'', ''002.sql'']"
proof -
  let ?run = "pg_run sample_sql sample_disk migrate_main (replicate 20 NoFault) \<lparr>committed = ([], []), tx = None\<rparr>"
  have p: "pending (map fst sample_disk) [] = [''001.sql'', ''002.sql'']" by code_simp
  have "fst ?run = Some (Inr 0)" by code_simp
  then have r: "?run = (Some (Inr 0), fst (snd ?run), snd (snd ?run))" by (metis prod.collapse)
  from conjunct1 [OF migrations_in_order [OF r _ refl, of "[]" "[]"]]
  show ?thesis unfolding p by auto
qed

text \<open>C37: A migration that was cut short can be run again. Let a run end anywhere, by a fault or a crash,
  and a second run on the same directory exit with 0: the database is the one that a single
  undisturbed run makes of the original one, and nothing is pending any more, so running it again
  changes nothing.\<close>

theorem interrupted_migration_resumes:
  assumes "distinct (map fst disk)"
    and "pg_run run_sql disk migrate_main faults s = (res, faults', s1)"
    and "pg_run run_sql disk migrate_main faults2 s1 = (Some (Inr 0), faults2', s2)"
  shows "migrated run_sql disk (pending (map fst disk) (fst (committed s))) (committed s) = Some (committed s2) \<and>
    pending (map fst disk) (fst (committed s2)) = []"
proof -
  obtain ns d where c: "committed s = (ns, d)" by (metis prod.exhaust)
  let ?p = "pending (map fst disk) ns"
  obtain r1 f1 t1 where m1: "pg_run run_sql disk migrate faults s = (r1, f1, t1)" "committed s1 = committed t1"
    by (rule main_run [OF assms(2)])
  from migrate_run [OF m1(1) c] m1(2) obtain k where k: "k \<le> length ?p"
    "migrated run_sql disk (take k ?p) (ns, d) = Some (committed s1)" by auto
  obtain ns1 d1 where c1: "committed s1 = (ns1, d1)" by (metis prod.exhaust)
  have n1: "ns1 = ns @ take k ?p" using migrated_names [OF k(2)] c1 by simp
  then have p1: "pending (map fst disk) ns1 = drop k ?p" using pending_after [OF assms(1)] by simp
  obtain r2 f2 t2 where m2: "pg_run run_sql disk migrate faults2 s1 = (r2, f2, t2)" "committed s2 = committed t2" "r2 = Some (Inr ())"
    by (rule main_run [OF assms(3)]) simp
  from migrate_run [OF m2(1) c1] m2(2,3) p1 have r: "migrated run_sql disk (drop k ?p) (ns1, d1) = Some (committed s2)" by auto
  have whole: "migrated run_sql disk ?p (ns, d) = Some (committed s2)"
    using migrated_append [of run_sql disk "take k ?p" "drop k ?p" "(ns, d)"] k(2) c1 r by simp
  have "fst (committed s2) = ns @ take (length ?p) ?p" using migrated_names [OF whole] by simp
  then have "pending (map fst disk) (fst (committed s2)) = []" using pending_after [OF assms(1), of ns "length ?p"] by simp
  with whole c show ?thesis by simp
qed

theorem interrupted_migration_resumes_witness:
  "committed (snd (snd (pg_run sample_sql sample_disk migrate_main (replicate 20 NoFault)
     (snd (snd (pg_run sample_sql sample_disk migrate_main (replicate 15 NoFault) \<lparr>committed = ([], []), tx = None\<rparr>)))))) =
   ([''001.sql'', ''002.sql''], ''AB'')"
proof -
  let ?s = "\<lparr>committed = ([], []), tx = None\<rparr> :: string pg"
  let ?run1 = "pg_run sample_sql sample_disk migrate_main (replicate 15 NoFault) ?s"
  let ?run2 = "pg_run sample_sql sample_disk migrate_main (replicate 20 NoFault) (snd (snd ?run1))"
  have d: "distinct (map fst sample_disk)" by code_simp
  have "fst ?run2 = Some (Inr 0)" by code_simp
  then have r2: "?run2 = (Some (Inr 0), fst (snd ?run2), snd (snd ?run2))" by (metis prod.collapse)
  have r1: "?run1 = (fst ?run1, fst (snd ?run1), snd (snd ?run1))" by simp
  have "migrated sample_sql sample_disk (pending (map fst sample_disk) (fst (committed ?s))) (committed ?s) = Some ([''001.sql'', ''002.sql''], ''AB'')"
    by code_simp
  with interrupted_migration_resumes [OF d r1 r2] show ?thesis by simp
qed

end
