(* ===== verification/Api_Client.thy ===== *)
theory Api_Client
  imports Http
begin

text \<open>
  The dashboard's client of the API, \<open>src/web/src/api.ts\<close>, the proxy between them
  (\<open>src/web/vite.config.ts\<close>) and the paths the controllers register. The types of the two packages
  are kept in step by hand; this theory proves that they are: what the client sends passes the
  server's schemas, and what the server answers reads back as the client's types. A query is its
  decoded keys and texts (\<open>URLSearchParams\<close> on one side, Fastify's parser on the other).
\<close>

section \<open>Paths\<close>

datatype http_method = GET | POST

datatype segment = Lit string | Param string

text \<open>The routes that the controllers and \<open>api.ts\<close> register.\<close>

type_synonym registration = "http_method \<times> segment list \<times> route"

definition webhook_routes :: "registration list" where
  "webhook_routes =
     [(POST, [Lit ''webhooks''], Post_webhooks),
      (GET, [Lit ''webhooks''], Get_webhooks),
      (GET, [Lit ''webhooks'', Param ''id''], Get_webhook)]"

definition job_routes :: "registration list" where
  "job_routes =
     [(POST, [Lit ''events''], Post_events),
      (GET, [Lit ''jobs'', Param ''id''], Get_job),
      (GET, [Lit ''jobs'', Param ''id'', Lit ''attempts''], Get_attempts),
      (GET, [Lit ''jobs''], Get_jobs)]"

definition queue_routes :: "registration list" where
  "queue_routes =
     [(GET, [Lit ''queue'', Lit ''stats''], Get_stats),
      (GET, [Lit ''queue'', Lit ''dlq''], Get_dlq),
      (POST, [Lit ''queue'', Lit ''dlq'', Lit ''replay''], Post_replay)]"

definition ROUTES :: "registration list" where
  "ROUTES = [(GET, [Lit []], Get_root), (GET, [Lit ''health''], Get_health)] @ webhook_routes @ job_routes @ queue_routes"

fun path_match :: "segment list \<Rightarrow> string list \<Rightarrow> (string \<times> json) list option" where
  "path_match [] [] = Some []"
| "path_match (Lit l # ss) (p # ps) = (if p = l then path_match ss ps else None)"
| "path_match (Param x # ss) (p # ps) = (if p = [] then None else map_option (Cons (x, JStr p)) (path_match ss ps))"
| "path_match _ _ = None"

text \<open>The segments of a path, after its first slash.\<close>

fun split_path :: "string \<Rightarrow> string list" where
  "split_path [] = [[]]"
| "split_path (c # cs) =
     (if c = CHR ''/'' then [] # split_path cs
      else case split_path cs of [] \<Rightarrow> [[c]] | p # ps \<Rightarrow> (c # p) # ps)"

fun find_route :: "registration list \<Rightarrow> http_method \<Rightarrow> string list \<Rightarrow>
    (route \<times> (string \<times> json) list) option" where
  "find_route [] m ps = None"
| "find_route ((m', ss, rt) # rest) m ps =
     (case (if m' = m then path_match ss ps else None) of
        None \<Rightarrow> find_route rest m ps
      | Some params \<Rightarrow> Some (rt, params))"

section \<open>Calls\<close>

record call =
  c_method :: http_method
  c_path :: string
  c_query :: "(string \<times> string) list"
  c_body :: "json option"

definition get_call :: "string \<Rightarrow> (string \<times> string) list \<Rightarrow> call" where
  "get_call path q = \<lparr>c_method = GET, c_path = ''/api'' @ path, c_query = q, c_body = None\<rparr>"

definition post_call :: "string \<Rightarrow> json \<Rightarrow> call" where
  "post_call path b = \<lparr>c_method = POST, c_path = ''/api'' @ path, c_query = [], c_body = Some b\<rparr>"

text \<open>The members of \<open>api\<close>.\<close>

definition api_stats :: call where
  "api_stats = get_call ''/queue/stats'' []"

definition api_listJobs :: "string \<Rightarrow> job_state option \<Rightarrow> int option \<Rightarrow> call" where
  "api_listJobs tenant state limit = get_call ''/jobs''
     ([(''tenant'', tenant)] @
      (case state of None \<Rightarrow> [] | Some st \<Rightarrow> [(''state'', state_name st)]) @
      (case limit of None \<Rightarrow> [] | Some n \<Rightarrow> if n = 0 then [] else [(''limit'', show_int n)]))"

definition api_getJob :: "string \<Rightarrow> call" where
  "api_getJob i = get_call (''/jobs/'' @ i) []"

definition api_getAttempts :: "string \<Rightarrow> call" where
  "api_getAttempts i = get_call (''/jobs/'' @ i @ ''/attempts'') []"

definition api_listDlq :: "int \<Rightarrow> call" where
  "api_listDlq limit = get_call ''/queue/dlq'' [(''limit'', show_int limit)]"

definition api_replayDlq :: "int \<Rightarrow> call" where
  "api_replayDlq limit = post_call ''/queue/dlq/replay'' (JObj [(''limit'', JNum limit)])"

definition api_listWebhooks :: "string \<Rightarrow> call" where
  "api_listWebhooks tenant = get_call ''/webhooks'' [(''tenant'', tenant)]"

definition api_enqueueEvent :: "string \<Rightarrow> string \<Rightarrow> string \<Rightarrow> string \<Rightarrow> call" where
  "api_enqueueEvent tenant webhookId eventType payload = post_call ''/events''
     (JObj [(''tenant'', JStr tenant), (''webhookId'', JStr webhookId), (''eventType'', JStr eventType),
       (''payload'', JRaw payload)])"

text \<open>The proxy strips the prefix, \<open>path.replace(/^\/api/, '')\<close>; the router finds the route.\<close>

definition rewrite :: "string \<Rightarrow> string" where
  "rewrite path = (if take 4 path = ''/api'' then drop 4 path else path)"

definition arrives :: "call \<Rightarrow> (route \<times> request) option" where
  "arrives c =
     (case find_route ROUTES (c_method c) (split_path (drop 1 (rewrite (c_path c)))) of
        None \<Rightarrow> None
      | Some (rt, params) \<Rightarrow> Some (rt, \<lparr>rq_params = JObj params,
          rq_query = JObj (map (\<lambda>(k, v). (k, JStr v)) (c_query c)),
          rq_body = (case c_body c of None \<Rightarrow> JNull | Some b \<Rightarrow> b), rq_key = [], rq_parse = None\<rparr>))"

section \<open>Answers\<close>

text \<open>What \<open>fetch\<close> gives: it rejects, or it answers with a status and a body, absent when it is not
  JSON. \<open>api_request\<close> (\<open>request\<close> of the source) is what the promise rejects with, or the value it resolves to.\<close>

datatype answer = No_answer string | Answer nat "json option"

definition api_request :: "answer \<Rightarrow> string + json" where
  "api_request a =
     (case a of
        No_answer m \<Rightarrow> Inl m
      | Answer status b \<Rightarrow>
          if \<not> (200 \<le> status \<and> status \<le> 299) then
            Inl (case b of
                   None \<Rightarrow> ''HTTP '' @ show_nat status
                 | Some v \<Rightarrow> (case text_of (field ''error'' v) of
                      None \<Rightarrow> ''HTTP '' @ show_nat status
                    | Some m \<Rightarrow> if m = [] then ''HTTP '' @ show_nat status else m))
          else (case b of None \<Rightarrow> Inl ''Unexpected token'' | Some v \<Rightarrow> Inr v))"

text \<open>The interfaces of \<open>api.ts\<close>, as readings of the value; the dashboard's \<open>Job\<close>, \<open>Attempt\<close>,
  \<open>QueueStats\<close> and \<open>Webhook\<close> have the fields of the server's. A value of another shape has no
  reading (the source would go on with \<open>undefined\<close>).\<close>

fun bool_of :: "json option \<Rightarrow> bool option" where
  "bool_of (Some (JBool b)) = Some b"
| "bool_of _ = None"

fun arr_of :: "json option \<Rightarrow> json list option" where
  "arr_of (Some (JArr xs)) = Some xs"
| "arr_of _ = None"

fun nullable :: "(json option \<Rightarrow> 'a option) \<Rightarrow> json option \<Rightarrow> 'a option option" where
  "nullable f (Some JNull) = Some None"
| "nullable f v = map_option Some (f v)"

fun all_some :: "'a option list \<Rightarrow> 'a list option" where
  "all_some [] = Some []"
| "all_some (None # xs) = None"
| "all_some (Some a # xs) = map_option (Cons a) (all_some xs)"

definition read_job :: "json \<Rightarrow> job option" where
  "read_job v =
     (case (text_of (field ''id'' v), text_of (field ''tenant'' v), text_of (field ''webhookId'' v),
            text_of (field ''eventType'' v), raw_of (field ''payload'' v), text_of (field ''state'' v),
            num_of (field ''attempts'' v), num_of (field ''maxAttempts'' v), date_of (field ''runAt'' v),
            nullable text_of (field ''lastError'' v), date_of (field ''createdAt'' v)) of
        (Some i, Some tn, Some w, Some e, Some p, Some st, Some a, Some m, Some r, Some l, Some c) \<Rightarrow>
          (case state_of st of
             None \<Rightarrow> None
           | Some s \<Rightarrow> Some \<lparr>j_id = i, j_tenant = tn, j_webhookId = w, j_eventType = e, j_payload = p, j_state = s,
               j_attempts = a, j_maxAttempts = m, j_runAt = r, j_lastError = l, j_createdAt = c\<rparr>)
      | _ \<Rightarrow> None)"

definition read_attempt :: "json \<Rightarrow> attempt_view option" where
  "read_attempt v =
     (case (text_of (field ''jobId'' v), num_of (field ''attemptNumber'' v), nullable num_of (field ''statusCode'' v),
            nullable text_of (field ''responseBody'' v), nullable text_of (field ''error'' v),
            num_of (field ''durationMs'' v), date_of (field ''attemptedAt'' v)) of
        (Some j, Some n, Some s, Some b, Some e, Some d, Some t) \<Rightarrow>
          Some \<lparr>a_jobId = j, a_attemptNumber = n, a_statusCode = s, a_responseBody = b, a_error = e,
            a_durationMs = d, a_attemptedAt = t\<rparr>
      | _ \<Rightarrow> None)"

definition read_stats :: "json \<Rightarrow> queue_stats option" where
  "read_stats v =
     (case (num_of (field ''ready'' v), num_of (field ''inflight'' v), num_of (field ''delayed'' v), num_of (field ''dlq'' v)) of
        (Some r, Some i, Some d, Some q) \<Rightarrow> Some \<lparr>st_ready = r, st_inflight = i, st_delayed = d, st_dlq = q\<rparr>
      | _ \<Rightarrow> None)"

definition read_webhook :: "json \<Rightarrow> webhook option" where
  "read_webhook v =
     (case (text_of (field ''id'' v), text_of (field ''tenant'' v), text_of (field ''url'' v), bool_of (field ''isActive'' v),
            date_of (field ''createdAt'' v)) of
        (Some i, Some tn, Some u, Some a, Some c) \<Rightarrow>
          Some \<lparr>w_id = i, w_tenant = tn, w_url = u, w_isActive = a, w_createdAt = c\<rparr>
      | _ \<Rightarrow> None)"

definition read_list :: "string \<Rightarrow> (json \<Rightarrow> 'a option) \<Rightarrow> json \<Rightarrow> 'a list option" where
  "read_list k f v = Option.bind (arr_of (field k v)) (\<lambda>xs. all_some (map f xs))"

definition read_replayed :: "json \<Rightarrow> (int \<times> string list) option" where
  "read_replayed v =
     (case (num_of (field ''replayed'' v), read_list ''jobIds'' (\<lambda>x. text_of (Some x)) v) of
        (Some n, Some ids) \<Rightarrow> Some (n, ids)
      | _ \<Rightarrow> None)"

section \<open>Paths find their routes\<close>

lemma split_path_lit: "CHR ''/'' \<notin> set p \<Longrightarrow> split_path p = [p]"
  by (induction p) auto

lemma split_path_step: "CHR ''/'' \<notin> set p \<Longrightarrow> split_path (p @ CHR ''/'' # rest) = p # split_path rest"
  by (induction p) auto

lemma uuid_path:
  assumes "uuid_text i"
  shows "CHR ''/'' \<notin> set i" and "i \<noteq> []"
proof -
  let ?t = "if take 9 i = ''urn:uuid:'' then drop 9 i else i"
  have l: "length ?t = 36" and
    c: "\<And>n. n < 36 \<Longrightarrow> if n \<in> {8, 13, 18, 23} then ?t ! n = CHR ''-'' else is_hex (?t ! n)"
    using assms by (auto simp: uuid_text_def Let_def list_all_iff)
  have "\<not> is_hex (CHR ''/'')" by (simp add: is_hex_def)
  then have "?t ! n \<noteq> CHR ''/''" if "n < 36" for n
    using c [OF that] by (cases "n \<in> {8, 13, 18, 23}") (simp_all only: if_True if_False, auto)
  then have "CHR ''/'' \<notin> set ?t" using l by (metis in_set_conv_nth)
  moreover have "set i \<subseteq> set ''urn:uuid:'' \<union> set ?t"
    using set_append [of "take 9 i" "drop 9 i"] by auto
  ultimately show "CHR ''/'' \<notin> set i" by auto
  show "i \<noteq> []" using l by auto
qed

lemma show_nat_digits_read [simp]: "list_all is_digit (show_nat n)" "digits_value (show_nat n) = n"
  by (rule show_nat_is_digits, rule show_nat_value)

section \<open>The uses\<close>

datatype api_use =
    Use_stats
  | Use_listJobs string "job_state option" "int option"
  | Use_getJob string
  | Use_getAttempts string
  | Use_listDlq int
  | Use_replayDlq int
  | Use_listWebhooks string
  | Use_enqueueEvent string string string string

fun call_of :: "api_use \<Rightarrow> call" where
  "call_of Use_stats = api_stats"
| "call_of (Use_listJobs tn st n) = api_listJobs tn st n"
| "call_of (Use_getJob i) = api_getJob i"
| "call_of (Use_getAttempts i) = api_getAttempts i"
| "call_of (Use_listDlq n) = api_listDlq n"
| "call_of (Use_replayDlq n) = api_replayDlq n"
| "call_of (Use_listWebhooks tn) = api_listWebhooks tn"
| "call_of (Use_enqueueEvent tn w e p) = api_enqueueEvent tn w e p"

fun use_route :: "api_use \<Rightarrow> route" where
  "use_route Use_stats = Get_stats"
| "use_route (Use_listJobs tn st n) = Get_jobs"
| "use_route (Use_getJob i) = Get_job"
| "use_route (Use_getAttempts i) = Get_attempts"
| "use_route (Use_listDlq n) = Get_dlq"
| "use_route (Use_replayDlq n) = Post_replay"
| "use_route (Use_listWebhooks tn) = Get_webhooks"
| "use_route (Use_enqueueEvent tn w e p) = Post_events"

text \<open>The arguments the API is made for.\<close>

fun use_ok :: "api_use \<Rightarrow> bool" where
  "use_ok Use_stats \<longleftrightarrow> True"
| "use_ok (Use_listJobs tn st n) \<longleftrightarrow> tn \<noteq> [] \<and> (case n of None \<Rightarrow> True | Some n \<Rightarrow> 0 \<le> n \<and> n \<le> 200)"
| "use_ok (Use_getJob i) \<longleftrightarrow> uuid_text i"
| "use_ok (Use_getAttempts i) \<longleftrightarrow> uuid_text i"
| "use_ok (Use_listDlq n) \<longleftrightarrow> 1 \<le> n \<and> n \<le> 500"
| "use_ok (Use_replayDlq n) \<longleftrightarrow> 1 \<le> n \<and> n \<le> 1000"
| "use_ok (Use_listWebhooks tn) \<longleftrightarrow> tn \<noteq> []"
| "use_ok (Use_enqueueEvent tn w e p) \<longleftrightarrow>
     tn \<noteq> [] \<and> length tn \<le> 128 \<and> uuid_text w \<and> e \<noteq> [] \<and> length e \<le> 128"

text \<open>The handler of the route reads from the checked request what the client put in.\<close>

fun carried :: "api_use \<Rightarrow> request \<Rightarrow> bool" where
  "carried Use_stats rq \<longleftrightarrow> True"
| "carried (Use_listJobs tn st n) rq \<longleftrightarrow>
     text_field (rq_query rq) ''tenant'' = tn \<and> Option.bind (text_of (field ''state'' (rq_query rq))) state_of = st \<and>
     the_default 50 (num_of (field ''limit'' (rq_query rq))) = (case n of None \<Rightarrow> 50 | Some n \<Rightarrow> if n = 0 then 50 else n)"
| "carried (Use_getJob i) rq \<longleftrightarrow> text_field (rq_params rq) ''id'' = i"
| "carried (Use_getAttempts i) rq \<longleftrightarrow> text_field (rq_params rq) ''id'' = i"
| "carried (Use_listDlq n) rq \<longleftrightarrow> the_default 100 (num_of (field ''limit'' (rq_query rq))) = n"
| "carried (Use_replayDlq n) rq \<longleftrightarrow> the_default 100 (num_of (field ''limit'' (rq_body rq))) = n"
| "carried (Use_listWebhooks tn) rq \<longleftrightarrow> text_field (rq_query rq) ''tenant'' = tn"
| "carried (Use_enqueueEvent tn w e p) rq \<longleftrightarrow> event_input rq =
     \<lparr>in_tenant = tn, in_webhookId = w, in_eventType = e, in_payload = p, in_runAt = None, in_idempotencyKey = None\<rparr>"

lemmas call_defs = api_stats_def api_listJobs_def api_getJob_def api_getAttempts_def api_listDlq_def api_replayDlq_def
  api_listWebhooks_def api_enqueueEvent_def get_call_def post_call_def

lemma state_name_of [simp]: "state_of (state_name st) = Some st"
  by (cases st) (simp_all add: state_of_def JOB_STATES_def)

lemma state_name_listed: "state_name st \<in> state_name ` set JOB_STATES"
  by (cases st) (simp_all add: JOB_STATES_def)

lemma limit_text: "0 < n \<Longrightarrow> show_int n = show_nat (nat n)"
  by (simp add: show_int_def)

lemma accepted_use:
  assumes "validator validate" and "arrives (call_of u) = Some (use_route u, rq)"
    and "route_schema (use_route u) = Some s" and "checked_part (use_route u) rq = JObj fs"
    and "conforms s (JObj (prepared s fs))" and "carried u (with_part (use_route u) (JObj (prepared s fs)) rq)"
  shows "\<exists>rq rq'. arrives (call_of u) = Some (use_route u, rq) \<and>
    check_request validate (use_route u) rq = Inr rq' \<and> carried u rq'"
  using assms(2-4,6) validator.complete [OF assms(1,5)] by (simp add: check_request_def)

lemmas arrive_code = arrives_def call_defs ROUTES_def webhook_routes_def job_routes_def queue_routes_def rewrite_def split_path_lit split_path_step uuid_path

definition plain_get :: "(string \<times> json) list \<Rightarrow> (string \<times> string) list \<Rightarrow> request" where
  "plain_get params q = \<lparr>rq_params = JObj params, rq_query = JObj (map (\<lambda>(k, v). (k, JStr v)) q),
     rq_body = JNull, rq_key = [], rq_parse = None\<rparr>"

definition listJobs_query :: "string \<Rightarrow> job_state option \<Rightarrow> int option \<Rightarrow> (string \<times> string) list" where
  "listJobs_query tenant state limit = c_query (api_listJobs tenant state limit)"

lemmas check_code = schema_defs prepared_def with_defaults_def List.map_filter_def

section \<open>Reading back\<close>

text \<open>The answer the browser gets of a response.\<close>

definition sent_back :: "response \<Rightarrow> answer" where
  "sent_back res = Answer (rs_status res) (Some (rs_body res))"

lemma nullable_text [simp]: "nullable text_of (Some (opt_json JStr x)) = Some x"
  by (cases x) auto

lemma nullable_num [simp]: "nullable num_of (Some (opt_json JNum x)) = Some x"
  by (cases x) auto

lemma all_some_inverse [simp]: "(\<And>x. f (g x) = Some x) \<Longrightarrow> all_some (map (f \<circ> g) xs) = Some xs"
  by (induction xs) auto

lemma read_job_inverse: "read_job (job_json j) = Some j"
  by (simp add: read_job_def job_json_def)

lemma read_jobs_inverse: "all_some (map (read_job \<circ> (job_json \<circ> f)) xs) = Some (map f xs)"
  by (induction xs) (auto simp: read_job_inverse)

lemma read_attempt_inverse: "read_attempt (attempt_json a) = Some a"
  by (simp add: read_attempt_def attempt_json_def)

lemma read_stats_inverse: "read_stats (stats_json s) = Some s"
  by (simp add: read_stats_def stats_json_def)

lemma read_webhook_inverse: "read_webhook (JObj (webhook_fields w)) = Some w"
  by (simp add: read_webhook_def webhook_fields_def)

text \<open>Every call of the client, with arguments in the ranges the API is made for, gets through the proxy
  to the route it means, passes that route's schema, and the handler reads from it what the client
  put in: numbers survive the query text, a missing limit is the default, and no idempotency key or
  due time appears from nowhere.\<close>

lemma client_use_accepted:
  assumes "validator validate" and "use_ok u"
  shows "\<exists>rq rq'. arrives (call_of u) = Some (use_route u, rq) \<and>
    check_request validate (use_route u) rq = Inr rq' \<and> carried u rq'"
proof (cases u)
  case Use_stats
  then show ?thesis by (simp add: arrive_code check_request_def)
next
  case (Use_listJobs tn st n)
  show ?thesis unfolding Use_listJobs
  proof (rule accepted_use [OF assms(1)])
    show "arrives (call_of (Use_listJobs tn st n)) = Some (use_route (Use_listJobs tn st n), plain_get [] (listJobs_query tn st n))"
      by (simp add: arrive_code plain_get_def listJobs_query_def)
    show "conforms listJobsSchema (JObj (prepared listJobsSchema (map (\<lambda>(k, v). (k, JStr v)) (listJobs_query tn st n))))"
      using assms(2) by (cases st; cases n) (auto simp: Use_listJobs listJobs_query_def check_code limit_text state_name_listed call_defs Suc_le_eq)
    show "carried (Use_listJobs tn st n) (with_part (use_route (Use_listJobs tn st n))
        (JObj (prepared listJobsSchema (map (\<lambda>(k, v). (k, JStr v)) (listJobs_query tn st n)))) (plain_get [] (listJobs_query tn st n)))"
      using assms(2) by (cases st; cases n) (auto simp: Use_listJobs listJobs_query_def check_code limit_text text_field_def call_defs)
  qed (simp_all add: plain_get_def)
next
  case (Use_getJob i)
  show ?thesis unfolding Use_getJob
    by (rule accepted_use [OF assms(1)], use assms(2) Use_getJob in \<open>simp add: arrive_code\<close>, simp, simp)
      (use assms(2) in \<open>auto simp: Use_getJob check_code text_field_def Suc_le_eq\<close>)
next
  case (Use_getAttempts i)
  show ?thesis unfolding Use_getAttempts
    by (rule accepted_use [OF assms(1)], use assms(2) Use_getAttempts in \<open>simp add: arrive_code\<close>, simp, simp)
      (use assms(2) in \<open>auto simp: Use_getAttempts check_code text_field_def Suc_le_eq\<close>)
next
  case (Use_listDlq n)
  show ?thesis unfolding Use_listDlq
    by (rule accepted_use [OF assms(1)], simp add: arrive_code, simp, simp)
      (use assms(2) in \<open>auto simp: Use_listDlq check_code limit_text\<close>)
next
  case (Use_replayDlq n)
  show ?thesis unfolding Use_replayDlq
    by (rule accepted_use [OF assms(1)], simp add: arrive_code, simp, simp)
      (use assms(2) in \<open>auto simp: Use_replayDlq check_code\<close>)
next
  case (Use_listWebhooks tn)
  show ?thesis unfolding Use_listWebhooks
    by (rule accepted_use [OF assms(1)], simp add: arrive_code, simp, simp)
      (use assms(2) in \<open>auto simp: Use_listWebhooks check_code text_field_def Suc_le_eq\<close>)
next
  case (Use_enqueueEvent tn w e p)
  show ?thesis unfolding Use_enqueueEvent
    by (rule accepted_use [OF assms(1)], simp add: arrive_code, simp, simp)
      (use assms(2) in \<open>auto simp: Use_enqueueEvent check_code text_field_def event_input_def first_key_def Suc_le_eq\<close>)
qed

section \<open>Properties\<close>

text \<open>C34: The two sides agree on the answers. Every job, attempt, webhook and depth that the server
  serialises reads back in the client's types as what it was, alone and in the lists of the
  responses, with absent texts and statuses as \<open>null\<close>. The client's \<open>request\<close> resolves to the body
  of a successful response and rejects with the message of the error boundary: the one a service
  gave for its own errors, and nothing of an internal one.\<close>

theorem answers_read_back:
  "read_job (job_json j) = Some j \<and> read_attempt (attempt_json a) = Some a \<and>
   read_stats (stats_json s) = Some s \<and> read_webhook (JObj (webhook_fields w)) = Some w \<and>
   read_list ''jobs'' read_job (counted ''jobs'' (map job_json js)) = Some js \<and>
   read_list ''attempts'' read_attempt (counted ''attempts'' (map attempt_json atts)) = Some atts \<and>
   read_list ''webhooks'' read_webhook (JObj [(''webhooks'', JArr (map (\<lambda>w. JObj (webhook_fields w)) ws))]) = Some ws \<and>
   read_replayed (JObj [(''replayed'', JNum n), (''jobIds'', JArr (map JStr ids))]) = Some (n, ids) \<and>
   api_request (sent_back \<lparr>rs_status = 200, rs_body = v\<rparr>) = Inr v \<and>
   api_request (sent_back (error_handler (Raised (NotFoundError (c # m))))) = Inl (c # m) \<and>
   api_request (sent_back (error_handler (Raised (ConflictError (c # m))))) = Inl (c # m) \<and>
   api_request (sent_back (error_handler (Validation (c # m)))) = Inl (c # m) \<and>
   api_request (sent_back (error_handler (Raised (Failure m)))) = Inl ''internal server error''"
  by (simp add: read_job_inverse read_attempt_inverse read_stats_inverse read_webhook_inverse read_list_def counted_def
      all_some_inverse read_replayed_def api_request_def sent_back_def error_body_def NotFoundError_def ConflictError_def)

end
