(* ===== verification/Dashboard_View.thy ===== *)
theory Dashboard_View
  imports Api_Client
begin

text \<open>
  What the dashboard shows: the components under \<open>src/web/src/components\<close> and the formatting of
  \<open>hooks.ts\<close>. A component is a function from its props and its state to a tree of elements, with
  the class names, the texts and what its controls do; inline styles and React keys are left out.
  A control names the event of the dashboard's state machine (theory \<open>Dashboard\<close>) that it raises. Texts are their UTF-8 bytes.
  How the browser prints a date, and \<open>JSON.stringify\<close> with indentation, are parameters.
\<close>

section \<open>Events and elements\<close>

datatype tab = Jobs_tab | Dlq_tab

datatype ui_event =
    Type_tenant string
  | Click_live
  | Click_tab tab
  | Pick_filter "job_state option"
  | Click_row job
  | Click_close
  | Pick_webhook string
  | Type_event string
  | Click_enqueue string
  | Click_replay bool

text \<open>\<open>On_pick\<close> is a select with its options; \<open>On_confirm\<close> asks the question and hands over the answer; \<open>On_payload\<close> reads the clock and the
  random number that the test event carries.\<close>

datatype handler =
    On_click ui_event
  | On_text "string \<Rightarrow> ui_event"
  | On_pick "string list" "string \<Rightarrow> ui_event"
  | On_confirm string "bool \<Rightarrow> ui_event"
  | On_payload "string \<Rightarrow> ui_event"

datatype view =
    Txt string
  | El string "(string \<times> string) list" "handler list" "view list"

definition class_attr :: "string \<Rightarrow> (string \<times> string) list" where
  "class_attr cls = (if cls = [] then [] else [(''className'', cls)])"

definition div_of :: "string \<Rightarrow> view list \<Rightarrow> view" where
  "div_of cls vs = El ''div'' [(''className'', cls)] [] vs"

definition span_of :: "string \<Rightarrow> string \<Rightarrow> view" where
  "span_of cls t = El ''span'' [(''className'', cls)] [] [Txt t]"

definition td_of :: "string \<Rightarrow> view list \<Rightarrow> view" where
  "td_of cls vs = El ''td'' (class_attr cls) [] vs"

definition th_of :: "string \<Rightarrow> string \<Rightarrow> view" where
  "th_of cls t = El ''th'' (class_attr cls) [] [Txt t]"

definition disabled_if :: "bool \<Rightarrow> (string \<times> string) list" where
  "disabled_if b = (if b then [(''disabled'', [])] else [])"

definition em_dash :: string where
  "em_dash = [CHR 0xE2, CHR 0x80, CHR 0x94]"

definition ellipsis :: string where
  "ellipsis = [CHR 0xE2, CHR 0x80, CHR 0xA6]"

definition party :: string where
  "party = [CHR 0xF0, CHR 0x9F, CHR 0x8E, CHR 0x89]"

record browser =
  clock :: ms
  localeString :: "ms \<Rightarrow> string"
  localeTime :: "ms \<Rightarrow> string"
  indented :: "string \<Rightarrow> string"

section \<open>Relative time (hooks.ts)\<close>

definition fmt :: "int \<Rightarrow> string" where
  "fmt secs =
     (if secs < 60 then show_int secs @ ''s''
      else if secs < 3600 then show_int \<lfloor>of_int secs / 60 :: rat\<rfloor> @ ''m''
      else if secs < 86400 then show_int \<lfloor>of_int secs / 3600 :: rat\<rfloor> @ ''h''
      else show_int \<lfloor>of_int secs / 86400 :: rat\<rfloor> @ ''d'')"

text \<open>\<open>Math.round\<close> rounds halves up.\<close>

definition math_round :: "rat \<Rightarrow> int" where
  "math_round x = \<lfloor>x + 1 / 2\<rfloor>"

definition timeAgo :: "ms \<Rightarrow> ms \<Rightarrow> string" where
  "timeAgo now t =
     (let secs = math_round (of_int (now - t) / 1000)
      in if secs < 0 then ''in '' @ fmt (- secs)
         else if secs < 5 then ''just now''
         else fmt secs @ '' ago'')"

section \<open>Badges and cards\<close>

fun state_label :: "job_state \<Rightarrow> string" where
  "state_label Queued = ''queued''"
| "state_label In_flight = ''in-flight''"
| "state_label Succeeded = ''succeeded''"
| "state_label Failed = ''failed''"
| "state_label Dead = ''dead''"

definition StateBadge :: "job_state \<Rightarrow> view" where
  "StateBadge st = span_of (''badge '' @ state_name st) (state_label st)"

definition StatusPill :: "int option \<Rightarrow> view" where
  "StatusPill code =
     (case code of
        None \<Rightarrow> span_of ''status-pill status-none'' em_dash
      | Some c \<Rightarrow> span_of (''status-pill '' @ (if c < 300 then ''status-2xx'' else if c < 500 then ''status-4xx'' else ''status-5xx''))
          (show_int c))"

definition stat_card :: "queue_stats option \<Rightarrow> string \<times> (queue_stats \<Rightarrow> int) \<times> string \<Rightarrow> view" where
  "stat_card qs c =
     (case c of (k, get, label) \<Rightarrow>
        let v = (case qs of None \<Rightarrow> 0 | Some s \<Rightarrow> get s);
            alert = (k = ''dlq'' \<and> v > 0)
        in div_of (''card '' @ k @ (if alert then '' alert'' else []))
             [div_of ''label'' [Txt label],
              div_of ''value'' [Txt (case qs of None \<Rightarrow> em_dash | Some s \<Rightarrow> show_int v)]])"

definition StatCards :: "queue_stats option \<Rightarrow> view" where
  "StatCards qs = div_of ''stats'' (map (stat_card qs)
     [(''ready'', st_ready, ''Ready''), (''inflight'', st_inflight, ''In-flight''),
      (''delayed'', st_delayed, ''Delayed''), (''dlq'', st_dlq, ''Dead-letter'')])"

section \<open>Tables\<close>

definition lastError_text :: "job \<Rightarrow> string" where
  "lastError_text j = the_default em_dash (j_lastError j)"

definition job_row_view :: "browser \<Rightarrow> job \<Rightarrow> view" where
  "job_row_view b j = El ''tr'' [] [On_click (Click_row j)]
     [td_of ''mono'' [Txt (take 8 (j_id j))],
      td_of [] [Txt (j_eventType j)],
      td_of [] [StateBadge (j_state j)],
      td_of ''right mono'' [Txt (show_int (j_attempts j)), span_of ''dim'' (''/'' @ show_int (j_maxAttempts j))],
      td_of ''dim'' [Txt (lastError_text j)],
      td_of ''right dim'' [Txt (timeAgo (clock b) (j_createdAt j))]]"

definition table_of :: "(string \<times> string) list \<Rightarrow> view list \<Rightarrow> view" where
  "table_of heads rows = El ''table'' [] []
     [El ''thead'' [] [] [El ''tr'' [] [] (map (\<lambda>(cls, t). th_of cls t) heads)], El ''tbody'' [] [] rows]"

definition JobsTable :: "browser \<Rightarrow> job list \<Rightarrow> bool \<Rightarrow> view" where
  "JobsTable b jobs loading =
     (if \<not> loading \<and> jobs = [] then div_of ''empty'' [Txt ''No jobs match this filter.'']
      else table_of [([], ''Job''), ([], ''Event''), ([], ''State''), (''right'', ''Attempts''), ([], ''Last error''), (''right'', ''Updated'')]
             (map (job_row_view b) jobs))"

definition dlq_row_view :: "browser \<Rightarrow> job \<Rightarrow> view" where
  "dlq_row_view b j = El ''tr'' [] [On_click (Click_row j)]
     [td_of ''mono'' [Txt (take 8 (j_id j))],
      td_of [] [Txt (j_eventType j)],
      td_of ''dim'' [Txt (j_tenant j)],
      td_of ''right mono'' [Txt (show_int (j_attempts j) @ ''/'' @ show_int (j_maxAttempts j))],
      td_of ''dim'' [Txt (lastError_text j)],
      td_of ''right dim'' [Txt (timeAgo (clock b) (j_createdAt j))]]"

definition error_banner :: "string option \<Rightarrow> view list" where
  "error_banner e = (case e of None \<Rightarrow> [] | Some m \<Rightarrow> if m = [] then [] else [div_of ''error-banner'' [Txt m]])"

definition replay_question :: "nat \<Rightarrow> string" where
  "replay_question n = ''Replay '' @ show_nat n @ '' dead-lettered job(s)? Each gets a fresh retry budget.''"

definition DlqPanel :: "browser \<Rightarrow> job list \<Rightarrow> bool \<Rightarrow> bool \<Rightarrow> string option \<Rightarrow> view" where
  "DlqPanel b jobs loading busy err = div_of ''panel''
     ([div_of ''panel-head''
        [El ''h2'' [] [] [Txt ''Dead-letter queue''],
         span_of ''dim'' (show_nat (length jobs) @ '' job(s)''),
         div_of ''spacer'' [],
         El ''button'' ((''className'', ''danger'') # disabled_if (busy \<or> jobs = []))
           [On_confirm (replay_question (length jobs)) Click_replay]
           [Txt (if busy then ''Replaying'' @ ellipsis else ''Replay all'')]]] @
      error_banner err @
      [if \<not> loading \<and> jobs = [] then div_of ''empty'' [Txt (''Dead-letter queue is empty. '' @ party)]
       else table_of [([], ''Job''), ([], ''Event''), ([], ''Tenant''), (''right'', ''Attempts''), ([], ''Last error''), (''right'', ''Failed'')]
              (map (dlq_row_view b) jobs)])"

section \<open>The drawer\<close>

definition key_value :: "string \<Rightarrow> string \<Rightarrow> string \<Rightarrow> view list" where
  "key_value k cls v = [div_of ''k'' [Txt k], div_of cls [Txt v]]"

definition attempt_view_of :: "browser \<Rightarrow> attempt_view \<Rightarrow> view" where
  "attempt_view_of b a = div_of ''attempt''
     ([div_of ''attempt-head''
        [span_of ''n'' (''#'' @ show_int (a_attemptNumber a)),
         StatusPill (a_statusCode a),
         span_of ''dim'' (show_int (a_durationMs a) @ ''ms''),
         div_of ''spacer'' [],
         span_of ''dim'' (localeTime b (a_attemptedAt a))]] @
      (case a_error a of None \<Rightarrow> [] | Some e \<Rightarrow> if e = [] then [] else [div_of ''meta'' [Txt e]]) @
      (case a_responseBody a of None \<Rightarrow> [] | Some t \<Rightarrow> if t = [] then [] else [El ''pre'' [] [] [Txt t]]))"

definition JobDetail :: "browser \<Rightarrow> job \<Rightarrow> attempt_view list option \<Rightarrow> string option \<Rightarrow> view" where
  "JobDetail b j attempts err =
     El ''div'' [(''className'', ''drawer-overlay'')] [On_click Click_close]
       [div_of ''drawer''
         [div_of ''drawer-head''
           [El ''h2'' [] [] [Txt (''Job '' @ take 8 (j_id j))],
            StateBadge (j_state j),
            El ''div'' [] [] [],
            El ''button'' [] [On_click Click_close] [Txt ''Close'']],
          div_of ''drawer-body''
           ([div_of ''kv''
              (key_value ''Job ID'' ''v mono'' (j_id j) @ key_value ''Tenant'' ''v'' (j_tenant j) @
               key_value ''Event type'' ''v'' (j_eventType j) @ key_value ''Webhook'' ''v mono'' (j_webhookId j) @
               key_value ''Attempts'' ''v'' (show_int (j_attempts j) @ '' / '' @ show_int (j_maxAttempts j)) @
               key_value ''Run at'' ''v'' (localeString b (j_runAt j)) @
               key_value ''Created'' ''v'' (localeString b (j_createdAt j)) @
               (case j_lastError j of None \<Rightarrow> [] | Some e \<Rightarrow> if e = [] then [] else key_value ''Last error'' ''v'' e)),
             div_of ''section-title'' [Txt ''Payload''],
             El ''pre'' [] [] [Txt (indented b (j_payload j))],
             div_of ''section-title'' [Txt (''Delivery attempts '' @
               (case attempts of None \<Rightarrow> [] | Some xs \<Rightarrow> ''('' @ show_nat (length xs) @ '')''))]] @
            error_banner err @
            (if attempts = None \<and> (err = None \<or> err = Some []) then [div_of ''dim'' [Txt (''Loading'' @ ellipsis)]] else []) @
            (if attempts = Some [] then [div_of ''dim'' [Txt ''No delivery attempts recorded yet.'']] else []) @
            map (attempt_view_of b) (the_default [] attempts))]]"

section \<open>The test producer\<close>

definition EnqueuePanel :: "string \<Rightarrow> webhook list \<Rightarrow> string \<Rightarrow> string \<Rightarrow> string option \<Rightarrow> view" where
  "EnqueuePanel tenant webhooks webhookId eventType err = div_of ''panel''
     [div_of ''panel-head'' [El ''h2'' [] [] [Txt ''Send test event''], div_of ''spacer'' []],
      El ''div'' [] []
       ((if webhooks = [] then
           div_of ''dim'' [Txt ''No webhooks registered for '', El ''b'' [] [] [Txt tenant], Txt ''. Register one via '',
             span_of ''mono'' ''POST /webhooks'', Txt '' first.'']
         else
           div_of ''enqueue''
            [El ''select'' [(''value'', webhookId)] [On_pick (map w_id webhooks) Pick_webhook]
               (map (\<lambda>w. El ''option'' [(''value'', w_id w)] [] [Txt (take 8 (w_id w) @ '' '' @ em_dash @ '' '' @ w_url w)]) webhooks),
             El ''input'' [(''value'', eventType), (''placeholder'', ''event type'')] [On_text Type_event] [],
             El ''button'' ((''className'', ''primary'') # disabled_if (webhookId = [])) [On_payload Click_enqueue] [Txt ''Enqueue'']]) #
        error_banner err)]"

end
