(* ===== verification/Dashboard.thy ===== *)
theory Dashboard
  imports Dashboard_View
begin

text \<open>
  The dashboard as a state machine: the polling hook of \<open>src/web/src/hooks.ts\<close>, the state and the
  effects of the components, and \<open>App.tsx\<close>, which ties them together. A step takes what happens next
  (a control is used, a timer fires, an answer arrives, in any order) and gives the requests sent
  and the next state, effects included. React's own scheduling (batching, the double effects of
  its development mode) is left out.
\<close>

section \<open>Polling (hooks.ts)\<close>

text \<open>\<open>pl_flight\<close> has the requests whose answers are out, \<open>pl_timer\<close> says whether the interval is set.\<close>

record 'd poller =
  pl_data :: "'d option"
  pl_error :: "string option"
  pl_loading :: bool
  pl_timer :: bool
  pl_flight :: "api_use list"

definition poll_init :: "'d poller" where
  "poll_init = \<lparr>pl_data = None, pl_error = None, pl_loading = True, pl_timer = False, pl_flight = []\<rparr>"

definition poll_run :: "api_use \<Rightarrow> 'd poller \<Rightarrow> 'd poller" where
  "poll_run u p = p\<lparr>pl_flight := pl_flight p @ [u]\<rparr>"

text \<open>The effect: the clean-up of the last one, a run, and a new interval when enabled.\<close>

definition poll_effect :: "api_use \<Rightarrow> bool \<Rightarrow> 'd poller \<Rightarrow> 'd poller" where
  "poll_effect u enabled p = (poll_run u (p\<lparr>pl_timer := False\<rparr>))\<lparr>pl_timer := enabled\<rparr>"

definition drop_nth :: "nat \<Rightarrow> 'a list \<Rightarrow> 'a list" where
  "drop_nth n xs = take n xs @ drop (Suc n) xs"

definition poll_settle :: "nat \<Rightarrow> string + 'd \<Rightarrow> 'd poller \<Rightarrow> 'd poller" where
  "poll_settle n res p =
     (case res of
        Inr d \<Rightarrow> p\<lparr>pl_data := Some d, pl_error := None\<rparr>
      | Inl m \<Rightarrow> p\<lparr>pl_error := Some m\<rparr>)\<lparr>pl_loading := False, pl_flight := drop_nth n (pl_flight p)\<rparr>"

section \<open>State\<close>

text \<open>The state of \<open>App\<close>, of the test producer (\<open>ep\<close>: the tenants whose webhooks are asked for, the
  number of events under way), of the dead-letter panel (\<open>dp\<close>: which instance is mounted, and the
  instances whose replays are under way), and of the drawer (\<open>jd\<close>: the jobs whose attempts are
  asked for, with the effect's \<open>live\<close> flag).\<close>

record app =
  ap_tenant :: string
  ap_live :: bool
  ap_tab :: tab
  ap_filter :: "job_state option"
  ap_selected :: "job option"
  ap_toast :: "string option"
  ap_toast_timers :: nat
  ap_stats :: "queue_stats poller"
  ap_jobs :: "job list poller"
  ap_dlq :: "job list poller"
  ep_webhooks :: "webhook list"
  ep_webhookId :: string
  ep_eventType :: string
  ep_error :: "string option"
  ep_lists :: "string list"
  ep_sends :: nat
  dp_busy :: bool
  dp_error :: "string option"
  dp_instance :: nat
  dp_flight :: "nat list"
  jd_attempts :: "attempt_view list option"
  jd_error :: "string option"
  jd_flight :: "(string \<times> bool) list"

datatype happening =
    Ui ui_event
  | Tick_stats
  | Tick_jobs
  | Tick_dlq
  | Toast_over
  | Stats_done nat "string + queue_stats"
  | Jobs_done nat "string + job list"
  | Dlq_done nat "string + job list"
  | Webhooks_done nat "string + webhook list"
  | Sent_done "string + unit"
  | Replay_done nat "string + int"
  | Attempts_done nat "string + attempt_view list"

section \<open>What the components do\<close>

type_synonym effect = "app \<Rightarrow> api_use list \<times> app"

definition and_then :: "effect \<Rightarrow> effect \<Rightarrow> effect" where
  "and_then f g a = (case f a of (us, a1) \<Rightarrow> case g a1 of (vs, a2) \<Rightarrow> (us @ vs, a2))"

definition jobs_use :: "app \<Rightarrow> api_use" where
  "jobs_use a = Use_listJobs (ap_tenant a) (ap_filter a) (Some 100)"

definition refresh_stats :: effect where
  "refresh_stats a = ([Use_stats], a\<lparr>ap_stats := poll_run Use_stats (ap_stats a)\<rparr>)"

definition refresh_jobs :: effect where
  "refresh_jobs a = ([jobs_use a], a\<lparr>ap_jobs := poll_run (jobs_use a) (ap_jobs a)\<rparr>)"

definition refresh_dlq :: effect where
  "refresh_dlq a = ([Use_listDlq 200], a\<lparr>ap_dlq := poll_run (Use_listDlq 200) (ap_dlq a)\<rparr>)"

definition poll_stats :: effect where
  "poll_stats a = ([Use_stats], a\<lparr>ap_stats := poll_effect Use_stats (ap_live a) (ap_stats a)\<rparr>)"

definition poll_jobs :: effect where
  "poll_jobs a = ([jobs_use a], a\<lparr>ap_jobs := poll_effect (jobs_use a) (ap_live a) (ap_jobs a)\<rparr>)"

definition dlq_enabled :: "app \<Rightarrow> bool" where
  "dlq_enabled a \<longleftrightarrow> ap_live a \<and> ap_tab a = Dlq_tab"

definition poll_dlq :: effect where
  "poll_dlq a = ([Use_listDlq 200], a\<lparr>ap_dlq := poll_effect (Use_listDlq 200) (dlq_enabled a) (ap_dlq a)\<rparr>)"

definition list_webhooks_effect :: effect where
  "list_webhooks_effect a = ([Use_listWebhooks (ap_tenant a)], a\<lparr>ep_lists := ep_lists a @ [ap_tenant a]\<rparr>)"

definition flash :: "string \<Rightarrow> effect" where
  "flash m a = ([], a\<lparr>ap_toast := Some m, ap_toast_timers := ap_toast_timers a + 1\<rparr>)"

text \<open>The first render and its effects.\<close>

definition first_render :: app where
  "first_render = \<lparr>ap_tenant = ''acme'', ap_live = True, ap_tab = Jobs_tab, ap_filter = None, ap_selected = None,
     ap_toast = None, ap_toast_timers = 0, ap_stats = poll_init, ap_jobs = poll_init, ap_dlq = poll_init,
     ep_webhooks = [], ep_webhookId = [], ep_eventType = ''order.created'', ep_error = None, ep_lists = [], ep_sends = 0,
     dp_busy = False, dp_error = None, dp_instance = 0, dp_flight = [],
     jd_attempts = None, jd_error = None, jd_flight = []\<rparr>"

definition mounted :: "api_use list \<times> app" where
  "mounted = and_then poll_stats (and_then poll_jobs (and_then poll_dlq list_webhooks_effect)) first_render"

text \<open>\<open>setSelected\<close>, with the effect of the drawer: a drawer that is mounted has fresh state, one that
  is given another job keeps its state, and either way the last effect's answers no longer count.\<close>

definition unlive :: "(string \<times> bool) list \<Rightarrow> (string \<times> bool) list" where
  "unlive fl = map (\<lambda>(i, live). (i, False)) fl"

definition open_job :: "job \<Rightarrow> effect" where
  "open_job j a =
     (case ap_selected a of
        None \<Rightarrow> ([Use_getAttempts (j_id j)], a\<lparr>ap_selected := Some j, jd_attempts := None, jd_error := None,
                   jd_flight := jd_flight a @ [(j_id j, True)]\<rparr>)
      | Some j' \<Rightarrow>
          if j_id j' = j_id j then ([], a\<lparr>ap_selected := Some j\<rparr>)
          else ([Use_getAttempts (j_id j)], a\<lparr>ap_selected := Some j, jd_flight := unlive (jd_flight a) @ [(j_id j, True)]\<rparr>))"

definition close_job :: effect where
  "close_job a = ([], a\<lparr>ap_selected := None, jd_flight := unlive (jd_flight a)\<rparr>)"

definition dlq_shown :: "app \<Rightarrow> job list" where
  "dlq_shown a = the_default [] (pl_data (ap_dlq a))"

definition replay_click :: "bool \<Rightarrow> effect" where
  "replay_click confirmed a =
     (if \<not> confirmed then ([], a)
      else ([Use_replayDlq (if dlq_shown a = [] then 100 else int (length (dlq_shown a)))],
            a\<lparr>dp_busy := True, dp_error := None, dp_flight := dp_flight a @ [dp_instance a]\<rparr>))"

text \<open>State set by a panel that is no longer mounted is ignored; its callbacks still run.\<close>

definition replay_done :: "nat \<Rightarrow> string + int \<Rightarrow> effect" where
  "replay_done n res a =
     (let here = (ap_tab a = Dlq_tab \<and> dp_flight a ! n = dp_instance a);
          a = a\<lparr>dp_flight := drop_nth n (dp_flight a)\<rparr>
      in case res of
           Inr k \<Rightarrow> and_then refresh_dlq (and_then refresh_stats (and_then refresh_jobs (flash (''Replayed '' @ show_int k @ '' job(s)''))))
                      (if here then a\<lparr>dp_busy := False\<rparr> else a)
         | Inl m \<Rightarrow> ([], if here then a\<lparr>dp_busy := False, dp_error := Some m\<rparr> else a))"

definition send_click :: "string \<Rightarrow> effect" where
  "send_click payload a =
     ([Use_enqueueEvent (ap_tenant a) (ep_webhookId a) (ep_eventType a) payload], a\<lparr>ep_error := None, ep_sends := ep_sends a + 1\<rparr>)"

definition send_done :: "string + unit \<Rightarrow> effect" where
  "send_done res a =
     (let a = a\<lparr>ep_sends := ep_sends a - 1\<rparr>
      in case res of
           Inr _ \<Rightarrow> and_then refresh_jobs (and_then refresh_stats (flash ''Event enqueued'')) a
         | Inl m \<Rightarrow> ([], a\<lparr>ep_error := Some m\<rparr>))"

definition webhooks_done :: "nat \<Rightarrow> string + webhook list \<Rightarrow> effect" where
  "webhooks_done n res a =
     (let a = a\<lparr>ep_lists := drop_nth n (ep_lists a)\<rparr>
      in case res of
           Inr ws \<Rightarrow> ([], a\<lparr>ep_webhooks := ws,
              ep_webhookId := (if ep_webhookId a \<noteq> [] then ep_webhookId a else case ws of [] \<Rightarrow> [] | w # _ \<Rightarrow> w_id w)\<rparr>)
         | Inl m \<Rightarrow> ([], a\<lparr>ep_error := Some m\<rparr>))"

definition attempts_done :: "nat \<Rightarrow> string + attempt_view list \<Rightarrow> effect" where
  "attempts_done n res a =
     (let live = snd (jd_flight a ! n); a = a\<lparr>jd_flight := drop_nth n (jd_flight a)\<rparr>
      in ([], if \<not> live then a
              else case res of Inr xs \<Rightarrow> a\<lparr>jd_attempts := Some xs\<rparr> | Inl m \<Rightarrow> a\<lparr>jd_error := Some m\<rparr>))"

definition pick_tab :: "tab \<Rightarrow> effect" where
  "pick_tab t a =
     (if t = ap_tab a then ([], a)
      else let a' = (if t = Dlq_tab then a\<lparr>ap_tab := t, dp_busy := False, dp_error := None, dp_instance := dp_instance a + 1\<rparr>
                     else a\<lparr>ap_tab := t\<rparr>)
           in if ap_live a then poll_dlq a' else ([], a'))"

definition toggle_live :: effect where
  "toggle_live a =
     (let a = a\<lparr>ap_live := \<not> ap_live a\<rparr>
      in and_then poll_stats (and_then poll_jobs (if ap_tab a = Dlq_tab then poll_dlq else Pair [])) a)"

section \<open>One step\<close>

fun ui_step :: "ui_event \<Rightarrow> effect" where
  "ui_step (Type_tenant s) a =
     (if s = ap_tenant a then ([], a) else and_then poll_jobs list_webhooks_effect (a\<lparr>ap_tenant := s\<rparr>))"
| "ui_step Click_live a = toggle_live a"
| "ui_step (Click_tab t) a = pick_tab t a"
| "ui_step (Pick_filter f) a = (if f = ap_filter a then ([], a) else poll_jobs (a\<lparr>ap_filter := f\<rparr>))"
| "ui_step (Click_row j) a = open_job j a"
| "ui_step Click_close a = close_job a"
| "ui_step (Pick_webhook i) a = ([], a\<lparr>ep_webhookId := i\<rparr>)"
| "ui_step (Type_event s) a = ([], a\<lparr>ep_eventType := s\<rparr>)"
| "ui_step (Click_enqueue payload) a = send_click payload a"
| "ui_step (Click_replay confirmed) a = replay_click confirmed a"

fun app_step :: "happening \<Rightarrow> effect" where
  "app_step (Ui ev) a = ui_step ev a"
| "app_step Tick_stats a = refresh_stats a"
| "app_step Tick_jobs a = refresh_jobs a"
| "app_step Tick_dlq a = refresh_dlq a"
| "app_step Toast_over a = ([], a\<lparr>ap_toast := None, ap_toast_timers := ap_toast_timers a - 1\<rparr>)"
| "app_step (Stats_done n res) a = ([], a\<lparr>ap_stats := poll_settle n res (ap_stats a)\<rparr>)"
| "app_step (Jobs_done n res) a = ([], a\<lparr>ap_jobs := poll_settle n res (ap_jobs a)\<rparr>)"
| "app_step (Dlq_done n res) a = ([], a\<lparr>ap_dlq := poll_settle n res (ap_dlq a)\<rparr>)"
| "app_step (Webhooks_done n res) a = webhooks_done n res a"
| "app_step (Sent_done res) a = send_done res a"
| "app_step (Replay_done n res) a = replay_done n res a"
| "app_step (Attempts_done n res) a = attempts_done n res a"

section \<open>What the screen offers\<close>

definition jobs_shown :: "app \<Rightarrow> job list" where
  "jobs_shown a = the_default [] (pl_data (ap_jobs a))"

definition FILTERS :: "string list" where
  "FILTERS = ''all'' # map state_name JOB_STATES"

definition jobs_panel :: "browser \<Rightarrow> app \<Rightarrow> view" where
  "jobs_panel b a = div_of ''panel''
     [div_of ''panel-head''
       [El ''h2'' [] [] [Txt ''Jobs''],
        span_of ''dim'' (show_nat (length (jobs_shown a))),
        div_of ''spacer'' [],
        El ''label'' [(''className'', ''dim'')] [] [Txt ''State''],
        El ''select'' [(''value'', case ap_filter a of None \<Rightarrow> ''all'' | Some st \<Rightarrow> state_name st)]
          [On_pick FILTERS (\<lambda>s. Pick_filter (state_of s))]
          (map (\<lambda>s. El ''option'' [(''value'', s)] [] [Txt (if s = ''all'' then ''All'' else s)]) FILTERS)],
      JobsTable b (jobs_shown a) (pl_loading (ap_jobs a))]"

definition any_error :: "app \<Rightarrow> string option" where
  "any_error a = (case pl_error (ap_stats a) of
     Some m \<Rightarrow> if m \<noteq> [] then Some m else pl_error (ap_jobs a)
   | None \<Rightarrow> pl_error (ap_jobs a))"

definition dlq_count :: "app \<Rightarrow> int" where
  "dlq_count a = (case pl_data (ap_stats a) of None \<Rightarrow> 0 | Some s \<Rightarrow> st_dlq s)"

definition tab_class :: "app \<Rightarrow> tab \<Rightarrow> string" where
  "tab_class a t = ''tab '' @ (if ap_tab a = t then ''active'' else [])"

definition page :: "browser \<Rightarrow> app \<Rightarrow> view list" where
  "page b a =
     [div_of ''header''
       [El ''div'' [] [] [El ''h1'' [] [] [Txt ''Webhook Delivery Platform''], div_of ''sub'' [Txt (''Operator dashboard '' @ [CHR 0xC2, CHR 0xB7] @ '' M8'')]],
        div_of ''spacer'' [],
        div_of ''control'' [El ''label'' [] [] [Txt ''Tenant''], El ''input'' [(''value'', ap_tenant a)] [On_text Type_tenant] []],
        El ''button'' [] [On_click Click_live]
          [span_of (''dot '' @ (if ap_live a then [] else ''off'')) [], Txt '' '', Txt (if ap_live a then ''Live'' else ''Paused'')]]] @
     (case any_error a of None \<Rightarrow> [] | Some m \<Rightarrow> if m = [] then [] else
        [div_of ''error-banner'' [Txt (''API error: '' @ m @ ''. Is the API running on :3000?'')]]) @
     [StatCards (pl_data (ap_stats a)),
      EnqueuePanel (ap_tenant a) (ep_webhooks a) (ep_webhookId a) (ep_eventType a) (ep_error a),
      div_of ''tabs''
       [El ''button'' [(''className'', tab_class a Jobs_tab)] [On_click (Click_tab Jobs_tab)] [Txt ''Jobs''],
        El ''button'' [(''className'', tab_class a Dlq_tab)] [On_click (Click_tab Dlq_tab)]
          (Txt ''Dead-letter'' # (if dlq_count a > 0 then [span_of ''count'' (show_int (dlq_count a))] else []))],
      (case ap_tab a of
         Jobs_tab \<Rightarrow> jobs_panel b a
       | Dlq_tab \<Rightarrow> DlqPanel b (dlq_shown a) (pl_loading (ap_dlq a)) (dp_busy a) (dp_error a))]"

definition drawer :: "browser \<Rightarrow> app \<Rightarrow> view list" where
  "drawer b a = (case ap_selected a of None \<Rightarrow> [] | Some j \<Rightarrow> [JobDetail b j (jd_attempts a) (jd_error a)])"

definition App :: "browser \<Rightarrow> app \<Rightarrow> view" where
  "App b a = div_of ''app'' (page b a @ drawer b a @
     (case ap_toast a of None \<Rightarrow> [] | Some m \<Rightarrow> if m = [] then [] else [div_of ''toast'' [Txt m]]))"

end
