(* ===== verification/Dashboard_Safety.thy ===== *)
theory Dashboard_Safety
  imports Dashboard Platform "HOL-Library.Multiset"
begin

text \<open>
  What holds of the dashboard in every visit: any sequence of uses of the controls that are on the
  screen, of ticks of the timers that are set, and of answers to the requests under way, in any
  order. \<open>okay\<close> restricts what the server answers, where a property needs it; what users type is free.
\<close>

section \<open>Visits\<close>

fun raises :: "handler \<Rightarrow> ui_event \<Rightarrow> bool" where
  "raises (On_click ev') ev \<longleftrightarrow> ev = ev'"
| "raises (On_text f) ev \<longleftrightarrow> (\<exists>s. ev = f s)"
| "raises (On_pick options f) ev \<longleftrightarrow> (\<exists>s \<in> set options. ev = f s)"
| "raises (On_confirm question f) ev \<longleftrightarrow> (\<exists>b. ev = f b)"
| "raises (On_payload f) ev \<longleftrightarrow> (\<exists>s. ev = f s)"

fun offers :: "view \<Rightarrow> ui_event \<Rightarrow> bool" where
  "offers (Txt t) ev \<longleftrightarrow> False"
| "offers (El tag attrs hs vs) ev \<longleftrightarrow>
     ((''disabled'', []) \<notin> set attrs \<and> (\<exists>h \<in> set hs. raises h ev)) \<or> (\<exists>v \<in> set vs. offers v ev)"

text \<open>The open drawer's overlay covers the page.\<close>

definition on_screen :: "browser \<Rightarrow> app \<Rightarrow> view list" where
  "on_screen b a = (if ap_selected a = None then page b a else drawer b a)"

fun possible :: "browser \<Rightarrow> app \<Rightarrow> happening \<Rightarrow> bool" where
  "possible b a (Ui ev) \<longleftrightarrow> (\<exists>v \<in> set (on_screen b a). offers v ev)"
| "possible b a Tick_stats \<longleftrightarrow> pl_timer (ap_stats a)"
| "possible b a Tick_jobs \<longleftrightarrow> pl_timer (ap_jobs a)"
| "possible b a Tick_dlq \<longleftrightarrow> pl_timer (ap_dlq a)"
| "possible b a Toast_over \<longleftrightarrow> 0 < ap_toast_timers a"
| "possible b a (Stats_done n res) \<longleftrightarrow> n < length (pl_flight (ap_stats a))"
| "possible b a (Jobs_done n res) \<longleftrightarrow> n < length (pl_flight (ap_jobs a))"
| "possible b a (Dlq_done n res) \<longleftrightarrow> n < length (pl_flight (ap_dlq a))"
| "possible b a (Webhooks_done n res) \<longleftrightarrow> n < length (ep_lists a)"
| "possible b a (Sent_done res) \<longleftrightarrow> 0 < ep_sends a"
| "possible b a (Replay_done n res) \<longleftrightarrow> n < length (dp_flight a)"
| "possible b a (Attempts_done n res) \<longleftrightarrow> n < length (jd_flight a)"

inductive visit :: "(app \<Rightarrow> happening \<Rightarrow> bool) \<Rightarrow> api_use list \<Rightarrow> app \<Rightarrow> bool" for okay where
  opened: "visit okay (fst mounted) (snd mounted)"
| happens: "visit okay out a \<Longrightarrow> possible b a ev \<Longrightarrow> okay a ev \<Longrightarrow>
    visit okay (out @ fst (app_step ev a)) (snd (app_step ev a))"

section \<open>What the screen offers\<close>

lemmas view_defs = div_of_def span_of_def td_of_def th_of_def table_of_def StatCards_def stat_card_def StateBadge_def
  StatusPill_def JobsTable_def job_row_view_def DlqPanel_def dlq_row_view_def error_banner_def JobDetail_def
  key_value_def attempt_view_of_def EnqueuePanel_def jobs_panel_def page_def drawer_def

lemma offers_if [simp]: "offers (if c then v else v') ev = (if c then offers v ev else offers v' ev)"
  by simp

lemma plain_views [simp]: "\<not> offers (StateBadge st) ev" "\<not> offers (StatusPill code) ev" "\<not> offers (StatCards s) ev"
  "\<not> offers (attempt_view_of b att) ev"
  by (auto simp: view_defs Let_def split: option.splits if_splits)

lemma row_offers [simp]: "offers (job_row_view b j) ev \<longleftrightarrow> ev = Click_row j" "offers (dlq_row_view b j) ev \<longleftrightarrow> ev = Click_row j"
  by (auto simp: job_row_view_def dlq_row_view_def td_of_def span_of_def)

lemma table_offers [simp]: "offers (table_of heads rows) ev \<longleftrightarrow> (\<exists>v \<in> set rows. offers v ev)"
  by (auto simp: table_of_def th_of_def)

lemma banner_offers [simp]: "v \<in> set (error_banner e) \<Longrightarrow> \<not> offers v ev"
  by (auto simp: error_banner_def div_of_def split: option.splits if_splits)

lemma jobs_table_offers: "offers (JobsTable b js loading) ev \<longleftrightarrow> ev \<in> Click_row ` set js"
  by (auto simp: JobsTable_def div_of_def)

text \<open>What the page can raise.\<close>

fun raised_by_page :: "app \<Rightarrow> ui_event \<Rightarrow> bool" where
  "raised_by_page a (Click_row j) \<longleftrightarrow> j \<in> set (jobs_shown a) \<or> j \<in> set (dlq_shown a)"
| "raised_by_page a (Pick_webhook i) \<longleftrightarrow> i \<in> w_id ` set (ep_webhooks a)"
| "raised_by_page a (Click_enqueue payload) \<longleftrightarrow> ep_webhookId a \<noteq> []"
| "raised_by_page a (Click_replay confirmed) \<longleftrightarrow> ap_tab a = Dlq_tab \<and> \<not> dp_busy a \<and> dlq_shown a \<noteq> []"
| "raised_by_page a Click_close \<longleftrightarrow> False"
| "raised_by_page a ev \<longleftrightarrow> True"

lemma jobs_panel_offers: "offers (jobs_panel b a) ev \<Longrightarrow> raised_by_page a ev"
  by (auto simp: jobs_panel_def div_of_def span_of_def jobs_table_offers)

lemma dlq_panel_offers:
  "ap_tab a = Dlq_tab \<Longrightarrow> offers (DlqPanel b (dlq_shown a) loading (dp_busy a) err) ev \<Longrightarrow> raised_by_page a ev"
  by (auto simp: DlqPanel_def div_of_def span_of_def disabled_if_def split: if_splits)

lemma enqueue_panel_offers: "offers (EnqueuePanel tn (ep_webhooks a) (ep_webhookId a) e err) ev \<Longrightarrow> raised_by_page a ev"
  by (auto simp: EnqueuePanel_def div_of_def span_of_def disabled_if_def split: if_splits)

lemma drawer_offers: "offers (JobDetail b j xs e) ev \<Longrightarrow> ev = Click_close"
  by (auto simp: JobDetail_def div_of_def key_value_def split: option.splits if_splits)

lemma page_offers:
  assumes "v \<in> set (page b a)" and "offers v ev"
  shows "raised_by_page a ev"
proof -
  have "ev \<in> {Click_live, Click_tab Jobs_tab, Click_tab Dlq_tab} \<union> range Type_tenant \<or>
      offers (EnqueuePanel (ap_tenant a) (ep_webhooks a) (ep_webhookId a) (ep_eventType a) (ep_error a)) ev \<or>
      offers (jobs_panel b a) ev \<or>
      (ap_tab a = Dlq_tab \<and> offers (DlqPanel b (dlq_shown a) (pl_loading (ap_dlq a)) (dp_busy a) (dp_error a)) ev)"
    using assms by (auto simp: page_def div_of_def span_of_def split: option.splits if_splits tab.splits)
  then show ?thesis
    using enqueue_panel_offers jobs_panel_offers dlq_panel_offers by (elim disjE) fastforce+
qed

lemma possible_ui:
  assumes "possible b a (Ui ev)"
  shows "if ap_selected a = None then raised_by_page a ev else ev = Click_close"
proof (cases "ap_selected a")
  case None
  with assms show ?thesis using page_offers by (auto simp: on_screen_def)
next
  case (Some j)
  with assms show ?thesis by (auto simp: on_screen_def drawer_def dest: drawer_offers)
qed

text \<open>Controls that are there.\<close>

lemma possible_tenant: "ap_selected a = None \<Longrightarrow> possible b a (Ui (Type_tenant s))"
  by (auto simp: on_screen_def page_def div_of_def)

lemma possible_tab: "ap_selected a = None \<Longrightarrow> possible b a (Ui (Click_tab t))"
  by (cases t) (auto simp: on_screen_def page_def div_of_def)

lemma possible_row:
  "ap_selected a = None \<Longrightarrow> ap_tab a = Jobs_tab \<Longrightarrow> j \<in> set (jobs_shown a) \<Longrightarrow> possible b a (Ui (Click_row j))"
  by (auto simp: on_screen_def page_def jobs_panel_def div_of_def jobs_table_offers)


lemma possible_enqueue:
  "ap_selected a = None \<Longrightarrow> ep_webhooks a \<noteq> [] \<Longrightarrow> ep_webhookId a \<noteq> [] \<Longrightarrow> possible b a (Ui (Click_enqueue payload))"
  by (auto simp: on_screen_def page_def EnqueuePanel_def div_of_def disabled_if_def)

text \<open>A sequence of happenings, one after the other.\<close>

primrec tour :: "happening list \<Rightarrow> api_use list \<times> app \<Rightarrow> api_use list \<times> app" where
  "tour [] s = s"
| "tour (ev # evs) s = tour evs (fst s @ fst (app_step ev (snd s)), snd (app_step ev (snd s)))"

primrec tour_ok :: "(app \<Rightarrow> happening \<Rightarrow> bool) \<Rightarrow> browser \<Rightarrow> happening list \<Rightarrow> app \<Rightarrow> bool" where
  "tour_ok okay b [] a \<longleftrightarrow> True"
| "tour_ok okay b (ev # evs) a \<longleftrightarrow> possible b a ev \<and> okay a ev \<and> tour_ok okay b evs (snd (app_step ev a))"

lemma tour_visit: "visit okay (fst s) (snd s) \<Longrightarrow> tour_ok okay b evs (snd s) \<Longrightarrow> visit okay (fst (tour evs s)) (snd (tour evs s))"
proof (induction evs arbitrary: s)
  case (Cons ev evs)
  from Cons.prems(2) have "possible b (snd s) ev" "okay (snd s) ev" "tour_ok okay b evs (snd (app_step ev (snd s)))" by auto
  from Cons.IH [of "(fst s @ fst (app_step ev (snd s)), snd (app_step ev (snd s)))"] this(3)
    visit.happens [OF Cons.prems(1) this(1,2)]
  show ?case by simp
qed simp

section \<open>Invariants\<close>

lemma visit_keeps:
  assumes "visit okay out a" and "I (snd mounted)" and "list_all P (fst mounted)"
    and "\<And>a b ev. I a \<Longrightarrow> possible b a ev \<Longrightarrow> okay a ev \<Longrightarrow> I (snd (app_step ev a)) \<and> list_all P (fst (app_step ev a))"
  shows "I a \<and> list_all P out"
  using assms(1) by (induction rule: visit.induct) (use assms(2-4) in auto)

lemmas effect_defs = and_then_def refresh_stats_def refresh_jobs_def refresh_dlq_def poll_stats_def poll_jobs_def poll_dlq_def
  list_webhooks_effect_def flash_def open_job_def close_job_def replay_click_def replay_done_def send_click_def send_done_def
  webhooks_done_def attempts_done_def pick_tab_def toggle_live_def poll_effect_def poll_run_def poll_settle_def

lemma in_drop_nth: "x \<in> set (drop_nth n xs) \<Longrightarrow> x \<in> set xs"
  by (auto simp: drop_nth_def dest: in_set_takeD in_set_dropD)

text \<open>The intervals are set exactly as the switches say.\<close>

definition timers_ok :: "app \<Rightarrow> bool" where
  "timers_ok a \<longleftrightarrow> pl_timer (ap_stats a) = ap_live a \<and> pl_timer (ap_jobs a) = ap_live a \<and> pl_timer (ap_dlq a) = dlq_enabled a"

lemma timers_step: "timers_ok a \<Longrightarrow> timers_ok (snd (app_step ev a))"
proof (cases ev)
  case (Ui e)
  assume "timers_ok a"
  then show ?thesis unfolding Ui
    by (cases e) (auto simp: timers_ok_def dlq_enabled_def effect_defs Let_def split: option.splits)
qed (auto simp: timers_ok_def dlq_enabled_def effect_defs Let_def split: sum.splits)

lemma timers_mounted: "timers_ok (snd mounted)"
  by (simp add: timers_ok_def dlq_enabled_def mounted_def first_render_def effect_defs)

text \<open>The drawer's requests that count are for the job it shows, and so are the attempts in it.\<close>

definition drawer_ok :: "app \<Rightarrow> bool" where
  "drawer_ok a \<longleftrightarrow> (\<forall>i. (i, True) \<in> set (jd_flight a) \<longrightarrow> (\<exists>j. ap_selected a = Some j \<and> j_id j = i)) \<and>
     (\<forall>j xs. ap_selected a = Some j \<and> jd_attempts a = Some xs \<longrightarrow> (\<forall>x \<in> set xs. a_jobId x = j_id j))"

fun honest_attempts :: "app \<Rightarrow> happening \<Rightarrow> bool" where
  "honest_attempts a (Attempts_done n (Inr xs)) \<longleftrightarrow> (\<forall>x \<in> set xs. a_jobId x = fst (jd_flight a ! n))"
| "honest_attempts a _ \<longleftrightarrow> True"

lemma unlive_dead [simp]: "(i, True) \<notin> set (unlive fl)"
  by (auto simp: unlive_def)

lemma drawer_step:
  assumes "drawer_ok a" and "possible b a ev" and "honest_attempts a ev"
  shows "drawer_ok (snd (app_step ev a))"
proof (cases ev)
  case (Ui e)
  note p = possible_ui [OF assms(2) [unfolded Ui]]
  show ?thesis unfolding Ui using assms(1) p
    by (cases e) (auto simp: drawer_ok_def effect_defs Let_def split: option.splits)
next
  case (Attempts_done n res)
  obtain i live where n: "jd_flight a ! n = (i, live)" by (metis prod.exhaust)
  then have i: "(i, live) \<in> set (jd_flight a)" using assms(2) Attempts_done by (metis nth_mem possible.simps(12))
  have keep: "\<forall>i. (i, True) \<in> set (drop_nth n (jd_flight a)) \<longrightarrow> (\<exists>j. ap_selected a = Some j \<and> j_id j = i)"
    using assms(1) by (auto simp: drawer_ok_def dest: in_drop_nth)
  show ?thesis unfolding Attempts_done using assms(1,3) n i keep Attempts_done
    by (cases res; cases live) (auto simp: drawer_ok_def effect_defs Let_def)
qed (use assms(1) in \<open>auto simp: drawer_ok_def effect_defs Let_def split: sum.splits\<close>)

text \<open>What the server answers. Every reply that a handler gets is one that the stores give in some state in
  which they agree (every reachable one, by \<open>stores_always_agree\<close>) and whose ids are UUIDs (the columns
  have that type); between two replies anything may happen. An answer that lists is what the client
  reads of the response to its request.\<close>

definition uuid_ids :: "db \<Rightarrow> bool" where
  "uuid_ids d \<longleftrightarrow> (\<forall>row \<in> set (jobs_t d). uuid_text (jr_id row)) \<and> (\<forall>row \<in> set (webhooks_t d). uuid_text (wr_id row))"

definition real_reply :: "(ms \<Rightarrow> rcmd \<Rightarrow> 'r \<Rightarrow> reply \<times> 'r) \<Rightarrow> ('r \<Rightarrow> keyspace) \<Rightarrow> event \<Rightarrow> bool" where
  "real_reply exec ent ev \<longleftrightarrow> (\<exists>i w. stores_agree ent w \<and> uuid_ids (tables w) \<and> fst (perform exec i (fst ev) w) = snd ev)"

definition reads_as :: "(json \<Rightarrow> 'a option) \<Rightarrow> response \<Rightarrow> 'a option" where
  "reads_as f res = (case api_request (sent_back res) of Inl m \<Rightarrow> None | Inr v \<Rightarrow> f v)"

definition answered_with :: "(ms \<Rightarrow> rcmd \<Rightarrow> 'r \<Rightarrow> reply \<times> 'r) \<Rightarrow> ('r \<Rightarrow> keyspace) \<Rightarrow> (schema \<Rightarrow> json \<Rightarrow> string + json) \<Rightarrow>
    (json \<Rightarrow> 'a option) \<Rightarrow> api_use \<Rightarrow> 'a \<Rightarrow> bool" where
  "answered_with exec ent validate f u x \<longleftrightarrow> (\<exists>protocol_of rq rs tr res. arrives (call_of u) = Some (use_route u, rq) \<and>
     play (respond protocol_of validate (use_route u) rq) rs = (tr, Done res) \<and> (\<forall>ev \<in> set tr. real_reply exec ent ev) \<and>
     reads_as f res = Some x)"

fun served :: "(ms \<Rightarrow> rcmd \<Rightarrow> 'r \<Rightarrow> reply \<times> 'r) \<Rightarrow> ('r \<Rightarrow> keyspace) \<Rightarrow> (schema \<Rightarrow> json \<Rightarrow> string + json) \<Rightarrow>
    app \<Rightarrow> happening \<Rightarrow> bool" where
  "served exec ent validate a (Jobs_done n (Inr js)) \<longleftrightarrow>
     answered_with exec ent validate (read_list ''jobs'' read_job) (pl_flight (ap_jobs a) ! n) js"
| "served exec ent validate a (Dlq_done n (Inr js)) \<longleftrightarrow>
     answered_with exec ent validate (read_list ''jobs'' read_job) (pl_flight (ap_dlq a) ! n) js"
| "served exec ent validate a (Webhooks_done n (Inr ws)) \<longleftrightarrow>
     answered_with exec ent validate (read_list ''webhooks'' read_webhook) (Use_listWebhooks (ep_lists a ! n)) ws"
| "served exec ent validate a _ \<longleftrightarrow> True"

text \<open>What such answers list.\<close>

lemma real_ids:
  assumes "real_reply exec ent (Sql st, r)"
  shows "st = SelectJobsAny ids \<or> st = SelectJobsWhere t state n \<Longrightarrow> \<forall>row \<in> set (job_rows r). uuid_text (jr_id row)"
    and "st = SelectWebhooksOf t \<Longrightarrow> \<forall>row \<in> set (webhook_rows r). uuid_text (wr_id row)"
proof -
  obtain i w where w: "uuid_ids (tables w)" "fst (perform exec i (Sql st) w) = r"
    using assms by (auto simp: real_reply_def)
  obtain w' where p: "perform exec i (Sql st) w = (r, w')" using w(2) by (metis prod.collapse)
  have "\<forall>row \<in> set (job_rows r). uuid_text (jr_id row)" if st: "st = SelectJobsAny ids \<or> st = SelectJobsWhere t state n"
    using p
  proof (cases rule: perform_cases)
    case 3
    have "row_ids (snd (sql_exec (i_time i) (i_uuid i) st (tables w))) = row_ids (tables w)"
      using st by (auto simp: sql_select_jobs_any_def sql_select_jobs_where_def refuses_text_def Let_def split: if_splits)
    with 3(2) job_rows_ids [of "i_time i" "i_uuid i" st "tables w"] w(1) show ?thesis
      by (auto simp: tables_serve row_ids_def uuid_ids_def simp del: serve.simps sql_exec.simps)
  qed simp_all
  then show "st = SelectJobsAny ids \<or> st = SelectJobsWhere t state n \<Longrightarrow> \<forall>row \<in> set (job_rows r). uuid_text (jr_id row)" .
  have "\<forall>row \<in> set (webhook_rows r). uuid_text (wr_id row)" if st: "st = SelectWebhooksOf t"
    using w by (auto simp: st perform_def sql_select_webhooks_of_def refuses_text_def uuid_ids_def split: fault.splits if_splits)
  then show "st = SelectWebhooksOf t \<Longrightarrow> \<forall>row \<in> set (webhook_rows r). uuid_text (wr_id row)" .
qed

context redis_server
begin

lemma real_range:
  assumes "real_reply exec ent (RCmd (Lrange DLQ 0 (n - 1)), r)" and "1 \<le> n"
  shows "length (as_strs r) \<le> nat n"
proof -
  obtain i w where w: "stores_agree ent w" "fst (perform exec i (RCmd (Lrange DLQ 0 (n - 1))) w) = r"
    using assms(1) by (auto simp: real_reply_def)
  obtain w' where p: "perform exec i (RCmd (Lrange DLQ 0 (n - 1))) w = (r, w')" using w(2) by (metis prod.collapse)
  from p show ?thesis
  proof (cases rule: perform_cases)
    case 3
    have "is_list_entry (ent (redis w) DLQ)" using w(1) by (simp add: stores_agree_def queue_keys_def)
    with lrange [of "redis w" DLQ "n - 1" "i_time i"] 3(2) assms(2)
    have "r = Rep (RArr (map (\<lambda>x. RBulk (VStr x)) (take (nat (n - 1) + 1) (list_of (ent (redis w) DLQ)))))"
      by (simp add: redis_serve del: serve.simps)
    then have "as_strs r = take (nat (n - 1) + 1) (list_of (ent (redis w) DLQ))" by (simp add: comp_def)
    then show ?thesis using assms(2) by simp
  qed (cases r; simp)+
qed

end

lemma reads_errors [simp]:
  "reads_as f (error_handler (Framework st m)) = None" "reads_as f (error_handler (Validation m)) = None"
  "reads_as f (error_handler (Raised (Failure m))) = None"
  by (simp_all add: reads_as_def api_request_def sent_back_def)

lemma reads_lists [simp]:
  "reads_as (read_list ''jobs'' read_job) \<lparr>rs_status = 200, rs_body = counted ''jobs'' (map job_json js)\<rparr> = Some js"
  "reads_as (read_list ''webhooks'' read_webhook)
     \<lparr>rs_status = 200, rs_body = JObj [(''webhooks'', JArr (map (\<lambda>w. JObj (webhook_fields w)) ws))]\<rparr> = Some ws"
  by (simp_all add: reads_as_def api_request_def sent_back_def read_list_def counted_def read_job_inverse read_webhook_inverse all_some_inverse)

lemma answered_withD:
  assumes "answered_with exec ent validate f u x" and "arrives (call_of u) = Some (use_route u, rq)"
    and "\<And>protocol_of rq'. check_request validate (use_route u) rq = Inr rq' \<Longrightarrow>
      wp (handle protocol_of (use_route u) rq') (\<lambda>tr res. (\<forall>ev \<in> set tr. real_reply exec ent ev) \<longrightarrow> (\<forall>x. reads_as f res = Some x \<longrightarrow> P x))
        (\<lambda>tr e. \<exists>m. e = Failure m) (\<lambda>_ _. True) []"
  shows "P x"
proof -
  obtain protocol_of rs tr res where p: "play (respond protocol_of validate (use_route u) rq) rs = (tr, Done res)"
    "\<forall>ev \<in> set tr. real_reply exec ent ev" "reads_as f res = Some x"
    using assms(1,2) by (auto simp: answered_with_def)
  have "wp (respond protocol_of validate (use_route u) rq)
      (\<lambda>tr res. (\<forall>ev \<in> set tr. real_reply exec ent ev) \<longrightarrow> (\<forall>x. reads_as f res = Some x \<longrightarrow> P x)) (\<lambda>_ _. True) (\<lambda>_ _. True) []"
    by (rule wp_respond, simp del: error_handler.simps, simp del: error_handler.simps, rule wp_mono [OF assms(3)], assumption)
      (auto simp del: error_handler.simps)
  from wp_done [OF this p(1)] p(2,3) show ?thesis by blast
qed

lemma answered_jobs:
  assumes "answered_with exec ent validate (read_list ''jobs'' read_job) (Use_listJobs tn st n) js"
  shows "\<forall>j \<in> set js. uuid_text (j_id j)"
proof -
  obtain rq where "arrives (call_of (Use_listJobs tn st n)) = Some (use_route (Use_listJobs tn st n), rq)"
    using assms by (auto simp: answered_with_def)
  with assms show ?thesis
    by (rule answered_withD)
      (auto simp: wp_simps get_jobs_def list_jobs_def find_jobs_of_def ok_def toJob_def dest!: real_ids(1))
qed

lemma answered_webhooks:
  assumes "answered_with exec ent validate (read_list ''webhooks'' read_webhook) (Use_listWebhooks tn) ws"
  shows "\<forall>w \<in> set ws. uuid_text (w_id w)"
proof -
  obtain rq where "arrives (call_of (Use_listWebhooks tn)) = Some (use_route (Use_listWebhooks tn), rq)"
    using assms by (auto simp: answered_with_def)
  with assms show ?thesis
    by (rule answered_withD)
      (auto simp: wp_simps get_webhooks_def list_webhooks_def find_webhooks_of_def ok_def toWebhook_def dest!: real_ids(2))
qed

lemma map_filter_found: "j \<in> set (List.map_filter g ids) \<Longrightarrow> \<exists>i. g i = Some j"
  by (auto simp: List.map_filter_def)

lemma found_by_id:
  assumes "\<forall>row \<in> set rows. uuid_text (jr_id row)"
  shows "\<forall>j \<in> set (List.map_filter (map_of (rev (map (\<lambda>row. (jr_id row, toJob row)) rows))) ids). uuid_text (j_id j)"
proof
  fix j
  assume "j \<in> set (List.map_filter (map_of (rev (map (\<lambda>row. (jr_id row, toJob row)) rows))) ids)"
  then obtain i where "map_of (rev (map (\<lambda>row. (jr_id row, toJob row)) rows)) i = Some j" using map_filter_found by fast
  then have "(i, j) \<in> set (rev (map (\<lambda>row. (jr_id row, toJob row)) rows))" by (rule map_of_SomeD)
  then show "uuid_text (j_id j)" using assms by (auto simp: toJob_def)
qed

lemma map_filter_length: "length (List.map_filter g ids) \<le> length ids"
  by (simp add: List.map_filter_def)

context redis_server
begin

lemma answered_dlq:
  assumes "validator validate" and "1 \<le> n" and "n \<le> 500"
    and "answered_with exec ent validate (read_list ''jobs'' read_job) (Use_listDlq n) js"
  shows "(\<forall>j \<in> set js. uuid_text (j_id j)) \<and> length js \<le> nat n"
proof -
  obtain rq where rq: "arrives (call_of (Use_listDlq n)) = Some (use_route (Use_listDlq n), rq)"
    using assms(4) by (auto simp: answered_with_def)
  have limit: "the_default 100 (num_of (field ''limit'' (rq_query rq'))) = n" if "check_request validate Get_dlq rq = Inr rq'" for rq'
    using client_use_accepted [OF assms(1), of "Use_listDlq n"] assms(2,3) rq that by auto
  have len: "length (List.map_filter g (as_strs r)) \<le> nat n" if "real_reply exec ent (RCmd (Lrange DLQ 0 (n - 1)), r)" for r and g :: "string \<Rightarrow> job option"
    using order_trans [OF map_filter_length real_range [OF that assms(2)]] .
  show ?thesis
    by (rule answered_withD [where P = "\<lambda>js. (\<forall>j \<in> set js. uuid_text (j_id j)) \<and> length js \<le> nat n", OF assms(4) rq])
      (auto intro: len simp: wp_simps get_dlq_def listDlq_def peekDlq_def findByIds_def ok_def limit
        dest!: real_ids(1) found_by_id [THEN bspec, rotated])
qed

end

section \<open>What the page sends\<close>

definition inputs_ok :: "app \<Rightarrow> bool" where
  "inputs_ok a \<longleftrightarrow> (\<forall>u \<in> set (pl_flight (ap_jobs a)). \<exists>tn st. u = Use_listJobs tn st (Some 100)) \<and>
     (\<forall>u \<in> set (pl_flight (ap_dlq a)). u = Use_listDlq 200) \<and>
     (ep_webhookId a \<noteq> [] \<longrightarrow> uuid_text (ep_webhookId a)) \<and> (\<forall>w \<in> set (ep_webhooks a). uuid_text (w_id w)) \<and>
     (\<forall>j \<in> set (jobs_shown a) \<union> set (dlq_shown a). uuid_text (j_id j)) \<and> length (dlq_shown a) \<le> 200"

lemma uuid_not_empty: "\<not> uuid_text []"
  by (simp add: uuid_text_def)


text \<open>The requests that the page makes, but for what was typed.\<close>

fun made_ok :: "api_use \<Rightarrow> bool" where
  "made_ok Use_stats \<longleftrightarrow> True"
| "made_ok (Use_listJobs tn st n) \<longleftrightarrow> n = Some 100"
| "made_ok (Use_getJob i) \<longleftrightarrow> uuid_text i"
| "made_ok (Use_getAttempts i) \<longleftrightarrow> uuid_text i"
| "made_ok (Use_listDlq n) \<longleftrightarrow> n = 200"
| "made_ok (Use_replayDlq n) \<longleftrightarrow> 1 \<le> n \<and> n \<le> 200"
| "made_ok (Use_listWebhooks tn) \<longleftrightarrow> True"
| "made_ok (Use_enqueueEvent tn w e p) \<longleftrightarrow> uuid_text w"

text \<open>What was typed is within the API's limits: not empty, and in an event at most 128 characters.\<close>

fun text_fits :: "api_use \<Rightarrow> bool" where
  "text_fits (Use_listJobs tn st n) \<longleftrightarrow> tn \<noteq> []"
| "text_fits (Use_listWebhooks tn) \<longleftrightarrow> tn \<noteq> []"
| "text_fits (Use_enqueueEvent tn w e p) \<longleftrightarrow> tn \<noteq> [] \<and> length tn \<le> 128 \<and> e \<noteq> [] \<and> length e \<le> 128"
| "text_fits _ \<longleftrightarrow> True"

lemma made_fits: "made_ok u \<Longrightarrow> text_fits u \<Longrightarrow> use_ok u"
  by (cases u) auto

lemma refused_use:
  assumes "text_validator validate" and "arrives (call_of u) = Some (use_route u, rq)"
    and "route_schema (use_route u) = Some s" and "checked_part (use_route u) rq = JObj fs" and "rq_parse rq = None"
    and "map_of (sc_props s) k = Some (PString lo hi)" and "map_of fs k = Some (JStr t)" and "\<not> prop_ok (PString lo hi) (JStr t)"
  shows "\<exists>rq m. arrives (call_of u) = Some (use_route u, rq) \<and>
    (\<forall>protocol_of rs. play (respond protocol_of validate (use_route u) rq) rs = ([], Done (error_handler (Validation m))))"
  using text_validator.refuses_text [OF assms(1,6-8)] assms(2-5) by (auto simp: respond_def check_request_def)

lemma misfit_refused:
  assumes "text_validator validate" and "\<not> text_fits u"
  shows "\<exists>rq m. arrives (call_of u) = Some (use_route u, rq) \<and>
    (\<forall>protocol_of rs. play (respond protocol_of validate (use_route u) rq) rs = ([], Done (error_handler (Validation m))))"
proof (cases u)
  case (Use_listJobs tn st n)
  show ?thesis unfolding Use_listJobs
    by (rule refused_use [OF assms(1), where k = "''tenant''"])
      (use assms(2) in \<open>auto simp: Use_listJobs arrive_code schema_defs\<close>)
next
  case (Use_listWebhooks tn)
  show ?thesis unfolding Use_listWebhooks
    by (rule refused_use [OF assms(1), where k = "''tenant''"])
      (use assms(2) in \<open>auto simp: Use_listWebhooks arrive_code schema_defs\<close>)
next
  case (Use_enqueueEvent tn w e p)
  consider "tn = [] \<or> 128 < length tn" | "e = [] \<or> 128 < length e" using assms(2) Use_enqueueEvent by fastforce
  then show ?thesis
  proof cases
    case 1
    then have l: "\<not> prop_ok (PString 1 (Some 128)) (JStr tn)" by auto
    show ?thesis unfolding Use_enqueueEvent
      by (rule refused_use [OF assms(1) _ _ _ _ _ _ l, where k = "''tenant''"]) (auto simp: arrive_code schema_defs)
  next
    case 2
    then have l: "\<not> prop_ok (PString 1 (Some 128)) (JStr e)" by auto
    show ?thesis unfolding Use_enqueueEvent
      by (rule refused_use [OF assms(1) _ _ _ _ _ _ l, where k = "''eventType''"]) (auto simp: arrive_code schema_defs)
  qed
qed (use assms(2) in simp_all)

lemma inputs_step:
  assumes "redis_server exec ent" and "validator validate"
    and "inputs_ok a" and "possible b a ev" and "served exec ent validate a ev"
  shows "inputs_ok (snd (app_step ev a)) \<and> list_all made_ok (fst (app_step ev a))"
proof (cases ev)
  case (Ui e)
  note p = possible_ui [OF assms(4) [unfolded Ui]]
  show ?thesis unfolding Ui using assms(3) p Ui
    by (cases e) (auto simp: inputs_ok_def effect_defs Let_def jobs_use_def jobs_shown_def dlq_shown_def
        Suc_le_eq split: option.splits if_splits)
next
  case (Jobs_done n res)
  have "\<exists>tn st. pl_flight (ap_jobs a) ! n = Use_listJobs tn st (Some 100)"
    using assms(3,4) Jobs_done by (auto simp: inputs_ok_def)
  then have "\<forall>j \<in> set js. uuid_text (j_id j)" if "res = Inr js" for js
    using assms(5) that answered_jobs by (fastforce simp: Jobs_done)
  with assms(3) Jobs_done show ?thesis
    by (cases res) (auto simp: inputs_ok_def effect_defs jobs_shown_def dlq_shown_def dest: in_drop_nth)
next
  case (Dlq_done n res)
  have "pl_flight (ap_dlq a) ! n = Use_listDlq 200"
    using assms(3,4) Dlq_done by (auto simp: inputs_ok_def)
  then have "(\<forall>j \<in> set js. uuid_text (j_id j)) \<and> length js \<le> nat 200" if "res = Inr js" for js
    using assms(5) that redis_server.answered_dlq [OF assms(1,2), of 200 js] by (simp add: Dlq_done)
  with assms(3) Dlq_done show ?thesis
    by (cases res) (auto simp: inputs_ok_def effect_defs jobs_shown_def dlq_shown_def dest: in_drop_nth)
next
  case (Webhooks_done n res)
  have "\<forall>w \<in> set ws. uuid_text (w_id w)" if "res = Inr ws" for ws
    using assms(5) that answered_webhooks by (fastforce simp: Webhooks_done)
  with assms(3) Webhooks_done show ?thesis
    by (cases res) (auto simp: inputs_ok_def effect_defs jobs_shown_def dlq_shown_def Let_def split: list.splits)
qed (use assms(3) in \<open>auto simp: inputs_ok_def effect_defs Let_def jobs_use_def jobs_shown_def dlq_shown_def
    dest: in_drop_nth split: sum.splits\<close>)

lemma inputs_mounted: "inputs_ok (snd mounted) \<and> list_all made_ok (fst mounted)"
  by (simp add: inputs_ok_def mounted_def first_render_def effect_defs poll_init_def jobs_use_def jobs_shown_def dlq_shown_def)

lemma visit_inputs:
  assumes "redis_server exec ent" and "validator validate" and "visit (served exec ent validate) out a"
  shows "inputs_ok a \<and> list_all made_ok out"
  by (rule visit_keeps [OF assms(3)]) (use inputs_mounted inputs_step [OF assms(1,2)] in blast)+

lemma visit_drawer: "visit honest_attempts out a \<Longrightarrow> drawer_ok a"
  by (erule visit_keeps [where P = "\<lambda>_. True", THEN conjunct1])
    (simp_all add: drawer_ok_def mounted_def first_render_def effect_defs list_all_iff drawer_step [unfolded drawer_ok_def])

lemma visit_timers: "visit okay out a \<Longrightarrow> timers_ok a"
  by (erule visit_keeps [where P = "\<lambda>_. True", THEN conjunct1])
    (simp_all add: timers_mounted timers_step list_all_iff)

section \<open>The replay on the other side\<close>


section \<open>Example visits\<close>

definition plain_browser :: browser where
  "plain_browser = \<lparr>clock = 0, localeString = (\<lambda>_. []), localeTime = (\<lambda>_. []), indented = (\<lambda>t. t)\<rparr>"

definition zero_id :: string where
  "zero_id = ''00000000-0000-0000-0000-000000000000''"

definition dead_job :: job where
  "dead_job = \<lparr>j_id = zero_id, j_tenant = ''acme'', j_webhookId = zero_id, j_eventType = ''e'', j_payload = ''{}'',
     j_state = Dead, j_attempts = 5, j_maxAttempts = 5, j_runAt = 0, j_lastError = None, j_createdAt = 0\<rparr>"

definition some_attempt :: "string \<Rightarrow> attempt_view" where
  "some_attempt i = \<lparr>a_jobId = i, a_attemptNumber = 1, a_statusCode = Some 503, a_responseBody = None, a_error = None,
     a_durationMs = 7, a_attemptedAt = 9\<rparr>"

lemma zero_uuid: "uuid_text zero_id"
  by code_simp

definition stored_row :: "string \<Rightarrow> job_state \<Rightarrow> job_row" where
  "stored_row i st = \<lparr>jr_id = i, jr_tenant = ''acme'', jr_webhookid = zero_id, jr_eventtype = ''e'', jr_payload = ''{}'',
     jr_state = st, jr_attempts = 5, jr_maxattempts = 5, jr_runat = 0, jr_lasterror = None, jr_createdat = 0, jr_updatedat = 0\<rparr>"

definition two_jobs :: "keyspace world" where
  "two_jobs = \<lparr>redis = (\<lambda>_. None), tables = \<lparr>webhooks_t = [], jobs_t = [stored_row ''j1'' Succeeded, stored_row zero_id Dead], attempts_t = [], jsonb = Some\<rparr>\<rparr>"

definition calm_input :: input where
  "calm_input = \<lparr>i_time = 0, i_clock = 0, i_random = 0, i_uuid = [], i_bytes = [], i_status = None, i_text = None,
     i_uptime = 0, i_fault = NoFault\<rparr>"

lemmas example_defs = mounted_def first_render_def effect_defs poll_init_def jobs_use_def jobs_shown_def dlq_shown_def

lemma row_visit:
  "visit honest_attempts (fst (tour [Jobs_done 0 (Inr [dead_job]), Ui (Click_row dead_job), Attempts_done 0 (Inr [some_attempt zero_id])] mounted))
     (snd (tour [Jobs_done 0 (Inr [dead_job]), Ui (Click_row dead_job), Attempts_done 0 (Inr [some_attempt zero_id])] mounted))"
  by (rule tour_visit [OF visit.opened, of _ plain_browser])
    (simp add: example_defs possible_row dead_job_def some_attempt_def del: possible.simps(1))

text \<open>A world with one dead job, which answers the dead-letter list with it.\<close>

definition dead_world :: "keyspace world" where
  "dead_world = \<lparr>redis = server_with (empty_queue\<lparr>dlq := [zero_id]\<rparr>), tables = \<lparr>webhooks_t = [sample_webhook\<lparr>wr_id := zero_id\<rparr>],
     jobs_t = [stored_row zero_id Dead], attempts_t = [], jsonb = Some\<rparr>\<rparr>"

lemma dead_world_real: "fst (perform mem_exec i c dead_world) = r \<Longrightarrow> real_reply mem_exec (\<lambda>e. e) (c, r)"
proof -
  have "stores_agree (\<lambda>e. e) dead_world"
    by (simp add: dead_world_def stores_agree_def db_wf_def row_ids_def stored_row_def empty_queue_def queue_wf_def queue_ids_def zwf_def)
  moreover have "uuid_ids (tables dead_world)"
    by (simp add: dead_world_def uuid_ids_def stored_row_def zero_uuid)
  ultimately show "fst (perform mem_exec i c dead_world) = r \<Longrightarrow> real_reply mem_exec (\<lambda>e. e) (c, r)"
    by (auto simp: real_reply_def)
qed

lemma dlq_answer: "answered_with mem_exec (\<lambda>e. e) ref_validate (read_list ''jobs'' read_job) (Use_listDlq 200) [dead_job]"
proof -
  let ?rq = "plain_get [] [(''limit'', ''200'')]"
  let ?r1 = "Rep (RArr [RBulk (VStr zero_id)])" and ?r2 = "JobRows [stored_row zero_id Dead]"
  let ?res = "\<lparr>rs_status = 200, rs_body = counted ''jobs'' (map job_json [dead_job])\<rparr>"
  let ?tr = "[(RCmd (Lrange DLQ 0 199), ?r1), (Sql (SelectJobsAny [zero_id]), ?r2)]"
  have "show_int 200 = ''200''" by code_simp
  then have a: "arrives (call_of (Use_listDlq 200)) = Some (Get_dlq, ?rq)"
    by (simp add: arrive_code plain_get_def)
  have v: "check_request ref_validate Get_dlq ?rq = Inr (?rq\<lparr>rq_query := JObj [(''limit'', JNum 200)]\<rparr>)"
    by code_simp
  have "toJob (stored_row zero_id Dead) = dead_job" by (simp add: toJob_def stored_row_def dead_job_def)
  then have p: "play (respond (\<lambda>_. None) ref_validate Get_dlq ?rq) [?r1, ?r2] = (?tr, Done ?res)"
    using v by (simp add: respond_def plain_get_def get_dlq_def listDlq_def peekDlq_def findByIds_def await_def ok_def
        List.map_filter_def stored_row_def)
  have "fst (perform mem_exec calm_input (RCmd (Lrange DLQ 0 199)) dead_world) = ?r1" by code_simp
  moreover have "fst (perform mem_exec calm_input (Sql (SelectJobsAny [zero_id])) dead_world) = ?r2"
    by (simp add: perform_def calm_input_def dead_world_def sql_select_jobs_any_def stored_row_def)
  ultimately have "\<forall>ev \<in> set ?tr. real_reply mem_exec (\<lambda>e. e) ev" by (auto intro: dead_world_real)
  moreover have "reads_as (read_list ''jobs'' read_job) ?res = Some [dead_job]" by (rule reads_lists)
  ultimately show ?thesis using a p unfolding answered_with_def by (intro exI [of _ "\<lambda>_. None"] exI [of _ ?rq] exI [of _ "[?r1, ?r2]"] exI [of _ ?tr] exI [of _ ?res]) simp
qed

definition dlq_tour :: "happening list" where
  "dlq_tour = [Ui (Click_tab Dlq_tab), Dlq_done 0 (Inr [dead_job]), Ui (Type_tenant [])]"

lemma dlq_visit: "visit (served mem_exec (\<lambda>e. e) ref_validate) (fst (tour dlq_tour mounted)) (snd (tour dlq_tour mounted))"
  unfolding dlq_tour_def
  by (rule tour_visit [OF visit.opened, of _ plain_browser])
    (simp add: example_defs possible_tab possible_tenant dlq_answer del: possible.simps(1))

text \<open>A world with jobs of two tenants, made at different times.\<close>

definition dated_row :: "string \<Rightarrow> string \<Rightarrow> ms \<Rightarrow> job_row" where
  "dated_row i tn t = (stored_row i Dead)\<lparr>jr_tenant := tn, jr_createdat := t\<rparr>"

definition dated_jobs :: "keyspace world" where
  "dated_jobs = \<lparr>redis = (\<lambda>_. None), tables = \<lparr>webhooks_t = [],
     jobs_t = [dated_row ''old'' ''acme'' 5, dated_row ''new'' ''acme'' 9, dated_row ''other'' ''beta'' 12, stored_row ''done'' Succeeded],
     attempts_t = [], jsonb = Some\<rparr>\<rparr>"

section \<open>What a listing is\<close>

text \<open>The newest \<open>n\<close> of some rows: \<open>n\<close> of them or all, newest first, and none left out that is newer than
  one that is in.\<close>

definition newest :: "nat \<Rightarrow> job_row list \<Rightarrow> job_row list \<Rightarrow> bool" where
  "newest n hits rows \<longleftrightarrow> mset rows \<subseteq># mset hits \<and> length rows = min n (length hits) \<and>
     sorted_wrt (\<lambda>a b. jr_createdat b \<le> jr_createdat a) rows \<and>
     (\<forall>a \<in># mset hits - mset rows. \<forall>b \<in> set rows. jr_createdat a \<le> jr_createdat b)"

lemma sorted_newest: "newest n hits (take n (sort_key (\<lambda>row. - jr_createdat row) hits))"
proof -
  let ?xs = "sort_key (\<lambda>row. - jr_createdat row) hits"
  have m: "mset hits = mset (take n ?xs) + mset (drop n ?xs)"
    by (metis append_take_drop_id mset_append mset_sort)
  have "sorted_wrt (\<lambda>a b. jr_createdat b \<le> jr_createdat a) ?xs"
    using sorted_sort_key [of "\<lambda>row. - jr_createdat row" hits] by (simp add: sorted_wrt_map)
  then have "sorted_wrt (\<lambda>a b. jr_createdat b \<le> jr_createdat a) (take n ?xs @ drop n ?xs)" by simp
  then have "sorted_wrt (\<lambda>a b. jr_createdat b \<le> jr_createdat a) (take n ?xs)"
    "\<forall>b \<in> set (take n ?xs). \<forall>a \<in> set (drop n ?xs). jr_createdat a \<le> jr_createdat b"
    unfolding sorted_wrt_append by blast+
  with m show ?thesis by (auto simp: newest_def)
qed

section \<open>Properties\<close>

text \<open>C31: What the dashboard sends is served, or refused with a reason. In every visit, whatever users type
  and do, every request that a control, a timer or an answer sets off gets through the proxy to the
  route it is meant for. If the typed texts it carries are within the API's limits (a tenant that is
  not empty; in an event, tenant and type of 1 to 128 characters), it passes the route's schema and is
  read by the handler as it was meant; if not, it is answered with 400 and \<open>VALIDATION_ERROR\<close>, and no
  store is asked. The server's answers in between are any that it gives from stores that agree.\<close>

theorem dashboard_requests_are_served:
  assumes "redis_server exec ent" and "text_validator validate" and "visit (served exec ent validate) out a" and "u \<in> set out"
  shows "\<exists>rq. arrives (call_of u) = Some (use_route u, rq) \<and>
    (if text_fits u then \<exists>rq'. check_request validate (use_route u) rq = Inr rq' \<and> carried u rq'
     else \<exists>m. \<forall>protocol_of rs. play (respond protocol_of validate (use_route u) rq) rs =
       ([], Done \<lparr>rs_status = 400, rs_body = error_body m ''VALIDATION_ERROR''\<rparr>))"
proof -
  have v: "validator validate" using assms(2) by (simp add: text_validator_def)
  have u: "made_ok u" using visit_inputs [OF assms(1) v assms(3)] assms(4) by (simp add: list_all_iff)
  show ?thesis
  proof (cases "text_fits u")
    case True
    with client_use_accepted [OF v made_fits [OF u True]] show ?thesis by auto
  next
    case False
    with misfit_refused [OF assms(2) False] show ?thesis by auto
  qed
qed

theorem dashboard_requests_are_served_witness:
  "(\<exists>rq rq'. arrives (api_listDlq 200) = Some (Get_dlq, rq) \<and> check_request ref_validate Get_dlq rq = Inr rq' \<and>
     the_default 100 (num_of (field ''limit'' (rq_query rq'))) = 200) \<and>
   (\<exists>rq m. arrives (api_listJobs [] None (Some 100)) = Some (Get_jobs, rq) \<and>
     play (respond (\<lambda>_. None) ref_validate Get_jobs rq) [] = ([], Done \<lparr>rs_status = 400, rs_body = error_body m ''VALIDATION_ERROR''\<rparr>))"
proof -
  have "Use_listDlq 200 \<in> set (fst (tour dlq_tour mounted))" "Use_listJobs [] None (Some 100) \<in> set (fst (tour dlq_tour mounted))"
    by (simp_all add: dlq_tour_def example_defs)
  from this [THEN dashboard_requests_are_served [OF mem_server ref_text_validator dlq_visit]] show ?thesis by auto
qed

text \<open>C32: The drawer shows its own job. When every answer to a request for attempts has attempts of the
  job asked for, then in every visit, however jobs are opened and closed and in whatever order the
  answers arrive, the attempts in an open drawer are of the job it shows.\<close>

theorem drawer_shows_its_job:
  assumes "visit honest_attempts out a" and "ap_selected a = Some j" and "jd_attempts a = Some xs"
  shows "\<forall>x \<in> set xs. a_jobId x = j_id j"
  using visit_drawer [OF assms(1)] assms(2,3) by (simp add: drawer_ok_def)

theorem drawer_shows_its_job_witness:
  "jd_attempts (snd (tour [Jobs_done 0 (Inr [dead_job]), Ui (Click_row dead_job), Attempts_done 0 (Inr [some_attempt zero_id])] mounted))
     = Some [some_attempt zero_id] \<and> a_jobId (some_attempt zero_id) = j_id dead_job"
proof -
  let ?a = "snd (tour [Jobs_done 0 (Inr [dead_job]), Ui (Click_row dead_job), Attempts_done 0 (Inr [some_attempt zero_id])] mounted)"
  have "ap_selected ?a = Some dead_job" and xs: "jd_attempts ?a = Some [some_attempt zero_id]"
    by (simp_all add: example_defs)
  from drawer_shows_its_job [OF row_visit this] xs show ?thesis by simp
qed

text \<open>Paused is paused: in every visit the three intervals run exactly while the switch says so, the
  dead-letter one only on its tab; a paused dashboard sends requests only for what the user does
  and for the answers to that.\<close>

theorem paused_is_paused:
  assumes "visit okay out a"
  shows "pl_timer (ap_stats a) = ap_live a \<and> pl_timer (ap_jobs a) = ap_live a \<and>
    pl_timer (ap_dlq a) = (ap_live a \<and> ap_tab a = Dlq_tab)"
  using visit_timers [OF assms] by (simp add: timers_ok_def dlq_enabled_def)



text \<open>After a change of tenant the producer still sends the webhook of the old one: the list is
  replaced, the chosen id is kept (\<open>prev || ...\<close>). With honest answers the button sends an event of
  the new tenant to a webhook that is not in its list; \<open>getOwnedBy\<close> then refuses it.\<close>

definition hook :: "string \<Rightarrow> string \<Rightarrow> webhook" where
  "hook tn i = \<lparr>w_id = i, w_tenant = tn, w_url = ''http://h/'', w_isActive = True, w_createdAt = 0\<rparr>"

theorem producer_keeps_the_old_webhook:
  "let evs = [Webhooks_done 0 (Inr [hook ''acme'' ''w1'']), Ui (Type_tenant ''beta''), Webhooks_done 0 (Inr [hook ''beta'' ''w2'']),
       Ui (Click_enqueue ''{}'')]
   in visit (\<lambda>_ _. True) (fst (tour evs mounted)) (snd (tour evs mounted)) \<and>
      last (fst (tour evs mounted)) = Use_enqueueEvent ''beta'' ''w1'' ''order.created'' ''{}'' \<and>
      map w_id (ep_webhooks (snd (tour evs mounted))) = [''w2'']"
proof -
  let ?evs = "[Webhooks_done 0 (Inr [hook ''acme'' ''w1'']), Ui (Type_tenant ''beta''), Webhooks_done 0 (Inr [hook ''beta'' ''w2'']),
       Ui (Click_enqueue ''{}'')]"
  have "tour_ok (\<lambda>_ _. True) plain_browser ?evs (snd mounted)"
    by (simp add: example_defs possible_tenant possible_enqueue hook_def drop_nth_def del: possible.simps(1))
  from tour_visit [OF visit.opened this] show ?thesis
    by (simp add: example_defs hook_def drop_nth_def)
qed

text \<open>And the answers of two requests for webhooks may cross: the effect has no clean-up, so the last
  answer wins, and the panel lists, and picks, the webhooks of a tenant that is no longer chosen.
  The jobs table does the same.\<close>

theorem late_answers_win:
  "let evs = [Ui (Type_tenant ''beta''), Jobs_done 1 (Inr []), Jobs_done 0 (Inr [dead_job])];
       a = snd (tour evs mounted)
   in visit (\<lambda>_ _. True) (fst (tour evs mounted)) a \<and> ap_tenant a = ''beta'' \<and> map j_tenant (jobs_shown a) = [''acme'']"
proof -
  let ?evs = "[Ui (Type_tenant ''beta''), Jobs_done 1 (Inr []), Jobs_done 0 (Inr [dead_job])]"
  have "tour_ok (\<lambda>_ _. True) plain_browser ?evs (snd mounted)"
    by (simp add: example_defs possible_tenant drop_nth_def del: possible.simps(1))
  from tour_visit [OF visit.opened this] show ?thesis
    by (simp add: example_defs dead_job_def drop_nth_def)
qed

text \<open>"Replay all" need not be a replay of what is shown: the panel lists the newest dead jobs, the replay
  takes the oldest. They are the same jobs only while all of them fit on the screen.\<close>

theorem replay_takes_the_other_end:
  "let w = two_jobs\<lparr>redis := server_with (empty_queue\<lparr>dlq := [''newest'', ''oldest'']\<rparr>)\<rparr>
   in snd (fst (run mem_exec (peekDlq 1) [calm_input] w)) = Done [''newest''] \<and>
      snd (fst (run mem_exec popDlq [calm_input] w)) = Done (Some ''oldest'')"
  by code_simp

text \<open>C33: The list of jobs, end to end. With the stores up, the request of the dashboard's client for the
  jobs of a tenant, all of them or those in one state, is answered, and the client reads the newest
  \<open>n\<close> of the rows of that tenant, and of that state if one is named: no row of another tenant or state,
  as many as there are up to \<open>n\<close>, newest first, and none left out that is newer than one listed.\<close>

theorem listing_end_to_end:
  assumes "validator validate" and "tenant \<noteq> []" and "storable tenant" and "1 \<le> n" and "n \<le> 200" and "i_fault i = NoFault"
  shows "\<exists>rq res rows. arrives (api_listJobs tenant state (Some n)) = Some (Get_jobs, rq) \<and>
    snd (fst (run exec (respond protocol_of validate Get_jobs rq) [i] w)) = Done res \<and>
    reads_as (read_list ''jobs'' read_job) res = Some (map toJob rows) \<and>
    newest (nat n) [row \<leftarrow> jobs_t (tables w). jr_tenant row = tenant \<and> (state = None \<or> state = Some (jr_state row))] rows"
proof -
  let ?u = "Use_listJobs tenant state (Some n)"
  let ?hits = "[row \<leftarrow> jobs_t (tables w). jr_tenant row = tenant \<and> (state = None \<or> state = Some (jr_state row))]"
  let ?rows = "take (nat n) (sort_key (\<lambda>row. - jr_createdat row) ?hits)"
  from client_use_accepted [OF assms(1), of ?u] assms(2,4,5)
  obtain rq rq' where rq: "arrives (api_listJobs tenant state (Some n)) = Some (Get_jobs, rq)"
    "check_request validate Get_jobs rq = Inr rq'" "carried ?u rq'" by auto
  have st: "(case text_of (field ''state'' (rq_query rq')) of None \<Rightarrow> None | Some s \<Rightarrow> state_of s) = state"
    using rq(3) by (cases "text_of (field ''state'' (rq_query rq'))") auto
  have "rq_parse rq = None" using rq(1) by (auto simp: arrives_def split: option.splits)
  moreover have "sql_select_jobs_where tenant state n (tables w) = (JobRows ?rows, tables w)"
    using assms(3) by (cases state) (auto simp: sql_select_jobs_where_def Let_def eq_commute)
  ultimately have "snd (fst (run exec (respond protocol_of validate Get_jobs rq) [i] w)) =
      Done \<lparr>rs_status = 200, rs_body = counted ''jobs'' (map job_json (map toJob ?rows))\<rparr>"
    using rq assms(4,6) by (simp add: respond_def get_jobs_def st Let_def list_jobs_def find_jobs_of_def await_def perform_def ok_def)
  with rq(1) sorted_newest [of "nat n" ?hits] reads_lists(1) show ?thesis by blast
qed

theorem listing_end_to_end_witness:
  "\<exists>rq res. arrives (api_listJobs ''acme'' (Some Dead) (Some 1)) = Some (Get_jobs, rq) \<and>
    snd (fst (run mem_exec (respond (\<lambda>_. None) ref_validate Get_jobs rq) [calm_input] dated_jobs)) = Done res \<and>
    reads_as (read_list ''jobs'' read_job) res = Some [toJob (dated_row ''new'' ''acme'' 9)]"
proof -
  let ?old = "dated_row ''old'' ''acme'' 5" and ?new = "dated_row ''new'' ''acme'' 9"
  have h: "[row \<leftarrow> jobs_t (tables dated_jobs). jr_tenant row = ''acme'' \<and> (Some Dead = None \<or> Some Dead = Some (jr_state row))] = [?old, ?new]"
    by (simp add: dated_jobs_def dated_row_def stored_row_def)
  have "storable ''acme''" by (simp add: storable_def)
  from listing_end_to_end [OF ref_validator _ this, where n = 1 and i = calm_input and state = "Some Dead"
      and protocol_of = "\<lambda>_. None" and exec = mem_exec and w = dated_jobs, unfolded h]
  obtain rq res rows where r: "arrives (api_listJobs ''acme'' (Some Dead) (Some 1)) = Some (Get_jobs, rq)"
    "snd (fst (run mem_exec (respond (\<lambda>_. None) ref_validate Get_jobs rq) [calm_input] dated_jobs)) = Done res"
    "reads_as (read_list ''jobs'' read_job) res = Some (map toJob rows)" and n: "newest 1 [?old, ?new] rows"
    by (auto simp: calm_input_def)
  have d: "?old \<noteq> ?new" "jr_createdat ?old = 5" "jr_createdat ?new = 9" by (simp_all add: dated_row_def stored_row_def)
  obtain x where x: "rows = [x]" "x \<in># mset [?old, ?new]"
    using n by (auto simp: newest_def length_Suc_conv dest: mset_subset_eqD)
  have "x = ?new"
  proof (rule ccontr)
    assume "x \<noteq> ?new"
    with x have "rows = [?old]" by auto
    with n have "jr_createdat ?new \<le> jr_createdat ?old" by (simp add: newest_def)
    with d show False by simp
  qed
  with r x(1) show ?thesis by auto
qed

end
