(* ===== verification/Loadtest.thy ===== *)
theory Loadtest
  imports Api_Client Config "HOL-Library.AList"
begin

text \<open>
  The load test, \<open>src/scripts/loadtest.mjs\<close>: its receiver, the runner of bounded concurrency that
  posts the events, the loop that waits for the queue to drain, and the numbers it reports. The
  rounding of \<open>toFixed\<close> and the printing are left out; numbers are integers or exact rationals.
\<close>

section \<open>The receiver\<close>

text \<open>\<open>recvAt\<close> is a \<open>Map\<close>: its entries in the order in which they were first set.\<close>

record receiver =
  totalDeliveries :: nat
  recvAt :: "(string \<times> ms) list"

definition no_deliveries :: receiver where
  "no_deliveries = \<lparr>totalDeliveries = 0, recvAt = []\<rparr>"

definition receive :: "string option \<Rightarrow> ms \<Rightarrow> receiver \<Rightarrow> receiver" where
  "receive jobId now s =
     (let s = s\<lparr>totalDeliveries := totalDeliveries s + 1\<rparr>
      in case jobId of
           None \<Rightarrow> s
         | Some j \<Rightarrow> if j \<noteq> [] \<and> map_of (recvAt s) j = None then s\<lparr>recvAt := recvAt s @ [(j, now)]\<rparr> else s)"

primrec receive_all :: "(string option \<times> ms) list \<Rightarrow> receiver \<Rightarrow> receiver" where
  "receive_all [] s = s"
| "receive_all (q # qs) s = receive_all qs (receive (fst q) (snd q) s)"

section \<open>The pool\<close>

text \<open>One runner: at the head of its loop, waiting for the worker of an index, done, or rejected. The
  index is taken and the worker called in one turn of the event loop.\<close>

datatype runner = Looping | Busy nat | Returned | Broken

record pool_state =
  next_i :: nat
  runners :: "runner list"
  started :: "nat list"
  ended :: "nat list"

definition pool_start :: "nat \<Rightarrow> pool_state" where
  "pool_start concurrency = \<lparr>next_i = 0, runners = replicate concurrency Looping, started = [], ended = []\<rparr>"

text \<open>Runner \<open>r\<close> moves; \<open>fine\<close> says whether the worker it waits for resolves.\<close>

definition pool_move :: "nat \<Rightarrow> nat \<Rightarrow> bool \<Rightarrow> pool_state \<Rightarrow> pool_state" where
  "pool_move items r fine p =
     (case runners p ! r of
        Looping \<Rightarrow>
          if next_i p < items then
            p\<lparr>next_i := next_i p + 1, runners := (runners p)[r := Busy (next_i p)], started := started p @ [next_i p]\<rparr>
          else p\<lparr>runners := (runners p)[r := Returned]\<rparr>
      | Busy idx \<Rightarrow>
          if fine then p\<lparr>runners := (runners p)[r := Looping], ended := ended p @ [idx]\<rparr>
          else p\<lparr>runners := (runners p)[r := Broken]\<rparr>
      | _ \<Rightarrow> p)"

definition active :: "runner \<Rightarrow> bool" where
  "active x \<longleftrightarrow> x \<noteq> Returned \<and> x \<noteq> Broken"

inductive pool_run :: "nat \<Rightarrow> nat \<Rightarrow> nat \<Rightarrow> pool_state \<Rightarrow> bool" for items concurrency where
  begun: "pool_run items concurrency 0 (pool_start concurrency)"
| moved: "pool_run items concurrency n p \<Longrightarrow> r < length (runners p) \<Longrightarrow> active (runners p ! r) \<Longrightarrow>
    pool_run items concurrency (Suc n) (pool_move items r fine p)"

text \<open>\<open>await Promise.all(runners)\<close>.\<close>

definition pool_resolves :: "pool_state \<Rightarrow> bool" where
  "pool_resolves p \<longleftrightarrow> list_all (\<lambda>x. x = Returned) (runners p)"

definition pool_rejects :: "pool_state \<Rightarrow> bool" where
  "pool_rejects p \<longleftrightarrow> list_ex (\<lambda>x. x = Broken) (runners p)"

section \<open>What it posts\<close>

text \<open>The webhooks it registers and the events it sends; event \<open>n\<close> goes to webhook \<open>n % webhookIds.length\<close>,
  whose id is whatever the answer to its registration had as \<open>id\<close>. With no webhook at all the index is
  \<open>NaN\<close>; a missing id is left out of the text of the body.\<close>

definition load_tenant :: "ms \<Rightarrow> string" where
  "load_tenant now = ''loadtest-'' @ show_int now"

definition registration :: "string \<Rightarrow> int \<Rightarrow> json" where
  "registration tenant port =
     JObj [(''tenant'', JStr tenant), (''url'', JStr (''http://localhost:'' @ show_int port @ ''/hook''))]"

definition load_webhook :: "json option list \<Rightarrow> nat \<Rightarrow> json option" where
  "load_webhook webhookIds n = (if webhookIds = [] then None else webhookIds ! (n mod length webhookIds))"

definition load_event :: "string \<Rightarrow> json option list \<Rightarrow> nat \<Rightarrow> json" where
  "load_event tenant webhookIds n =
     JObj ([(''tenant'', JStr tenant)] @
       (case load_webhook webhookIds n of None \<Rightarrow> [] | Some w \<Rightarrow> [(''webhookId'', w)]) @
       [(''eventType'', JStr ''load.test''), (''payload'', JRaw (''{\"n\":'' @ show_nat n @ ''}''))])"

text \<open>\<open>post\<close>: what its promise rejects with, or the value it resolves to.\<close>

definition post :: "string \<Rightarrow> answer \<Rightarrow> string + json" where
  "post path a =
     (case a of
        No_answer m \<Rightarrow> Inl m
      | Answer status b \<Rightarrow>
          if \<not> (200 \<le> status \<and> status \<le> 299) then Inl (''POST '' @ path @ '' -> '' @ show_nat status)
          else (case b of None \<Rightarrow> Inl ''Unexpected token'' | Some v \<Rightarrow> Inr v))"

record load =
  enqueueLatencies :: "ms list"
  sentAt :: "(string \<times> ms) list"

text \<open>The worker of the pool, when its post has been answered: \<open>t0\<close> is the clock before it. A rejection
  (here none) rejects the worker, and so does an answer of \<open>null\<close>, which has no \<open>jobId\<close> to read.\<close>

definition posted :: "ms \<Rightarrow> ms \<Rightarrow> answer \<Rightarrow> load \<Rightarrow> load option" where
  "posted t0 now a s =
     (case post ''/events'' a of
        Inl m \<Rightarrow> None
      | Inr JNull \<Rightarrow> None
      | Inr v \<Rightarrow> Some \<lparr>enqueueLatencies = enqueueLatencies s @ [now - t0],
          sentAt = AList.update (the_default [] (text_of (field ''jobId'' v))) t0 (sentAt s)\<rparr>)"

section \<open>Waiting for the queue to drain\<close>

text \<open>\<open>recvAt.size >= N\<close>, with \<open>N\<close> as \<open>Number\<close> read it.\<close>

fun at_least :: "nat \<Rightarrow> jsnum \<Rightarrow> bool" where
  "at_least k (Num q) \<longleftrightarrow> q \<le> of_nat k"
| "at_least k (Infinite positive) \<longleftrightarrow> \<not> positive"
| "at_least k NaN \<longleftrightarrow> False"

text \<open>\<open>s.ready + s.inflight + s.delayed\<close>, as far as it may be a number: \<open>null\<close> and booleans count, with anything else
  the sum is a text or \<open>NaN\<close>, and not zero.\<close>

fun summand :: "json option \<Rightarrow> int option" where
  "summand (Some (JNum n)) = Some n"
| "summand (Some (JBool b)) = Some (if b then 1 else 0)"
| "summand (Some JNull) = Some 0"
| "summand _ = None"

definition outstanding :: "json \<Rightarrow> int option" where
  "outstanding s =
     (case (summand (field ''ready'' s), summand (field ''inflight'' s), summand (field ''delayed'' s)) of
        (Some a, Some b, Some c) \<Rightarrow> Some (a + b + c)
      | _ \<Rightarrow> None)"

text \<open>What one turn of the loop sees: what is outstanding, the jobs received so far, and the time.\<close>

record poll =
  p_outstanding :: "int option"
  p_received :: nat
  p_now :: ms

datatype drain_end = Drained | Timed_out | Waiting

definition drain_turn :: "jsnum \<Rightarrow> ms \<Rightarrow> poll \<Rightarrow> drain_end" where
  "drain_turn N drainStart s =
     (if p_outstanding s = Some 0 \<and> at_least (p_received s) N then Drained
      else if p_now s - drainStart > 120000 then Timed_out
      else Waiting)"

fun drain :: "jsnum \<Rightarrow> ms \<Rightarrow> poll list \<Rightarrow> drain_end" where
  "drain N drainStart [] = Waiting"
| "drain N drainStart (s # polls) =
     (case drain_turn N drainStart s of Waiting \<Rightarrow> drain N drainStart polls | e \<Rightarrow> e)"

section \<open>The numbers\<close>

definition percentile :: "int list \<Rightarrow> rat \<Rightarrow> int" where
  "percentile xs p =
     (if xs = [] then 0
      else let idx = min (int (length xs) - 1) \<lfloor>(p / 100) * of_nat (length xs)\<rfloor> in xs ! nat idx)"

record summary =
  s_n :: nat
  s_avg :: rat
  s_p50 :: int
  s_p95 :: int
  s_p99 :: int
  s_max :: int

text \<open>Without samples \<open>s[s.length - 1]\<close> is undefined, and its \<open>toFixed\<close> a \<open>TypeError\<close>.\<close>

definition summarize :: "int list \<Rightarrow> summary option" where
  "summarize samples =
     (let s = sort samples; total = sum_list s
      in if s = [] then None
         else Some \<lparr>s_n = length s, s_avg = of_int total / of_nat (length s),
           s_p50 = percentile s 50, s_p95 = percentile s 95, s_p99 = percentile s 99, s_max = s ! (length s - 1)\<rparr>)"

definition end_to_end :: "(string \<times> ms) list \<Rightarrow> (string \<times> ms) list \<Rightarrow> ms list" where
  "end_to_end sent_at received =
     List.map_filter (\<lambda>(jobId, sent). case map_of received jobId of
        None \<Rightarrow> None
      | Some recv \<Rightarrow> if recv \<noteq> 0 then Some (recv - sent) else None) sent_at"

definition dupes :: "receiver \<Rightarrow> int" where
  "dupes s = int (totalDeliveries s) - int (length (recvAt s))"

definition duplicate_percent :: "receiver \<Rightarrow> rat" where
  "duplicate_percent s = of_int (dupes s) / of_nat (max 1 (totalDeliveries s)) * 100"

section \<open>The receiver counts\<close>

definition keyed :: "(string option \<times> ms) list \<Rightarrow> (string \<times> ms) list" where
  "keyed qs = List.map_filter (\<lambda>(j, t). case j of None \<Rightarrow> None | Some j \<Rightarrow> if j = [] then None else Some (j, t)) qs"

lemma keyed_simps [simp]:
  "keyed [] = []" "keyed ((None, t) # qs) = keyed qs"
  "keyed ((Some j, t) # qs) = (if j = [] then keyed qs else (j, t) # keyed qs)"
  by (simp_all add: keyed_def List.map_filter_def)

text \<open>What the receiver has after more requests, in terms of what it had.\<close>

lemma receive_all_state:
  "totalDeliveries (receive_all qs s) = totalDeliveries s + length qs \<and>
   map_of (recvAt (receive_all qs s)) = map_of (keyed qs) ++ map_of (recvAt s) \<and>
   (distinct (map fst (recvAt s)) \<longrightarrow> distinct (map fst (recvAt (receive_all qs s))))"
proof (induction qs arbitrary: s)
  case (Cons q qs)
  obtain j t where q: "q = (j, t)" by (metis prod.exhaust)
  have "fst ` set (recvAt s) = dom (map_of (recvAt s))" by (simp add: dom_map_of_conv_image_fst)
  then show ?case using Cons [of "receive j t s"]
    by (cases j) (auto simp: q receive_def Let_def map_add_def fun_eq_iff domIff split: option.splits if_splits)
qed simp

lemma keyed_ids: "distinct (map fst (recvAt (receive_all qs no_deliveries)))"
    "fst ` set (recvAt (receive_all qs no_deliveries)) = fst ` set (keyed qs)"
    "map_of (recvAt (receive_all qs no_deliveries)) = map_of (keyed qs)"
    "totalDeliveries (receive_all qs no_deliveries) = length qs"
proof -
  note s = receive_all_state [of qs no_deliveries]
  show m: "map_of (recvAt (receive_all qs no_deliveries)) = map_of (keyed qs)" using s by (simp add: no_deliveries_def)
  show "fst ` set (recvAt (receive_all qs no_deliveries)) = fst ` set (keyed qs)"
    using arg_cong [OF m, of dom] by (simp add: dom_map_of_conv_image_fst)
qed (use receive_all_state [of qs no_deliveries] in \<open>simp_all add: no_deliveries_def\<close>)

lemma length_keyed: "list_all (\<lambda>q. \<exists>j. fst q = Some j \<and> j \<noteq> []) qs \<Longrightarrow> length (keyed qs) = length qs"
  by (induction qs) auto

lemma sum_repeats: "int (length xs) - int (card (set xs)) = (\<Sum>x \<in> set xs. int (count_list xs x) - 1)"
proof -
  have "(\<Sum>x \<in> set xs. int (count_list xs x)) = int (length xs)"
    by (metis List.finite_set of_nat_sum sum_count_set subset_refl)
  then show ?thesis by (simp add: sum_subtractf)
qed

section \<open>The pool keeps count\<close>

definition busy :: "runner list \<Rightarrow> nat list" where
  "busy rs = List.map_filter (\<lambda>x. case x of Busy i \<Rightarrow> Some i | _ \<Rightarrow> None) rs"

text \<open>The indices a runner holds for good: it was rejected on them.\<close>

definition pool_ok :: "nat \<Rightarrow> nat \<Rightarrow> pool_state \<Rightarrow> bool" where
  "pool_ok items concurrency p \<longleftrightarrow> length (runners p) = concurrency \<and> next_i p \<le> items \<and>
     started p = [0..<next_i p] \<and>
     (\<not> pool_rejects p \<longrightarrow> mset (ended p) + mset (busy (runners p)) = mset (started p)) \<and>
     (Returned \<in> set (runners p) \<longrightarrow> next_i p = items)"

lemma busy_simps [simp]:
  "busy [] = []" "busy (Busy i # rs) = i # busy rs" "busy (Looping # rs) = busy rs" "busy (Returned # rs) = busy rs"
  "busy (Broken # rs) = busy rs" "busy (rs @ rs') = busy rs @ busy rs'"
  by (simp_all add: busy_def List.map_filter_def)

lemma split_at: "r < length rs \<Longrightarrow> \<exists>as bs. rs = as @ rs ! r # bs \<and> (\<forall>x. rs[r := x] = as @ x # bs)"
  by (metis id_take_nth_drop upd_conv_take_nth_drop)

lemma pool_move_ok:
  assumes "pool_ok items c p" and "r < length (runners p)"
  shows "pool_ok items c (pool_move items r fine p)"
proof -
  obtain as bs where s: "runners p = as @ runners p ! r # bs" "\<And>x. (runners p)[r := x] = as @ x # bs"
    using split_at [OF assms(2)] by blast
  have l: "length (runners p) = Suc (length as + length bs)" by (subst s(1)) simp
  have rj: "list_ex (\<lambda>x. x = Broken) (runners p) \<longleftrightarrow> list_ex (\<lambda>x. x = Broken) (as @ runners p ! r # bs)"
    by (simp only: flip: s(1))
  have b: "busy (runners p) = busy (as @ runners p ! r # bs)" by (simp only: flip: s(1))
  have m: "Returned \<in> set (runners p) \<longleftrightarrow> Returned \<in> set (as @ runners p ! r # bs)" by (simp only: flip: s(1))
  show ?thesis using assms(1) l
    by (cases "runners p ! r")
      (auto simp: pool_ok_def pool_move_def s(2) rj b m pool_rejects_def)
qed

lemma pool_run_ok: "pool_run items c n p \<Longrightarrow> pool_ok items c p"
proof (induction rule: pool_run.induct)
  case begun
  have "busy (replicate c Looping) = []" by (induction c) auto
  then show ?case by (simp add: pool_ok_def pool_start_def)
next
  case (moved n p r fine)
  from moved.IH moved.hyps(2) show ?case by (rule pool_move_ok)
qed

text \<open>A pool with at least one runner that resolves has brought every item to its end once.\<close>

lemma busy_returned: "list_all (\<lambda>x. x = Returned) rs \<Longrightarrow> busy rs = []"
  by (induction rs) auto

lemma pool_ok_resolved:
  assumes "pool_ok items c p" and "0 < c" and "pool_resolves p"
  shows "started p = [0..<items] \<and> mset (ended p) = mset [0..<items]"
  using assms busy_returned [of "runners p"]
  by (cases "runners p") (auto simp: pool_ok_def pool_resolves_def pool_rejects_def list_all_iff list_ex_iff)

text \<open>Each move brings the pool nearer to its end.\<close>

fun runner_weight :: "runner \<Rightarrow> nat" where
  "runner_weight Looping = 1" | "runner_weight (Busy i) = 2" | "runner_weight _ = 0"

definition pool_weight :: "nat \<Rightarrow> pool_state \<Rightarrow> nat" where
  "pool_weight items p = 2 * (items - next_i p) + sum_list (map runner_weight (runners p))"

lemma pool_move_weight:
  assumes "r < length (runners p)" and "active (runners p ! r)"
  shows "pool_weight items (pool_move items r fine p) < pool_weight items p"
proof -
  obtain as bs where s: "runners p = as @ runners p ! r # bs" "\<And>x. (runners p)[r := x] = as @ x # bs"
    using split_at [OF assms(1)] by blast
  have "sum_list (map runner_weight (runners p)) = sum_list (map runner_weight (as @ runners p ! r # bs))"
    by (simp only: flip: s(1))
  with assms(2) show ?thesis
    by (cases "runners p ! r") (auto simp: pool_weight_def pool_move_def s(2) active_def)
qed

lemma pool_run_weight: "pool_run items c n p \<Longrightarrow> n + pool_weight items p \<le> 2 * items + c"
proof (induction rule: pool_run.induct)
  case begun
  have "sum_list (map runner_weight (replicate c Looping)) = c" by (induction c) auto
  then show ?case by (simp add: pool_weight_def pool_start_def)
next
  case (moved n p r fine)
  from moved.IH pool_move_weight [OF moved.hyps(2,3), of items fine] show ?case by linarith
qed

text \<open>A schedule: which runner moves next, and whether its worker resolves.\<close>

primrec pool_play :: "nat \<Rightarrow> (nat \<times> bool) list \<Rightarrow> pool_state \<Rightarrow> pool_state option" where
  "pool_play items [] p = Some p"
| "pool_play items (m # ms) p =
     (if fst m < length (runners p) \<and> active (runners p ! fst m)
      then pool_play items ms (pool_move items (fst m) (snd m) p) else None)"

lemma pool_play_run:
  "pool_play items ms p = Some p' \<Longrightarrow> pool_run items c n p \<Longrightarrow> pool_run items c (n + length ms) p'"
proof (induction ms arbitrary: p n)
  case (Cons m ms)
  from Cons.prems(1) have m: "fst m < length (runners p)" "active (runners p ! fst m)"
    and rest: "pool_play items ms (pool_move items (fst m) (snd m) p) = Some p'"
    by (simp_all split: if_splits)
  from Cons.IH [OF rest pool_run.moved [OF Cons.prems(2) m]] show ?case by simp
qed simp

section \<open>Ranks\<close>

lemma count_nth: "length (filter P xs) = card {i. i < length xs \<and> P (xs ! i)}"
  by (rule length_filter_conv_card)

text \<open>In a sorted list the entry at \<open>k\<close> has \<open>k + 1\<close> entries up to it and \<open>n - k\<close> from it on.\<close>

lemma rank_below: "sorted xs \<Longrightarrow> k < length xs \<Longrightarrow> Suc k \<le> length (filter (\<lambda>x. x \<le> xs ! k) xs)"
proof -
  assume s: "sorted xs" "k < length xs"
  then have "{0..k} \<subseteq> {i. i < length xs \<and> xs ! i \<le> xs ! k}" by (auto intro: sorted_nth_mono)
  from card_mono [OF _ this] show ?thesis by (simp add: count_nth)
qed

lemma rank_above: "sorted xs \<Longrightarrow> k < length xs \<Longrightarrow> length xs - k \<le> length (filter (\<lambda>x. xs ! k \<le> x) xs)"
proof -
  assume s: "sorted xs" "k < length xs"
  then have "{k..<length xs} \<subseteq> {i. i < length xs \<and> xs ! k \<le> xs ! i}" by (auto intro: sorted_nth_mono)
  from card_mono [OF _ this] show ?thesis by (simp add: count_nth)
qed

section \<open>Properties\<close>

text \<open>The pool runs every item exactly once. In every interleaving of the runners, at most
  \<open>concurrency\<close> workers are under way, the items are started in order with none left out, and after
  at most \<open>2 * items + concurrency\<close> moves no runner can move; when \<open>Promise.all\<close> resolves, with at
  least one runner, the worker of every item has come to its end exactly once.\<close>

theorem pool_runs_each_once:
  assumes "pool_run items concurrency n p"
  shows "n \<le> 2 * items + concurrency \<and> length (busy (runners p)) \<le> concurrency \<and>
    (\<exists>k \<le> items. started p = [0..<k]) \<and>
    (0 < concurrency \<and> pool_resolves p \<longrightarrow> mset (ended p) = mset [0..<items])"
proof -
  note ok = pool_run_ok [OF assms]
  have len: "length (busy rs) \<le> length rs" for rs by (simp add: busy_def List.map_filter_def)
  have "mset (ended p) = mset [0..<items]" if "0 < concurrency" "pool_resolves p"
    using pool_ok_resolved [OF ok that] by simp
  with ok pool_run_weight [OF assms] len [of "runners p"] show ?thesis by (auto simp: pool_ok_def)
qed

theorem pool_runs_each_once_witness:
  "map_option (\<lambda>p. mset (ended p)) (pool_play 3 [(0, True), (1, True), (1, True), (1, True), (0, True), (0, True), (1, True), (1, True)]
     (pool_start 2)) = Some (mset [0..<3])"
proof -
  let ?played = "pool_play 3 [(0, True), (1, True), (1, True), (1, True), (0, True), (0, True), (1, True), (1, True)] (pool_start 2)"
  have "?played \<noteq> None" and e: "map_option pool_resolves ?played = Some True" by code_simp+
  then obtain p where p: "?played = Some p" by auto
  from pool_play_run [OF p pool_run.begun] have "pool_run 3 2 8 p" by (simp add: eval_nat_numeral)
  from pool_runs_each_once [OF this] e p show ?thesis by simp
qed

text \<open>The API takes the events: with at least one webhook, each passes the schema, and reaches the handler
  as an event of the tenant to a webhook that was registered.\<close>

theorem load_is_accepted:
  assumes "validator validate" and "webhookIds \<noteq> []" and "\<forall>w \<in> set webhookIds. uuid_text w"
    and "tenant \<noteq> []" and "length tenant \<le> 128"
  shows "\<exists>rq'. check_request validate Post_events
      \<lparr>rq_params = JNull, rq_query = JNull, rq_body = load_event tenant (map (Some \<circ> JStr) webhookIds) n, rq_key = [],
       rq_parse = None\<rparr> = Inr rq' \<and>
    in_webhookId (event_input rq') \<in> set webhookIds \<and> in_tenant (event_input rq') = tenant"
proof -
  let ?w = "webhookIds ! (n mod length webhookIds)"
  have w: "?w \<in> set webhookIds" using assms(2) by (intro nth_mem) simp
  have lw: "load_webhook (map (Some \<circ> JStr) webhookIds) n = Some (JStr ?w)" using assms(2) by (simp add: load_webhook_def)
  have "uuid_text ?w" using w assms(3) by blast
  then have "conforms enqueueEventSchema (JObj (prepared enqueueEventSchema [(''tenant'', JStr tenant), (''webhookId'', JStr ?w),
      (''eventType'', JStr ''load.test''), (''payload'', JRaw (''{\"n\":'' @ show_nat n @ ''}''))]))"
    using assms(4,5) by (simp add: check_code Suc_le_eq)
  from validator.complete [OF assms(1) this] w show ?thesis
    by (auto simp: check_request_def load_event_def lw event_input_def text_field_def check_code)
qed

text \<open>With no runner at all, \<open>CONCURRENCY=0\<close>, the pool resolves at once and no event is posted.\<close>

theorem no_runner_posts_nothing: "pool_resolves (pool_start 0) \<and> ended (pool_start 0) = []"
  by (simp add: pool_resolves_def pool_start_def)

text \<open>Percentiles are ranks: the value reported for \<open>p\<close> is a sample, at least \<open>p\<close> percent of the
  samples are no greater and at least \<open>100 - p\<close> percent are no less.\<close>

theorem percentile_is_a_rank:
  assumes "sorted xs" and "xs \<noteq> []" and "0 \<le> p" and "p \<le> 100"
  shows "percentile xs p \<in> set xs \<and>
    p / 100 * of_nat (length xs) \<le> of_nat (length (filter (\<lambda>x. x \<le> percentile xs p) xs)) \<and>
    (100 - p) / 100 * of_nat (length xs) \<le> of_nat (length (filter (\<lambda>x. percentile xs p \<le> x) xs))"
proof -
  define q where "q = p / 100 * of_nat (length xs)"
  define k where "k = nat (min (int (length xs) - 1) \<lfloor>q\<rfloor>)"
  have q: "0 \<le> q" "q \<le> of_nat (length xs)" using assms(3,4) mult_right_mono [of "p / 100" 1 "of_nat (length xs)"]
    by (simp_all add: q_def)
  have k: "k < length xs" using assms(2) by (cases xs) (auto simp: k_def)
  have v: "percentile xs p = xs ! k" using assms(2) by (simp add: percentile_def k_def q_def Let_def)
  have up: "q \<le> of_nat (Suc k)" 
  proof (cases "\<lfloor>q\<rfloor> \<le> int (length xs) - 1")
    case True
    then have "int k = \<lfloor>q\<rfloor>" using q(1) by (simp add: k_def)
    moreover have "q < of_int \<lfloor>q\<rfloor> + 1" using floor_correct [of q] by simp
    ultimately have "q < of_int (int k) + 1" by (simp only:)
    then show ?thesis by simp
  next
    case False
    then have "Suc k = length xs" using assms(2) by (cases xs) (auto simp: k_def)
    then show ?thesis using q(2) by simp
  qed
  have "int k \<le> \<lfloor>q\<rfloor>" using q(1) by (simp add: k_def)
  then have down: "of_nat k \<le> q" by (metis le_floor_iff of_int_of_nat_eq)
  have "of_nat (length xs - k) = (of_nat (length xs) - of_nat k :: rat)" using k by (simp add: of_nat_diff)
  moreover have "(100 - p) / 100 * of_nat (length xs) = of_nat (length xs) - q"
    by (simp add: q_def field_simps)
  ultimately have low: "(100 - p) / 100 * of_nat (length xs) \<le> of_nat (length xs - k)" using down by linarith
  have "(of_nat (length xs - k) :: rat) \<le> of_nat (length (filter (\<lambda>x. xs ! k \<le> x) xs))"
    using rank_above [OF assms(1) k] by (simp only: of_nat_le_iff)
  moreover have "(of_nat (Suc k) :: rat) \<le> of_nat (length (filter (\<lambda>x. x \<le> xs ! k) xs))"
    using rank_below [OF assms(1) k] by (simp only: of_nat_le_iff)
  ultimately show ?thesis
    unfolding v q_def [symmetric] using nth_mem [OF k] up low by (intro conjI) (assumption, linarith+)
qed

text \<open>The wait ends: with 200 ms between two looks at the queue, after at most 602 of them.\<close>

theorem drain_ends:
  assumes "602 \<le> length polls" and "\<forall>k < length polls. drainStart + 200 * int k \<le> p_now (polls ! k)"
  shows "drain N drainStart polls \<noteq> Waiting"
proof -
  have step: "drain N drainStart ps \<noteq> Waiting" if "\<exists>s \<in> set ps. p_now s - drainStart > 120000" for ps
    using that by (induction ps) (auto simp: drain_turn_def split: drain_end.splits)
  have "polls ! 601 \<in> set polls" using assms(1) by simp
  moreover have "drainStart + 120200 \<le> p_now (polls ! 601)"
    using assms spec [OF assms(2), of 601] by simp
  ultimately show ?thesis by (intro step) force
qed

text \<open>The duplicate rate is right. When every delivery carries a job id, the receiver has counted
  each of them, knows exactly the jobs delivered, each with the time of its first delivery, and the
  duplicates it reports are the deliveries beyond the first, job by job.\<close>

theorem duplicates_are_counted:
  assumes "list_all (\<lambda>q. \<exists>j. fst q = Some j \<and> j \<noteq> []) qs"
  shows "let s = receive_all qs no_deliveries; ids = map fst (keyed qs) in
    map_of (recvAt s) = map_of (keyed qs) \<and> length (recvAt s) = card (set ids) \<and>
    dupes s = (\<Sum>j \<in> set ids. int (count_list ids j) - 1)"
proof -
  let ?s = "receive_all qs no_deliveries"
  note k = keyed_ids [of qs]
  have c: "length (recvAt ?s) = card (fst ` set (keyed qs))"
    using distinct_card [OF k(1)] k(2) by simp
  then show ?thesis using k(3,4) length_keyed [OF assms] sum_repeats [of "map fst (keyed qs)"]
    by (simp add: Let_def dupes_def)
qed

theorem duplicates_are_counted_witness:
  "dupes (receive_all [(Some ''a'', 1), (Some ''b'', 2), (Some ''a'', 3), (Some ''a'', 4)] no_deliveries) = 2"
  using duplicates_are_counted [of "[(Some ''a'', 1), (Some ''b'', 2), (Some ''a'', 3), (Some ''a'', 4)]"]
  by (simp add: Let_def insert_commute)

text \<open>The rate is a percentage, also when nothing arrived.\<close>

theorem duplicate_percent_bounds:
  "0 \<le> duplicate_percent (receive_all qs no_deliveries) \<and> duplicate_percent (receive_all qs no_deliveries) \<le> 100"
proof -
  let ?s = "receive_all qs no_deliveries"
  have "length (recvAt ?s) \<le> length (keyed qs)"
    using distinct_card [OF keyed_ids(1) [of qs]] keyed_ids(2) [of qs] card_length [of "map fst (keyed qs)"] by simp
  also have "length (keyed qs) \<le> length qs" by (simp add: keyed_def List.map_filter_def)
  finally have d: "0 \<le> dupes ?s" "dupes ?s \<le> int (max 1 (totalDeliveries ?s))"
    by (simp_all add: dupes_def keyed_ids(4))
  then have q: "0 \<le> (of_int (dupes ?s) :: rat)" "(of_int (dupes ?s) :: rat) \<le> of_nat (max 1 (totalDeliveries ?s))"
    by (simp, metis of_int_le_iff of_int_of_nat_eq)
  define d where "d = (of_int (dupes ?s) :: rat)"
  define m where "m = (of_nat (max 1 (totalDeliveries ?s)) :: rat)"
  have "0 \<le> d" "d \<le> m" "0 < m" using q by (auto simp: d_def m_def max_def)
  define x where "x = d / m"
  have "0 \<le> x" "x \<le> 1" using \<open>0 \<le> d\<close> \<open>d \<le> m\<close> \<open>0 < m\<close> by (simp_all add: x_def)
  moreover have "duplicate_percent ?s = x * 100" by (simp only: duplicate_percent_def x_def d_def m_def)
  ultimately show ?thesis by simp
qed

text \<open>An accepted event is in the bookkeeping with the time it was posted.\<close>

theorem accepted_events_are_tracked:
  assumes "text_of (field ''jobId'' v) = Some j"
  shows "\<exists>s'. posted t0 now (Answer 202 (Some v)) s = Some s' \<and> map_of (sentAt s') j = Some t0 \<and>
    (\<forall>j'. j' \<noteq> j \<longrightarrow> map_of (sentAt s') j' = map_of (sentAt s) j')"
proof -
  have "v \<noteq> JNull" using assms by auto
  then show ?thesis using assms by (cases v) (simp_all add: posted_def post_def update_conv')
qed

text \<open>A report over no samples fails: when no job at all was delivered, the summary of the latencies
  throws, and the counts after it are never printed.\<close>

theorem empty_summary_throws: "summarize [] = None \<and> (samples \<noteq> [] \<longrightarrow> summarize samples \<noteq> None)"
  by (auto simp: summarize_def Let_def dest: arg_cong [where f = length])

end
