(* ===== verification/Loadtest_Main.thy ===== *)
theory Loadtest_Main
  imports Loadtest
begin

text \<open>
  \<open>main\<close> of \<open>src/scripts/loadtest.mjs\<close>: registering the webhooks, posting the events through the pool,
  waiting for the queue to drain, and the report, one step for each turn of the event loop, with the
  receiver counting deliveries in between. The environment, the answers of the API, the requests to
  the receiver and the clock are inputs; the clock is read once a turn. What is printed is kept as the
  values in it, before \<open>toFixed\<close> rounds them.
\<close>

section \<open>Settings\<close>

record load_env =
  load_API :: string
  load_N :: jsnum
  load_CONCURRENCY :: jsnum
  load_WEBHOOKS :: jsnum
  load_RECEIVER_PORT :: jsnum
  load_TENANT :: string

definition load_settings :: "environment \<Rightarrow> ms \<Rightarrow> load_env" where
  "load_settings env now = \<lparr>
     load_API = the_default ''http://localhost:3000'' (env ''API''),
     load_N = the_default (Num 1000) (map_option Number (env ''N'')),
     load_CONCURRENCY = the_default (Num 50) (map_option Number (env ''CONCURRENCY'')),
     load_WEBHOOKS = the_default (Num 8) (map_option Number (env ''WEBHOOKS'')),
     load_RECEIVER_PORT = the_default (Num 4300) (map_option Number (env ''RECEIVER_PORT'')),
     load_TENANT = load_tenant now\<rparr>"

text \<open>Numbers of the settings at work: the port that \<open>listen\<close> takes (it throws for others), the length of
  \<open>Array.from({ length })\<close> (a \<open>RangeError\<close> beyond \<open>2^32 - 1\<close>), \<open>w < WEBHOOKS\<close>, and a number by seconds.\<close>

definition port_number :: "jsnum \<Rightarrow> int option" where
  "port_number n = (case as_integer n of None \<Rightarrow> None | Some p \<Rightarrow> if 0 \<le> p \<and> p \<le> 65535 then Some p else None)"

fun array_length :: "jsnum \<Rightarrow> nat option" where
  "array_length (Num q) = (if \<lfloor>q\<rfloor> \<le> 4294967295 then Some (nat \<lfloor>q\<rfloor>) else None)"
| "array_length (Infinite positive) = (if positive then None else Some 0)"
| "array_length NaN = Some 0"

fun below :: "nat \<Rightarrow> jsnum \<Rightarrow> bool" where
  "below w (Num q) \<longleftrightarrow> of_nat w < q"
| "below w (Infinite positive) \<longleftrightarrow> positive"
| "below w NaN \<longleftrightarrow> False"

fun per_second :: "jsnum \<Rightarrow> ms \<Rightarrow> jsnum" where
  "per_second (Num q) t =
     (if t = 0 then (if q = 0 then NaN else Infinite (0 < q)) else Num (q / (of_int t / 1000)))"
| "per_second (Infinite positive) t = Infinite (positive \<longleftrightarrow> 0 \<le> t)"
| "per_second NaN t = NaN"

section \<open>State, inputs and outputs\<close>

text \<open>Where \<open>main\<close> waits: for \<open>listen\<close>, a registration, the pool, the stats, the sleep; or it is over.\<close>

datatype load_phase = Starting | Registering | Posting | Asking | Sleeping | Finished | Exited

record load_run =
  l_phase :: load_phase
  l_receiver :: receiver
  l_webhookIds :: "json option list"
  l_events :: nat
  l_pool :: pool_state
  l_t0 :: "nat \<Rightarrow> ms"
  l_load :: load
  l_enqueueStart :: ms
  l_drainStart :: ms
  l_lastLog :: ms

datatype load_input =
    Bound ms
  | Bind_failed
  | Delivery "string option" ms
  | Registered answer ms
  | Posted nat answer ms
  | Stats answer ms
  | Slept

datatype load_line =
    L_settings jsnum jsnum jsnum
  | L_listening int
  | L_registered nat
  | L_latency summary
  | L_enqueued jsnum ms
  | L_draining
  | L_depths "json option" "json option" "json option" nat jsnum
  | L_gave_up
  | L_delivery ms jsnum
  | L_end_to_end summary
  | L_distinct nat jsnum
  | L_total nat
  | L_duplicates int rat
  | L_done
  | L_error

datatype load_out =
    Listens int
  | Posts string json
  | Fetches string
  | Sleeps ms
  | Prints load_line
  | Closes
  | Exits int

type_synonym load_turn = "load_run \<times> load_out list"

definition before :: "load_out list \<Rightarrow> load_turn \<Rightarrow> load_turn" where
  "before os t = (fst t, os @ snd t)"

text \<open>\<open>main().catch\<close>: a rejection of \<open>main\<close> ends the process.\<close>

definition main_catch :: "load_run \<Rightarrow> load_turn" where
  "main_catch s = (s\<lparr>l_phase := Exited\<rparr>, [Prints L_error, Exits 1])"

definition load_start :: load_run where
  "load_start = \<lparr>l_phase = Starting, l_receiver = no_deliveries, l_webhookIds = [], l_events = 0, l_pool = pool_start 0,
     l_t0 = (\<lambda>_. 0), l_load = \<lparr>enqueueLatencies = [], sentAt = []\<rparr>, l_enqueueStart = 0, l_drainStart = 0, l_lastLog = 0\<rparr>"

section \<open>Steps\<close>

text \<open>The call of \<open>main\<close>: up to \<open>startReceiver\<close>.\<close>

definition load_main :: "load_env \<Rightarrow> load_turn" where
  "load_main cfg = before [Prints (L_settings (load_N cfg) (load_CONCURRENCY cfg) (load_WEBHOOKS cfg))]
     (case port_number (load_RECEIVER_PORT cfg) of
        None \<Rightarrow> main_catch load_start
      | Some port \<Rightarrow> (load_start, [Listens port]))"

text \<open>\<open>getStats\<close>, and the sleep between two of them.\<close>

definition getStats :: "load_env \<Rightarrow> load_run \<Rightarrow> load_turn" where
  "getStats cfg s = (s\<lparr>l_phase := Asking\<rparr>, [Fetches (load_API cfg @ ''/queue/stats'')])"

text \<open>From the end of the pool to the first look at the queue.\<close>

definition enqueue_done :: "load_env \<Rightarrow> ms \<Rightarrow> load_run \<Rightarrow> load_turn" where
  "enqueue_done cfg now s =
     (case summarize (enqueueLatencies (l_load s)) of
        None \<Rightarrow> main_catch s
      | Some sm \<Rightarrow> before
          [Prints (L_latency sm),
           Prints (L_enqueued (per_second (load_N cfg) (now - l_enqueueStart s)) (now - l_enqueueStart s)),
           Prints L_draining]
          (getStats cfg (s\<lparr>l_drainStart := now, l_lastLog := 0\<rparr>)))"

text \<open>A runner at the head of its loop: it takes an item and posts it, or returns.\<close>

definition runner_head :: "load_env \<Rightarrow> ms \<Rightarrow> nat \<Rightarrow> load_run \<Rightarrow> load_turn" where
  "runner_head cfg now r s =
     (let n = next_i (l_pool s); s' = s\<lparr>l_pool := pool_move (l_events s) r True (l_pool s)\<rparr>
      in if n < l_events s
         then (s'\<lparr>l_t0 := (l_t0 s)(n := now)\<rparr>,
           [Posts (load_API cfg @ ''/events'') (load_event (load_TENANT cfg) (l_webhookIds s) n)])
         else (s', []))"

primrec runner_heads :: "load_env \<Rightarrow> ms \<Rightarrow> nat list \<Rightarrow> load_run \<Rightarrow> load_turn" where
  "runner_heads cfg now [] s = (s, [])"
| "runner_heads cfg now (r # rs) s = (let t = runner_head cfg now r s in before (snd t) (runner_heads cfg now rs (fst t)))"

text \<open>\<open>main\<close> goes on when every runner has returned.\<close>

definition pool_settles :: "load_env \<Rightarrow> ms \<Rightarrow> load_turn \<Rightarrow> load_turn" where
  "pool_settles cfg now t =
     (if pool_resolves (l_pool (fst t)) then before (snd t) (enqueue_done cfg now (fst t)) else t)"

definition enqueue_start :: "load_env \<Rightarrow> ms \<Rightarrow> load_run \<Rightarrow> load_turn" where
  "enqueue_start cfg now s = before [Prints (L_registered (length (l_webhookIds s)))]
     (case array_length (load_N cfg) of
        None \<Rightarrow> main_catch s
      | Some n \<Rightarrow>
          (let s = s\<lparr>l_phase := Posting, l_events := n, l_enqueueStart := now\<rparr> in
           case array_length (load_CONCURRENCY cfg) of
             None \<Rightarrow> main_catch s
           | Some c \<Rightarrow> pool_settles cfg now (runner_heads cfg now [0..<c] (s\<lparr>l_pool := pool_start c\<rparr>))))"

text \<open>The head of the loop that registers.\<close>

definition register_next :: "load_env \<Rightarrow> int \<Rightarrow> ms \<Rightarrow> load_run \<Rightarrow> load_turn" where
  "register_next cfg port now s =
     (if below (length (l_webhookIds s)) (load_WEBHOOKS cfg)
      then (s\<lparr>l_phase := Registering\<rparr>, [Posts (load_API cfg @ ''/webhooks'') (registration (load_TENANT cfg) port)])
      else enqueue_start cfg now s)"

text \<open>The report.\<close>

definition results :: "load_env \<Rightarrow> ms \<Rightarrow> load_run \<Rightarrow> load_turn" where
  "results cfg now s =
     (let drainMs = now - l_drainStart s; recv = l_receiver s
      in before [Prints (L_delivery drainMs (per_second (load_N cfg) drainMs))]
        (case summarize (end_to_end (sentAt (l_load s)) (recvAt recv)) of
           None \<Rightarrow> main_catch s
         | Some sm \<Rightarrow> (s\<lparr>l_phase := Finished\<rparr>,
             [Prints (L_end_to_end sm), Prints (L_distinct (length (recvAt recv)) (load_N cfg)),
              Prints (L_total (totalDeliveries recv)), Prints (L_duplicates (dupes recv) (duplicate_percent recv)),
              Closes, Prints L_done])))"

text \<open>One turn of the loop that waits for the queue to drain.\<close>

definition look :: "load_env \<Rightarrow> json \<Rightarrow> ms \<Rightarrow> load_run \<Rightarrow> load_turn" where
  "look cfg v now s =
     (let received = length (recvAt (l_receiver s));
          logs = now - l_lastLog s > 1000;
          progress = (if logs then [Prints (L_depths (field ''ready'' v) (field ''inflight'' v) (field ''delayed'' v) received (load_N cfg))]
            else []);
          s = (if logs then s\<lparr>l_lastLog := now\<rparr> else s)
      in before progress
        (case drain_turn (load_N cfg) (l_drainStart s) \<lparr>p_outstanding = outstanding v, p_received = received, p_now = now\<rparr> of
           Drained \<Rightarrow> results cfg now s
         | Timed_out \<Rightarrow> before [Prints L_gave_up] (results cfg now s)
         | Waiting \<Rightarrow> (s\<lparr>l_phase := Sleeping\<rparr>, [Sleeps 200])))"

text \<open>The handler of the receiver is there from \<open>createServer\<close> on; nothing it counts after the report matters.\<close>

definition open_for_requests :: "load_phase \<Rightarrow> bool" where
  "open_for_requests ph \<longleftrightarrow> ph \<noteq> Finished \<and> ph \<noteq> Exited"

fun load_step :: "load_env \<Rightarrow> load_input \<Rightarrow> load_run \<Rightarrow> load_turn" where
  "load_step cfg (Bound now) s =
     (case port_number (load_RECEIVER_PORT cfg) of
        Some port \<Rightarrow> if l_phase s = Starting then before [Prints (L_listening port)] (register_next cfg port now s) else (s, [])
      | None \<Rightarrow> (s, []))"
| "load_step cfg Bind_failed s = (if l_phase s = Starting then (s\<lparr>l_phase := Exited\<rparr>, [Exits 1]) else (s, []))"
| "load_step cfg (Delivery jobId now) s =
     (if open_for_requests (l_phase s) then (s\<lparr>l_receiver := receive jobId now (l_receiver s)\<rparr>, []) else (s, []))"
| "load_step cfg (Registered a now) s =
     (if l_phase s = Registering then
        (case (post ''/webhooks'' a, port_number (load_RECEIVER_PORT cfg)) of
           (Inr v, Some port) \<Rightarrow> if v = JNull then main_catch s
             else register_next cfg port now (s\<lparr>l_webhookIds := l_webhookIds s @ [field ''id'' v]\<rparr>)
         | _ \<Rightarrow> main_catch s)
      else (s, []))"
| "load_step cfg (Posted r a now) s =
     (if l_phase s = Posting \<and> r < length (runners (l_pool s)) then
        (case runners (l_pool s) ! r of
           Busy idx \<Rightarrow>
             (case posted (l_t0 s idx) now a (l_load s) of
                None \<Rightarrow> main_catch (s\<lparr>l_pool := pool_move (l_events s) r False (l_pool s)\<rparr>)
              | Some ld \<Rightarrow> pool_settles cfg now (runner_head cfg now r
                  (s\<lparr>l_load := ld, l_pool := pool_move (l_events s) r True (l_pool s)\<rparr>)))
         | _ \<Rightarrow> (s, []))
      else (s, []))"
| "load_step cfg (Stats a now) s =
     (if l_phase s = Asking then
        (case a of
           Answer status (Some v) \<Rightarrow> if v = JNull then main_catch s else look cfg v now s
         | _ \<Rightarrow> main_catch s)
      else (s, []))"
| "load_step cfg Slept s = (if l_phase s = Sleeping then getStats cfg s else (s, []))"

primrec load_steps :: "load_env \<Rightarrow> load_input list \<Rightarrow> load_turn \<Rightarrow> load_turn" where
  "load_steps cfg [] t = t"
| "load_steps cfg (i # is) t = load_steps cfg is (before (snd t) (load_step cfg i (fst t)))"

definition load_test :: "load_env \<Rightarrow> load_input list \<Rightarrow> load_turn" where
  "load_test cfg is = load_steps cfg is (load_main cfg)"

section \<open>What a run has posted\<close>

definition posts_to :: "string \<Rightarrow> load_out list \<Rightarrow> json list" where
  "posts_to dest os = List.map_filter (\<lambda>x. case x of Posts u b \<Rightarrow> if u = dest then Some b else None | _ \<Rightarrow> None) os"

lemma posts_to_simps [simp]:
  "posts_to dest [] = []" "posts_to dest (Posts u b # os) = (if u = dest then b # posts_to dest os else posts_to dest os)"
  "posts_to dest (Listens p # os) = posts_to dest os" "posts_to dest (Fetches u # os) = posts_to dest os"
  "posts_to dest (Sleeps t # os) = posts_to dest os" "posts_to dest (Prints l # os) = posts_to dest os"
  "posts_to dest (Closes # os) = posts_to dest os" "posts_to dest (Exits x # os) = posts_to dest os"
  "posts_to dest (os @ os') = posts_to dest os @ posts_to dest os'"
  by (simp_all add: posts_to_def List.map_filter_def)

text \<open>The webhooks are those \<open>WEBHOOKS\<close> asks for, \<open>k\<close> of them.\<close>

definition webhooks_asked :: "load_env \<Rightarrow> nat \<Rightarrow> bool" where
  "webhooks_asked cfg k \<longleftrightarrow> \<not> below k (load_WEBHOOKS cfg) \<and> (\<forall>w < k. below w (load_WEBHOOKS cfg))"

definition registered_all :: "load_env \<Rightarrow> load_run \<Rightarrow> load_out list \<Rightarrow> bool" where
  "registered_all cfg s os \<longleftrightarrow> webhooks_asked cfg (length (l_webhookIds s)) \<and>
     length (posts_to (load_API cfg @ ''/webhooks'') os) = length (l_webhookIds s)"

definition sent_events :: "load_env \<Rightarrow> load_run \<Rightarrow> load_out list \<Rightarrow> nat list \<Rightarrow> bool" where
  "sent_events cfg s os ns \<longleftrightarrow>
     posts_to (load_API cfg @ ''/events'') os = map (load_event (load_TENANT cfg) (l_webhookIds s)) ns"

text \<open>While the pool is at work, and after it.\<close>

definition pool_at_work :: "load_env \<Rightarrow> load_run \<Rightarrow> load_out list \<Rightarrow> bool" where
  "pool_at_work cfg s os \<longleftrightarrow> registered_all cfg s os \<and> array_length (load_N cfg) = Some (l_events s) \<and>
     (\<exists>c. array_length (load_CONCURRENCY cfg) = Some c \<and> pool_ok (l_events s) c (l_pool s) \<and>
        (c = 0 \<longrightarrow> ended (l_pool s) = [])) \<and>
     \<not> pool_rejects (l_pool s) \<and> sent_events cfg s os (started (l_pool s)) \<and>
     length (enqueueLatencies (l_load s)) = length (ended (l_pool s))"

definition all_posted :: "load_env \<Rightarrow> load_run \<Rightarrow> load_out list \<Rightarrow> bool" where
  "all_posted cfg s os \<longleftrightarrow> registered_all cfg s os \<and>
     (\<exists>n c. array_length (load_N cfg) = Some n \<and> array_length (load_CONCURRENCY cfg) = Some c \<and> 0 < n \<and> 0 < c \<and>
        sent_events cfg s os [0..<n] \<and> length (enqueueLatencies (l_load s)) = n)"

text \<open>The report shows what the receiver has.\<close>

definition reported :: "load_env \<Rightarrow> load_run \<Rightarrow> load_out list \<Rightarrow> bool" where
  "reported cfg s os \<longleftrightarrow>
     (let recv = l_receiver s in
      {Prints (L_distinct (length (recvAt recv)) (load_N cfg)), Prints (L_total (totalDeliveries recv)),
       Prints (L_duplicates (dupes recv) (duplicate_percent recv))} \<subseteq> set os \<and>
      (Prints L_gave_up \<in> set os \<or> at_least (length (recvAt recv)) (load_N cfg)))"

fun load_ok :: "load_env \<Rightarrow> load_phase \<Rightarrow> load_run \<Rightarrow> load_out list \<Rightarrow> bool" where
  "load_ok cfg Starting s os \<longleftrightarrow> l_webhookIds s = [] \<and> enqueueLatencies (l_load s) = [] \<and>
     posts_to (load_API cfg @ ''/events'') os = [] \<and> posts_to (load_API cfg @ ''/webhooks'') os = []"
| "load_ok cfg Registering s os \<longleftrightarrow> (\<forall>w \<le> length (l_webhookIds s). below w (load_WEBHOOKS cfg)) \<and>
     enqueueLatencies (l_load s) = [] \<and> posts_to (load_API cfg @ ''/events'') os = [] \<and>
     length (posts_to (load_API cfg @ ''/webhooks'') os) = Suc (length (l_webhookIds s))"
| "load_ok cfg Posting s os \<longleftrightarrow> pool_at_work cfg s os"
| "load_ok cfg Asking s os \<longleftrightarrow> all_posted cfg s os"
| "load_ok cfg Sleeping s os \<longleftrightarrow> all_posted cfg s os"
| "load_ok cfg Finished s os \<longleftrightarrow> all_posted cfg s os \<and> reported cfg s os"
| "load_ok cfg Exited s os \<longleftrightarrow> True"

definition turn_ok :: "load_env \<Rightarrow> load_out list \<Rightarrow> load_turn \<Rightarrow> bool" where
  "turn_ok cfg os t \<longleftrightarrow> load_ok cfg (l_phase (fst t)) (fst t) (os @ snd t)"

lemma turn_ok_before [simp]: "turn_ok cfg os (before xs t) \<longleftrightarrow> turn_ok cfg (os @ xs) t"
  by (simp add: turn_ok_def before_def)

lemma main_catch_ok [simp]: "turn_ok cfg os (main_catch s)"
  by (simp add: turn_ok_def main_catch_def)

lemmas posted_defs = registered_all_def sent_events_def pool_at_work_def all_posted_def

lemma getStats_ok: "all_posted cfg s os \<Longrightarrow> turn_ok cfg os (getStats cfg s)"
  by (simp add: turn_ok_def getStats_def posted_defs)

lemma enqueue_done_ok:
  assumes "pool_at_work cfg s os" and "pool_resolves (l_pool s)"
  shows "turn_ok cfg os (enqueue_done cfg now s)"
proof (cases "enqueueLatencies (l_load s)")
  case Nil
  then show ?thesis by (simp add: enqueue_done_def summarize_def)
next
  case (Cons x xs)
  from assms(1) obtain c where c: "array_length (load_CONCURRENCY cfg) = Some c" "pool_ok (l_events s) c (l_pool s)"
      "c = 0 \<longrightarrow> ended (l_pool s) = []" by (auto simp: pool_at_work_def)
  have l: "length (enqueueLatencies (l_load s)) = length (ended (l_pool s))" using assms(1) by (simp add: pool_at_work_def)
  with Cons c(3) have "0 < c" by auto
  from pool_ok_resolved [OF c(2) this assms(2)] have p: "started (l_pool s) = [0..<l_events s]" "length (ended (l_pool s)) = l_events s"
    by (simp, metis length_upt minus_nat.diff_0 size_mset)
  have "0 < l_events s" using l p(2) Cons by simp
  with \<open>0 < c\<close> assms(1) c(1) l p have "all_posted cfg s os" by (simp add: pool_at_work_def all_posted_def)
  then have "all_posted cfg (s\<lparr>l_drainStart := now, l_lastLog := 0\<rparr>) (os @
      [Prints (L_latency sm), Prints (L_enqueued (per_second (load_N cfg) (now - l_enqueueStart s)) (now - l_enqueueStart s)),
       Prints L_draining])" for sm by (simp add: posted_defs)
  from getStats_ok [OF this] show ?thesis by (simp add: enqueue_done_def del: append_assoc split: option.split)
qed

lemma runner_head_ok:
  assumes "pool_at_work cfg s os" and "l_phase s = Posting" and "r < length (runners (l_pool s))" and "runners (l_pool s) ! r = Looping"
  shows "pool_at_work cfg (fst (runner_head cfg now r s)) (os @ snd (runner_head cfg now r s)) \<and>
    l_phase (fst (runner_head cfg now r s)) = Posting \<and>
    length (runners (l_pool (fst (runner_head cfg now r s)))) = length (runners (l_pool s)) \<and>
    (\<forall>r'. r' \<noteq> r \<longrightarrow> runners (l_pool (fst (runner_head cfg now r s))) ! r' = runners (l_pool s) ! r')"
proof -
  from assms(1) obtain c where c: "array_length (load_CONCURRENCY cfg) = Some c" "pool_ok (l_events s) c (l_pool s)"
      "c = 0 \<longrightarrow> ended (l_pool s) = []" by (auto simp: pool_at_work_def)
  note m = pool_move_ok [OF c(2) assms(3), of True]
  have rj: "\<not> pool_rejects (pool_move (l_events s) r True (l_pool s))"
    using assms(1,3,4) by (auto simp: pool_at_work_def pool_rejects_def pool_move_def list_ex_iff in_set_conv_nth nth_list_update split: if_splits)
  show ?thesis using assms c m rj
    by (auto simp: posted_defs runner_head_def Let_def pool_move_def)
qed

lemma runner_heads_ok:
  assumes "pool_at_work cfg s os" and "l_phase s = Posting" and "distinct rs"
    and "\<forall>r \<in> set rs. r < length (runners (l_pool s)) \<and> runners (l_pool s) ! r = Looping"
  shows "pool_at_work cfg (fst (runner_heads cfg now rs s)) (os @ snd (runner_heads cfg now rs s)) \<and>
    l_phase (fst (runner_heads cfg now rs s)) = Posting"
  using assms
proof (induction rs arbitrary: s os)
  case (Cons r rs)
  have r: "r < length (runners (l_pool s))" "runners (l_pool s) ! r = Looping" using Cons.prems(4) by simp_all
  note h = runner_head_ok [OF Cons.prems(1,2) r, of now]
  have "\<forall>r' \<in> set rs. r' \<noteq> r" using Cons.prems(3) by auto
  then have "\<forall>r' \<in> set rs. r' < length (runners (l_pool (fst (runner_head cfg now r s)))) \<and>
      runners (l_pool (fst (runner_head cfg now r s))) ! r' = Looping" using h Cons.prems(4) by simp
  from Cons.IH [OF conjunct1 [OF h] _ _ this] h Cons.prems(3) show ?case by (simp add: Let_def before_def)
qed simp

lemma pool_settles_ok:
  assumes "pool_at_work cfg (fst t) (os @ snd t)" and "l_phase (fst t) = Posting"
  shows "turn_ok cfg os (pool_settles cfg now t)"
  using assms enqueue_done_ok [OF assms(1), of now] by (auto simp: pool_settles_def turn_ok_def before_def)

lemma enqueue_start_ok:
  assumes "webhooks_asked cfg (length (l_webhookIds s))" and "enqueueLatencies (l_load s) = []"
    and "posts_to (load_API cfg @ ''/events'') os = []"
    and "length (posts_to (load_API cfg @ ''/webhooks'') os) = length (l_webhookIds s)"
  shows "turn_ok cfg os (enqueue_start cfg now s)"
proof (cases "array_length (load_N cfg)")
  case (Some n)
  show ?thesis
  proof (cases "array_length (load_CONCURRENCY cfg)")
    case c: (Some c)
    let ?s = "s\<lparr>l_phase := Posting, l_events := n, l_enqueueStart := now, l_pool := pool_start c\<rparr>"
    let ?os = "os @ [Prints (L_registered (length (l_webhookIds s)))]"
    have "pool_ok n c (pool_start c)" by (rule pool_run_ok [OF pool_run.begun])
    then have "pool_at_work cfg ?s ?os" using assms Some c
      by (auto simp: posted_defs pool_start_def pool_rejects_def list_ex_iff)
    from runner_heads_ok [OF this, of "[0..<c]" now]
    have "turn_ok cfg ?os (pool_settles cfg now (runner_heads cfg now [0..<c] ?s))"
      by (intro pool_settles_ok) (simp_all add: pool_start_def)
    then show ?thesis using Some c by (simp add: enqueue_start_def Let_def)
  qed (use Some in \<open>simp add: enqueue_start_def Let_def\<close>)
qed (simp add: enqueue_start_def)

lemma register_next_ok:
  assumes "\<forall>w < length (l_webhookIds s). below w (load_WEBHOOKS cfg)" and "enqueueLatencies (l_load s) = []"
    and "posts_to (load_API cfg @ ''/events'') os = []"
    and "length (posts_to (load_API cfg @ ''/webhooks'') os) = length (l_webhookIds s)"
  shows "turn_ok cfg os (register_next cfg port now s)"
proof (cases "below (length (l_webhookIds s)) (load_WEBHOOKS cfg)")
  case True
  with assms show ?thesis by (auto simp: register_next_def turn_ok_def le_less)
next
  case False
  then show ?thesis using enqueue_start_ok [of cfg s os now] assms by (simp add: register_next_def webhooks_asked_def)
qed

lemma results_ok:
  assumes "all_posted cfg s os" and "Prints L_gave_up \<in> set os \<or> at_least (length (recvAt (l_receiver s))) (load_N cfg)"
  shows "turn_ok cfg os (results cfg now s)"
  using assms by (auto simp: results_def Let_def posted_defs turn_ok_def [of _ _ "(_, _)"] reported_def split: option.split)

lemma look_ok:
  assumes "all_posted cfg s os"
  shows "turn_ok cfg os (look cfg v now s)"
proof -
  have a: "all_posted cfg s (os @ xs)" "all_posted cfg (s\<lparr>l_lastLog := t\<rparr>) (os @ xs)" if "xs \<in> {[], [Prints l]}" for xs t l
    using that assms by (auto simp: posted_defs)
  have b: "all_posted cfg s (os @ Prints l # xs)" "all_posted cfg (s\<lparr>l_lastLog := t\<rparr>) (os @ Prints l # xs)" if "xs \<in> {[], [Prints l']}" for xs t l l'
    using that assms by (auto simp: posted_defs)
  show ?thesis using assms a b
    by (auto simp: look_def Let_def drain_turn_def intro!: results_ok split: drain_end.splits if_splits) (auto simp: turn_ok_def posted_defs)
qed

lemma load_step_ok:
  assumes "load_ok cfg (l_phase s) s os"
  shows "turn_ok cfg os (load_step cfg i s)"
proof (cases i)
  case (Bound now)
  then show ?thesis using assms register_next_ok [of s cfg "os @ [Prints (L_listening port)]" port now for port]
    by (auto simp: turn_ok_def [of _ _ "(_, _)"] split: option.split)
next
  case (Delivery j now)
  have "turn_ok cfg os (s\<lparr>l_receiver := receive j now (l_receiver s)\<rparr>, [])" if "open_for_requests (l_phase s)"
    using assms that by (cases "l_phase s") (auto simp: turn_ok_def open_for_requests_def posted_defs)
  then show ?thesis using assms Delivery by (simp add: turn_ok_def [of _ _ "(_, _)"])
next
  case (Registered a now)
  show ?thesis
  proof (cases "l_phase s = Registering")
    case True
    then show ?thesis using assms Registered
      register_next_ok [of "s\<lparr>l_webhookIds := l_webhookIds s @ [field ''id'' v]\<rparr>" cfg os port now for v port]
      by (auto simp: less_Suc_eq_le split: sum.split option.split)
  qed (use assms Registered in \<open>simp add: turn_ok_def\<close>)
next
  case (Posted r a now)
  show ?thesis
  proof (cases "l_phase s = Posting \<and> r < length (runners (l_pool s)) \<and> (\<exists>n. runners (l_pool s) ! r = Busy n)")
    case False
    then show ?thesis using assms Posted by (auto simp: turn_ok_def split: runner.split)
  next
    case True
    then obtain n where n: "runners (l_pool s) ! r = Busy n" by blast
    show ?thesis
    proof (cases "posted (l_t0 s n) now a (l_load s)")
      case None
      then show ?thesis using True n Posted by simp
    next
      case (Some ld)
      let ?s = "s\<lparr>l_load := ld, l_pool := pool_move (l_events s) r True (l_pool s)\<rparr>"
      have w: "pool_at_work cfg s os" using assms True by simp
      then obtain c where c: "array_length (load_CONCURRENCY cfg) = Some c" "pool_ok (l_events s) c (l_pool s)"
        by (auto simp: pool_at_work_def)
      have "c \<noteq> 0" using True c(2) by (auto simp: pool_ok_def)
      have rj: "\<not> pool_rejects (pool_move (l_events s) r True (l_pool s))"
        using w True n by (auto simp: pool_at_work_def pool_rejects_def pool_move_def list_ex_iff in_set_conv_nth nth_list_update split: if_splits)
      have "length (enqueueLatencies ld) = Suc (length (enqueueLatencies (l_load s)))"
        using Some by (auto simp: posted_def split: sum.splits json.splits)
      then have "pool_at_work cfg ?s os" using w c \<open>c \<noteq> 0\<close> pool_move_ok [OF c(2), of r True] True n rj
        by (auto simp: posted_defs pool_move_def)
      from runner_head_ok [OF this, of r now] have "turn_ok cfg os (pool_settles cfg now (runner_head cfg now r ?s))"
        using True n by (intro pool_settles_ok) (simp_all add: pool_move_def)
      then show ?thesis using True n Posted Some by simp
    qed
  qed
next
  case (Stats a now)
  then show ?thesis using assms look_ok [of cfg s os _ now]
    by (auto simp: turn_ok_def [of _ _ "(_, _)"] split: answer.split option.split)
next
  case Slept
  then show ?thesis using assms getStats_ok [of cfg s os] by (auto simp: turn_ok_def [of _ _ "(_, _)"])
qed (use assms in \<open>auto simp: turn_ok_def\<close>)

lemma load_steps_append: "load_steps cfg (is @ js) t = load_steps cfg js (load_steps cfg is t)"
  by (induction "is" arbitrary: t) auto

lemma load_test_snoc: "load_test cfg (is @ [i]) = before (snd (load_test cfg is)) (load_step cfg i (fst (load_test cfg is)))"
  by (simp add: load_test_def load_steps_append)

lemma load_test_ok: "turn_ok cfg [] (load_test cfg is)"
proof (induction "is" rule: rev_induct)
  case Nil
  show ?case by (auto simp: load_test_def load_main_def turn_ok_def [of _ _ "(_, _)"] load_start_def split: option.split)
next
  case (snoc i is')
  then have "load_ok cfg (l_phase (fst (load_test cfg is'))) (fst (load_test cfg is')) (snd (load_test cfg is'))"
    by (simp add: turn_ok_def)
  from load_step_ok [OF this] show ?case by (simp add: load_test_snoc)
qed

section \<open>What the receiver has counted\<close>

definition deliveries :: "load_input list \<Rightarrow> (string option \<times> ms) list" where
  "deliveries is = List.map_filter (\<lambda>i. case i of Delivery j now \<Rightarrow> Some (j, now) | _ \<Rightarrow> None) is"

lemma deliveries_append [simp]:
  "deliveries [] = []" "deliveries (is @ [i]) = deliveries is @ (case i of Delivery j now \<Rightarrow> [(j, now)] | _ \<Rightarrow> [])"
  by (simp_all add: deliveries_def List.map_filter_def split: load_input.split)

lemma receive_all_append: "receive_all (qs @ [q]) s = receive (fst q) (snd q) (receive_all qs s)"
  by (induction qs arbitrary: s) auto

lemma before_simps [simp]: "fst (before os t) = fst t" "snd (before os t) = os @ snd t"
  by (simp_all add: before_def)

text \<open>Apart from the handler, no step touches what the receiver has.\<close>

lemma keeps_receiver [simp]:
  "l_receiver (fst (main_catch s)) = l_receiver s"
  "l_receiver (fst (getStats cfg s)) = l_receiver s"
  "l_receiver (fst (enqueue_done cfg now s)) = l_receiver s"
  "l_receiver (fst (runner_head cfg now r s)) = l_receiver s"
  "l_receiver (fst (runner_heads cfg now rs s)) = l_receiver s"
  "l_receiver (fst (pool_settles cfg now t)) = l_receiver (fst t)"
  "l_receiver (fst (enqueue_start cfg now s)) = l_receiver s"
  "l_receiver (fst (register_next cfg port now s)) = l_receiver s"
  "l_receiver (fst (results cfg now s)) = l_receiver s"
  "l_receiver (fst (look cfg v now s)) = l_receiver s"
proof -
  show c: "l_receiver (fst (main_catch s)) = l_receiver s" for s by (simp add: main_catch_def)
  show g: "l_receiver (fst (getStats cfg s)) = l_receiver s" for s by (simp add: getStats_def)
  show d: "l_receiver (fst (enqueue_done cfg now s)) = l_receiver s" for s by (simp add: enqueue_done_def c g split: option.split)
  show h: "l_receiver (fst (runner_head cfg now r s)) = l_receiver s" for r s by (simp add: runner_head_def Let_def)
  show hs: "l_receiver (fst (runner_heads cfg now rs s)) = l_receiver s" for s
    by (induction rs arbitrary: s) (simp_all add: Let_def h)
  show p: "l_receiver (fst (pool_settles cfg now t)) = l_receiver (fst t)" for t by (simp add: pool_settles_def d)
  have "l_receiver (fst (runner_heads cfg now rs s)) = l_receiver s" for rs s
    by (induction rs arbitrary: s) (simp_all add: Let_def h)
  then show e: "l_receiver (fst (enqueue_start cfg now s)) = l_receiver s"
    by (simp add: enqueue_start_def Let_def c p split: option.split)
  then show "l_receiver (fst (register_next cfg port now s)) = l_receiver s" by (simp add: register_next_def)
  show r: "l_receiver (fst (results cfg now s)) = l_receiver s" for s by (simp add: results_def Let_def c split: option.split)
  show "l_receiver (fst (look cfg v now s)) = l_receiver s" by (simp add: look_def Let_def r split: drain_end.split)
qed

lemma load_step_receiver:
  "l_receiver (fst (load_step cfg i s)) =
     (case i of Delivery j now \<Rightarrow> if open_for_requests (l_phase s) then receive j now (l_receiver s) else l_receiver s
      | _ \<Rightarrow> l_receiver s)"
  by (cases i) (auto split: option.split sum.split runner.split answer.split)

lemma closed_stays: "\<not> open_for_requests (l_phase s) \<Longrightarrow> load_step cfg i s = (s, [])"
  by (cases i) (auto simp: open_for_requests_def split: option.split)

lemma load_test_receiver:
  "\<exists>pre post. is = pre @ post \<and> l_receiver (fst (load_test cfg is)) = receive_all (deliveries pre) no_deliveries \<and>
     (open_for_requests (l_phase (fst (load_test cfg is))) \<longrightarrow> post = [])"
proof (induction "is" rule: rev_induct)
  case Nil
  show ?case by (auto simp: load_test_def load_main_def load_start_def split: option.split)
next
  case (snoc i is')
  let ?s = "fst (load_test cfg is')"
  from snoc obtain pre post where p: "is' = pre @ post" "l_receiver ?s = receive_all (deliveries pre) no_deliveries"
    "open_for_requests (l_phase ?s) \<longrightarrow> post = []" by blast
  show ?case
  proof (cases "open_for_requests (l_phase ?s)")
    case True
    then have "l_receiver (fst (load_test cfg (is' @ [i]))) = receive_all (deliveries (is' @ [i])) no_deliveries" using p
      by (simp add: load_test_snoc load_step_receiver receive_all_append split: load_input.split)
    then show ?thesis by blast
  next
    case False
    then have "fst (load_test cfg (is' @ [i])) = ?s" by (simp add: load_test_snoc closed_stays)
    with p False show ?thesis by (metis append.assoc)
  qed
qed

section \<open>Properties\<close>

text \<open>C40: The load test reports what happened. Whatever the API answers, however the answers, the
  requests to its receiver and the timers interleave: a run that finishes has registered the webhooks
  asked for, has posted each event exactly once and in order, to the webhooks in turn, with every post
  accepted and timed; the jobs and deliveries it prints are those its receiver has been sent so far;
  and unless it has printed that it gave up, at least \<open>N\<close> distinct jobs had been delivered. Without
  an event or without a runner it never gets there.\<close>

theorem load_test_reports_what_happened:
  assumes "load_test cfg is = (s, os)" and "l_phase s = Finished"
  shows "(\<exists>n c. array_length (load_N cfg) = Some n \<and> array_length (load_CONCURRENCY cfg) = Some c \<and> 0 < n \<and> 0 < c \<and>
      posts_to (load_API cfg @ ''/events'') os = map (load_event (load_TENANT cfg) (l_webhookIds s)) [0..<n] \<and>
      length (enqueueLatencies (l_load s)) = n) \<and>
    webhooks_asked cfg (length (l_webhookIds s)) \<and>
    length (posts_to (load_API cfg @ ''/webhooks'') os) = length (l_webhookIds s) \<and>
    (\<exists>pre post. is = pre @ post \<and>
      (let recv = receive_all (deliveries pre) no_deliveries in
       {Prints (L_distinct (length (recvAt recv)) (load_N cfg)), Prints (L_total (length (deliveries pre))),
        Prints (L_duplicates (dupes recv) (duplicate_percent recv))} \<subseteq> set os \<and>
       (Prints L_gave_up \<in> set os \<or> at_least (length (recvAt recv)) (load_N cfg))))"
proof -
  from load_test_ok [of cfg "is"] assms have ok: "all_posted cfg s os" "reported cfg s os" by (simp_all add: turn_ok_def)
  from load_test_receiver [of "is" cfg] assms(1) obtain pre post where
    p: "is = pre @ post" "l_receiver s = receive_all (deliveries pre) no_deliveries" by auto
  have "\<exists>pre post. is = pre @ post \<and>
      (let recv = receive_all (deliveries pre) no_deliveries in
       {Prints (L_distinct (length (recvAt recv)) (load_N cfg)), Prints (L_total (length (deliveries pre))),
        Prints (L_duplicates (dupes recv) (duplicate_percent recv))} \<subseteq> set os \<and>
       (Prints L_gave_up \<in> set os \<or> at_least (length (recvAt recv)) (load_N cfg)))"
    using p(1) ok(2) keyed_ids(4) [of "deliveries pre"] unfolding reported_def p(2) by (auto simp: Let_def)
  with ok(1) show ?thesis by (auto simp: all_posted_def registered_all_def sent_events_def)
qed

text \<open>A load test of two events: one runner, one webhook, three deliveries of two jobs.\<close>

definition small_test :: load_env where
  "small_test = \<lparr>load_API = ''http://localhost:3000'', load_N = Num 2, load_CONCURRENCY = Num 1, load_WEBHOOKS = Num 1,
     load_RECEIVER_PORT = Num 4300, load_TENANT = ''loadtest-0''\<rparr>"

definition small_run :: "load_input list" where
  "small_run =
     [Bound 10, Registered (Answer 201 (Some (JObj [(''id'', JStr ''w'')]))) 20,
      Posted 0 (Answer 202 (Some (JObj [(''jobId'', JStr ''a'')]))) 30,
      Delivery (Some ''a'') 35, Posted 0 (Answer 202 (Some (JObj [(''jobId'', JStr ''b'')]))) 40,
      Delivery (Some ''a'') 45, Delivery (Some ''b'') 50,
      Stats (Answer 200 (Some (JObj [(''ready'', JNum 0), (''inflight'', JNum 0), (''delayed'', JNum 0)]))) 60]"

theorem load_test_reports_what_happened_witness:
  "\<exists>os. load_test small_test small_run = (fst (load_test small_test small_run), os) \<and>
     posts_to ''http://localhost:3000/events'' os = map (load_event ''loadtest-0'' [Some (JStr ''w'')]) [0..<2] \<and>
     Prints (L_duplicates 1 (100 / 3)) \<in> set os"
proof -
  have run: "l_phase (fst (load_test small_test small_run)) = Finished \<and>
      l_webhookIds (fst (load_test small_test small_run)) = [Some (JStr ''w'')] \<and>
      Prints (L_duplicates 1 (100 / 3)) \<in> set (snd (load_test small_test small_run))"
    by (simp add: load_test_def small_run_def small_test_def load_main_def port_number_def load_start_def before_def
      register_next_def post_def enqueue_start_def Let_def pool_start_def runner_head_def pool_move_def pool_settles_def
      pool_resolves_def posted_def enqueue_done_def summarize_def getStats_def percentile_def look_def outstanding_def
      drain_turn_def results_def open_for_requests_def receive_def no_deliveries_def end_to_end_def List.map_filter_def
      dupes_def duplicate_percent_def)
  from load_test_reports_what_happened [OF prod.collapse [symmetric] conjunct1 [OF run]] run show ?thesis
    by (intro exI [of _ "snd (load_test small_test small_run)"]) (auto simp: small_test_def)
qed

text \<open>Without a runner the script fails: the pool resolves at once, no event has been posted, and the
  summary of no latencies throws.\<close>

theorem no_runner_exits:
  assumes "array_length (load_N cfg) = Some n" and "array_length (load_CONCURRENCY cfg) = Some 0" and "enqueueLatencies (l_load s) = []"
  shows "snd (enqueue_start cfg now s) = [Prints (L_registered (length (l_webhookIds s))), Prints L_error, Exits 1]"
  using assms by (simp add: enqueue_start_def Let_def pool_settles_def pool_resolves_def pool_start_def enqueue_done_def
      summarize_def main_catch_def)

text \<open>A post that is not accepted fails the script.\<close>

theorem refused_post_exits:
  assumes "l_phase s = Posting" and "r < length (runners (l_pool s))" and "runners (l_pool s) ! r = Busy n"
    and "\<not> (200 \<le> status \<and> status \<le> 299)"
  shows "snd (load_step cfg (Posted r (Answer status b) now) s) = [Prints L_error, Exits 1]"
  using assms by (simp add: posted_def post_def main_catch_def)

end
