(* ===== verification/Lifecycle.thy ===== *)
theory Lifecycle
  imports Processes Json Jobs_Safety
begin

text \<open>
  The life of the three processes, \<open>src/src/entrypoints\<close>: how they start, what a signal does to them,
  and how they end; and the connections and the log they set up, \<open>db.ts\<close>, \<open>redis.ts\<close> and
  \<open>logger.ts\<close>. The main loop and the shutdown are two asynchronous functions of one process: their
  answers come in any order, and the process is gone when \<open>process.exit\<close> is called, whatever the
  loop was waiting for.
\<close>

section \<open>Connections and log\<close>

record pool_options =
  po_max :: nat
  po_idleTimeoutMillis :: ms
  po_connectionTimeoutMillis :: ms

definition pool :: pool_options where
  "pool = \<lparr>po_max = 10, po_idleTimeoutMillis = 30000, po_connectionTimeoutMillis = 5000\<rparr>"

text \<open>\<open>query\<close> only adds a log line to the pool's: it resolves and rejects as the statement does.\<close>

definition query :: "stmt \<Rightarrow> resp js" where
  "query st = await DateNow (\<lambda>startedAt. await (Sql st) (\<lambda>result. await DateNow (\<lambda>now. Ret result)))"

record redis_options =
  ro_maxRetriesPerRequest :: "nat option"
  ro_retryStrategy :: "nat \<Rightarrow> ms"

definition retry_strategy :: "nat \<Rightarrow> ms" where
  "retry_strategy attempt = min (int attempt * 200) 2000"

definition createRedis :: "bool \<Rightarrow> redis_options" where
  "createRedis blocking = \<lparr>ro_maxRetriesPerRequest = (if blocking then None else Some 3), ro_retryStrategy = retry_strategy\<rparr>"

datatype level = Debug | Info | Warn | Error

fun level_name :: "level \<Rightarrow> string" where
  "level_name Debug = ''debug''"
| "level_name Info = ''info''"
| "level_name Warn = ''warn''"
| "level_name Error = ''error''"

datatype stream = Stdout | Stderr

text \<open>\<open>{...base, ...fields}\<close>: a later value of a key replaces the earlier one in its place.\<close>

definition spread :: "(string \<times> json) list \<Rightarrow> (string \<times> json) list \<Rightarrow> (string \<times> json) list" where
  "spread base extra =
     map (\<lambda>(k, v). (k, the_default v (map_of (rev extra) k))) base @
     filter (\<lambda>(k, v). k \<notin> fst ` set base) extra"

definition emit :: "ms \<Rightarrow> string \<Rightarrow> level \<Rightarrow> string \<Rightarrow> (string \<times> json) list \<Rightarrow> stream \<times> json" where
  "emit now scope lvl m extra =
     (if lvl = Error \<or> lvl = Warn then Stderr else Stdout,
      JObj (spread [(''ts'', JDate now), (''level'', JStr (level_name lvl)), (''scope'', JStr scope), (''message'', JStr m)] extra))"

section \<open>Closing down\<close>

text \<open>What a shutdown waits for: a command of the platform, the closing of a connection, of the pool and
  of the HTTP server. Its value is the status given to \<open>process.exit\<close>.\<close>

datatype life_cmd =
    Call eff
  | Quit string
  | End_pool
  | Close_server
  | Register_routes
  | Listen int

type_synonym 'a life = "(life_cmd, resp, 'a) prog"

definition await_life :: "life_cmd \<Rightarrow> (resp \<Rightarrow> 'a life) \<Rightarrow> 'a life" where
  "await_life c k = Do c (\<lambda>r. if rejected r then Throw (Failure (reason r)) else k r)"

primrec lift_js :: "'a js \<Rightarrow> 'a life" where
  "lift_js (Ret a) = Ret a"
| "lift_js (Throw e) = Throw e"
| "lift_js (Do c k) = Do (Call c) (\<lambda>r. lift_js (k r))"

definition worker_shutdown :: "nat life" where
  "worker_shutdown =
     catch_prog
       (await_life (Quit ''consume'') (\<lambda>_. await_life (Quit ''command'') (\<lambda>_. await_life End_pool (\<lambda>_. Ret 0))))
       (\<lambda>err. Ret 1)"

definition scheduler_exit :: "lock option \<Rightarrow> nat life" where
  "scheduler_exit l =
     catch_prog
       (bind_prog (lift_js (scheduler_shutdown l)) (\<lambda>_.
        await_life (Quit ''scheduler'') (\<lambda>_. await_life End_pool (\<lambda>_. Ret 0))))
       (\<lambda>err. Ret 1)"

definition api_shutdown :: "nat life" where
  "api_shutdown =
     catch_prog
       (await_life Close_server (\<lambda>_. await_life (Quit ''api'') (\<lambda>_. await_life End_pool (\<lambda>_. Ret 0))))
       (\<lambda>err. Ret 1)"

text \<open>\<open>start\<close> of the API: the exit status, or none when the server is listening.\<close>

definition api_start :: "int \<Rightarrow> nat option life" where
  "api_start port =
     catch_prog (await_life Register_routes (\<lambda>_. await_life (Listen port) (\<lambda>_. Ret None))) (\<lambda>err. Ret (Some 1))"

section \<open>The worker process\<close>

text \<open>\<open>wk_loop\<close> is the rest of the current turn of the consume loop; none at its head.\<close>

record worker =
  wk_running :: bool
  wk_loop :: "unit js option"
  wk_over :: bool
  wk_shutdown :: "nat life option"
  wk_exit :: "nat option"

definition worker_started :: worker where
  "worker_started = \<lparr>wk_running = True, wk_loop = None, wk_over = False, wk_shutdown = None, wk_exit = None\<rparr>"

datatype occurrence = Turn | Reply resp | Signal | Shutdown_reply resp

fun worker_step :: "config \<Rightarrow> (string \<Rightarrow> string \<Rightarrow> string) \<Rightarrow> occurrence \<Rightarrow> worker \<Rightarrow> worker" where
  "worker_step cfg hmac Turn s =
     (if wk_exit s \<noteq> None \<or> wk_over s \<or> \<not> Option.is_none (wk_loop s) then s
      else if wk_running s then s\<lparr>wk_loop := Some (consume_one cfg hmac)\<rparr>
      else s\<lparr>wk_over := True\<rparr>)"
| "worker_step cfg hmac (Reply r) s =
     (if wk_exit s \<noteq> None then s
      else case wk_loop s of
        Some (Do c k) \<Rightarrow> s\<lparr>wk_loop := (case k r of Do c' k' \<Rightarrow> Some (Do c' k') | _ \<Rightarrow> None)\<rparr>
      | _ \<Rightarrow> s)"
| "worker_step cfg hmac Signal s =
     (if wk_exit s \<noteq> None \<or> \<not> Option.is_none (wk_shutdown s) then s
      else s\<lparr>wk_running := False, wk_shutdown := Some worker_shutdown\<rparr>)"
| "worker_step cfg hmac (Shutdown_reply r) s =
     (if wk_exit s \<noteq> None then s
      else case wk_shutdown s of
        Some (Do c k) \<Rightarrow> s\<lparr>wk_shutdown := Some (k r), wk_exit := (case k r of Ret n \<Rightarrow> Some n | _ \<Rightarrow> None)\<rparr>
      | _ \<Rightarrow> s)"

section \<open>The scheduler process\<close>

text \<open>The module variable \<open>lock\<close> changes when the first half of a tick is done; a shutdown reads it when
  the signal comes.\<close>

datatype stage = At_head | Leading "lock option js" | Sweeping "unit js" | Sleeping | Over

record scheduler =
  sc_running :: bool
  sc_lock :: "lock option"
  sc_stage :: stage
  sc_shutdown :: "nat life option"
  sc_exit :: "nat option"

definition scheduler_started :: scheduler where
  "scheduler_started = \<lparr>sc_running = True, sc_lock = None, sc_stage = At_head, sc_shutdown = None, sc_exit = None\<rparr>"

fun resting :: "stage \<Rightarrow> bool" where
  "resting At_head = True"
| "resting Sleeping = True"
| "resting _ = False"

definition tick_over :: "scheduler \<Rightarrow> bool \<Rightarrow> stage" where
  "tick_over s failed = (if failed \<and> \<not> sc_running s then Over else Sleeping)"

definition lead_goes_on :: "lock option js \<Rightarrow> scheduler \<Rightarrow> scheduler" where
  "lead_goes_on p s =
     (case p of
        Ret l \<Rightarrow> s\<lparr>sc_lock := l, sc_stage := (if l = None then tick_over s False else Sweeping sweep)\<rparr>
      | Throw e \<Rightarrow> s\<lparr>sc_stage := tick_over s True\<rparr>
      | Do c k \<Rightarrow> s\<lparr>sc_stage := Leading p\<rparr>)"

definition sweep_goes_on :: "unit js \<Rightarrow> scheduler \<Rightarrow> scheduler" where
  "sweep_goes_on p s =
     (case p of
        Ret _ \<Rightarrow> s\<lparr>sc_stage := tick_over s False\<rparr>
      | Throw e \<Rightarrow> s\<lparr>sc_stage := tick_over s True\<rparr>
      | Do c k \<Rightarrow> s\<lparr>sc_stage := Sweeping p\<rparr>)"

fun scheduler_step :: "occurrence \<Rightarrow> scheduler \<Rightarrow> scheduler" where
  "scheduler_step Turn s =
     (if sc_exit s \<noteq> None \<or> \<not> resting (sc_stage s) then s
      else if sc_running s then lead_goes_on (lead (sc_lock s)) s
      else s\<lparr>sc_stage := Over\<rparr>)"
| "scheduler_step (Reply r) s =
     (if sc_exit s \<noteq> None then s
      else case sc_stage s of
        Leading (Do c k) \<Rightarrow> lead_goes_on (k r) s
      | Sweeping (Do c k) \<Rightarrow> sweep_goes_on (k r) s
      | _ \<Rightarrow> s)"
| "scheduler_step Signal s =
     (if sc_exit s \<noteq> None \<or> \<not> Option.is_none (sc_shutdown s) then s
      else s\<lparr>sc_running := False, sc_shutdown := Some (scheduler_exit (sc_lock s))\<rparr>)"
| "scheduler_step (Shutdown_reply r) s =
     (if sc_exit s \<noteq> None then s
      else case sc_shutdown s of
        Some (Do c k) \<Rightarrow> s\<lparr>sc_shutdown := Some (k r), sc_exit := (case k r of Ret n \<Rightarrow> Some n | _ \<Rightarrow> None)\<rparr>
      | _ \<Rightarrow> s)"

section \<open>A turn of the process is a turn of its loop\<close>

definition answer_worker :: "config \<Rightarrow> (string \<Rightarrow> string \<Rightarrow> string) \<Rightarrow> resp list \<Rightarrow> worker \<Rightarrow> worker" where
  "answer_worker cfg hmac rs s = fold (\<lambda>r. worker_step cfg hmac (Reply r)) rs s"

definition answer_scheduler :: "resp list \<Rightarrow> scheduler \<Rightarrow> scheduler" where
  "answer_scheduler rs s = fold (\<lambda>r. scheduler_step (Reply r)) rs s"

lemma answer_simps [simp]:
  "answer_worker cfg hmac [] s = s" "answer_worker cfg hmac (r # rs) s = answer_worker cfg hmac rs (worker_step cfg hmac (Reply r) s)"
  "answer_scheduler [] t = t" "answer_scheduler (r # rs) t = answer_scheduler rs (scheduler_step (Reply r) t)"
  by (simp_all add: answer_worker_def answer_scheduler_def)

lemma goes_on [simp]:
  "sweep_goes_on (Ret u) s = s\<lparr>sc_stage := tick_over s False\<rparr>" "sweep_goes_on (Throw e) s = s\<lparr>sc_stage := tick_over s True\<rparr>"
  "sweep_goes_on (Do c k) s = s\<lparr>sc_stage := Sweeping (Do c k)\<rparr>"
  "lead_goes_on (Ret l) s = s\<lparr>sc_lock := l, sc_stage := (if l = None then tick_over s False else Sweeping sweep)\<rparr>"
  "lead_goes_on (Throw e) s = s\<lparr>sc_stage := tick_over s True\<rparr>" "lead_goes_on (Do c' k') s = s\<lparr>sc_stage := Leading (Do c' k')\<rparr>"
  by (simp_all add: sweep_goes_on_def lead_goes_on_def)

lemma sweep_turn:
  assumes "play (catch_prog (seq q (Ret l)) (\<lambda>err. Ret l)) rs = (tr, Done l')" and "sc_exit s = None" and "sc_running s"
  shows "l' = l \<and> answer_scheduler (map snd tr) (sweep_goes_on q s) = s\<lparr>sc_stage := Sleeping\<rparr>"
  using assms
proof (induction q arbitrary: rs tr s)
  case (Do c k)
  then obtain r rs' tr' where t: "tr = (c, r) # tr'" "play (catch_prog (seq (k r) (Ret l)) (\<lambda>err. Ret l)) rs' = (tr', Done l')"
    by (cases rs) (auto split: prod.splits)
  from Do.IH [OF _ t(2), of "s\<lparr>sc_stage := Sweeping (Do c k)\<rparr>"] Do.prems(2,3) t(1) show ?case by simp
qed (auto simp: tick_over_def)

lemma lead_turn:
  assumes "play (catch_prog (bind_prog p (\<lambda>l'. if l' = None then Ret None else catch_prog (seq sweep (Ret l')) (\<lambda>err. Ret l')))
      (\<lambda>err. Ret l)) rs = (tr, Done l')"
    and "sc_exit s = None" and "sc_running s" and "sc_lock s = l"
  shows "answer_scheduler (map snd tr) (lead_goes_on p s) = s\<lparr>sc_lock := l', sc_stage := Sleeping\<rparr>"
  using assms
proof (induction p arbitrary: rs tr s)
  case (Do c k)
  then obtain r rs' tr' where t: "tr = (c, r) # tr'"
    "play (catch_prog (bind_prog (k r) (\<lambda>l'. if l' = None then Ret None else catch_prog (seq sweep (Ret l')) (\<lambda>err. Ret l')))
      (\<lambda>err. Ret l)) rs' = (tr', Done l')"
    by (cases rs) (auto split: prod.splits)
  from Do.IH [OF _ t(2), of "s\<lparr>sc_stage := Leading (Do c k)\<rparr>"] Do.prems(2-4) t(1) show ?case by simp
next
  case (Ret l2)
  show ?case
  proof (cases l2)
    case None
    with Ret show ?thesis by (auto simp: tick_over_def)
  next
    case (Some held)
    have caught: "catch_prog (catch_prog q (\<lambda>err. Ret (Some held))) h = catch_prog q (\<lambda>err. Ret (Some held))"
      for q :: "lock option js" and h by (induction q) auto
    from Ret.prems(1) Some have "play (catch_prog (seq sweep (Ret l2)) (\<lambda>err. Ret l2)) rs = (tr, Done l')"
      by (simp add: caught)
    from sweep_turn [OF this, of "s\<lparr>sc_lock := l2\<rparr>"] Ret.prems(2-4) Some show ?thesis
      by (simp add: sweep_def await_def)
  qed
qed (auto simp: tick_over_def)

lemma consume_turn:
  assumes "play p rs = (tr, Done ())" and "wk_exit s = None" and "tr \<noteq> []"
  shows "answer_worker cfg hmac (map snd tr) (s\<lparr>wk_loop := Some p\<rparr>) = s\<lparr>wk_loop := None\<rparr>"
  using assms
proof (induction p arbitrary: rs tr s)
  case (Do c k)
  then obtain r rs' tr' where t: "tr = (c, r) # tr'" "play (k r) rs' = (tr', Done ())"
    by (cases rs) (auto split: prod.splits)
  show ?case
  proof (cases "k r")
    case (Do c' k')
    with t(2) have "tr' \<noteq> []" by (cases rs') (auto split: prod.splits)
    from Do.IH [OF rangeI t(2) _ this, of "s\<lparr>wk_loop := Some (Do c k)\<rparr>"] Do.prems(2) t(1) Do show ?thesis by simp
  qed (use t Do.prems(2) in auto)
qed auto

section \<open>Properties\<close>

text \<open>An undisturbed turn of the scheduler is one \<open>tick\<close>: on the same answers it leaves the same lock and
  goes to sleep.\<close>

theorem scheduler_turn_is_tick:
  assumes "play (tick (sc_lock s)) rs = (tr, Done l')" and "sc_exit s = None" and "sc_running s" and "resting (sc_stage s)"
  shows "answer_scheduler (map snd tr) (scheduler_step Turn s) = s\<lparr>sc_lock := l', sc_stage := Sleeping\<rparr>"
  using lead_turn [OF assms(1) [unfolded tick_def] assms(2,3) refl] assms(2-4) by simp

text \<open>An undisturbed turn of the worker is one \<open>consume_one\<close>, back at the head of its loop.\<close>

theorem worker_turn_is_consume_one:
  assumes "play (consume_one cfg hmac) rs = (tr, Done ())" and "wk_exit s = None" and "wk_running s" and "\<not> wk_over s"
    and "wk_loop s = None"
  shows "answer_worker cfg hmac (map snd tr) (worker_step cfg hmac Turn s) = s"
proof -
  have "tr \<noteq> []" using assms(1)
    by (cases rs) (auto simp: consume_one_def reserve_def await_def split: prod.splits)
  from consume_turn [OF assms(1,2) this] assms(2-5) show ?thesis by simp
qed

text \<open>After the signal no turn begins: a loop at its head stays there, and the scheduler sends nothing
  more once its tick is over, whatever happens.\<close>

theorem no_turn_after_the_signal:
  assumes "wk_exit s = None" and "wk_loop s = None"
  shows "wk_loop (fold (worker_step cfg hmac) os (worker_step cfg hmac Signal (s\<lparr>wk_shutdown := None\<rparr>))) = None"
proof -
  have "wk_loop (fold (worker_step cfg hmac) os t) = None" if "\<not> wk_running t" "wk_loop t = None" for t
    using that
  proof (induction os arbitrary: t)
    case (Cons x os)
    have "\<not> wk_running (worker_step cfg hmac x t) \<and> wk_loop (worker_step cfg hmac x t) = None"
      using Cons.prems by (cases x) (auto split: option.splits prog.splits)
    with Cons.IH show ?case by simp
  qed simp
  then show ?thesis using assms by simp
qed

text \<open>A clean exit means that everything was closed, in order; the scheduler hands its lock over first,
  and a failing hand-over skips the rest.\<close>

primrec answered :: "'a life \<Rightarrow> resp list \<Rightarrow> 'a life" where
  "answered (Ret a) = (\<lambda>rs. Ret a)"
| "answered (Throw e) = (\<lambda>rs. Throw e)"
| "answered (Do c k) = (\<lambda>rs. case rs of [] \<Rightarrow> Do c k | r # rs \<Rightarrow> answered (k r) rs)"

theorem exit_statuses:
  "answered worker_shutdown [r1, r2, r3] = Ret 0 \<longleftrightarrow> \<not> rejected r1 \<and> \<not> rejected r2 \<and> \<not> rejected r3"
  "answered api_shutdown [r1, r2, r3] = Ret 0 \<longleftrightarrow> \<not> rejected r1 \<and> \<not> rejected r2 \<and> \<not> rejected r3"
  "rejected r1 \<Longrightarrow> answered (scheduler_exit (Some l)) [r1] = Ret 1"
  "\<exists>k. scheduler_exit (Some l) = Do (Call (Eval RELEASE_SCRIPT [l_key l] [VStr (l_token l)])) k"
  by (auto simp: worker_shutdown_def api_shutdown_def scheduler_exit_def await_life_def scheduler_shutdown_def release_def
      await_def split: resp.splits elim: rejected.elims)

text \<open>The shutdown does not wait for the job in hand: the worker closes its connections and exits with
  status 0 while the request to the endpoint is still out.\<close>

theorem shutdown_cuts_the_delivery:
  "let s = fold (worker_step sample_config (\<lambda>_ _. ''mac''))
       ([Turn] @ map Reply ([Rep (RBulk (VStr ''j'')), Time 5, Rep (RInt 1), JobRows [sample_row Queued 0]] @ take 10 (sample_replies 200)) @
        [Signal, Shutdown_reply (Rep (RInt 1)), Shutdown_reply (Rep (RInt 1)), Shutdown_reply (Rep (RInt 1))]) worker_started
   in wk_exit s = Some 0 \<and> (case wk_loop s of Some (Do (Fetch req) k) \<Rightarrow> True | _ \<Rightarrow> False)"
  by code_simp

text \<open>The reconnection delay grows to two seconds and no further; warnings and errors go to standard
  error, and a line has the level it was logged at unless the caller's fields say otherwise.\<close>

theorem reconnects_within_two_seconds: "0 \<le> retry_strategy n \<and> retry_strategy n \<le> 2000 \<and> retry_strategy n \<le> retry_strategy (Suc n)"
  by (simp add: retry_strategy_def)

theorem log_lines:
  "fst (emit now scope lvl m extra) = Stderr \<longleftrightarrow> lvl \<in> {Warn, Error}"
  "''level'' \<notin> fst ` set extra \<Longrightarrow> field ''level'' (snd (emit now scope lvl m extra)) = Some (JStr (level_name lvl))"
proof -
  assume "''level'' \<notin> fst ` set extra"
  then have "map_of (rev extra) ''level'' = None" by (simp add: map_of_eq_None_iff)
  then show "field ''level'' (snd (emit now scope lvl m extra)) = Some (JStr (level_name lvl))"
    by (simp add: emit_def spread_def)
qed (auto simp: emit_def)

end
