(* ===== verification/Spec2Isabelle.thy ===== *)
theory Spec2Isabelle
  imports End_To_End History Dto Config Migrate Dashboard_Safety Loadtest_Main Lifecycle
begin

text \<open>
  \<^bold>\<open>Verification of the webhook delivery platform\<close>

  \<^bold>\<open>The program.\<close> Producers post events to an HTTP API (\<open>src/src/entrypoints/api.ts\<close>,
  \<open>src/src/routes.ts\<close>, the controllers). An event becomes a job: a row in Postgres and an id on a
  queue in Redis. Workers (\<open>entrypoints/worker.ts\<close>) claim ids from the queue and send the event to
  the webhook's endpoint, signed; a failure is retried after a backoff, and a job that failed for
  good goes to a dead-letter queue, from which an operator can replay it. One scheduler at a time
  (\<open>entrypoints/scheduler.ts\<close>), elected by a lock, promotes the jobs whose time has come and takes
  back the claims of workers that died. Each webhook has a circuit breaker and a rate limit; an
  idempotency key makes a retried post answer with the job of the first one. Postgres is the record
  of the jobs and Redis the schedule; nothing ties the two together but the order in which the code
  writes to them, and a process may die between any two writes. Most of this development is about
  what that order guarantees.

  Two clients use the API: the operators' dashboard (\<open>src/web\<close>, a React application behind a proxy) and a
  load test (\<open>src/scripts/loadtest.mjs\<close>).

  \<^bold>\<open>How code is represented.\<close> An \<open>async\<close> function, and a Lua script, is a tree of commands
  (theory \<open>Prog\<close>): it returns, throws, or issues one command and goes on with the reply. Every
  \<open>await\<close> is one command, and so is every reading of the clock or of randomness (\<open>Effects\<close>). Three
  readings of a tree are used: the replies are arbitrary (\<open>Traces\<close>: \<open>play\<close> and the verification
  conditions \<open>wp\<close>); they come from a Redis server and the tables (\<open>Runtime\<close>: \<open>run\<close>); and many
  trees run interleaved on the same stores (\<open>Platform\<close>: \<open>execution\<close>).

  \<^bold>\<open>Interfaces (locales).\<close> \<open>Redis\<close> states the documented behaviour of each command the code sends,
  one locale per data type, joined in \<open>redis_server\<close>, and interprets them on a reference server
  with lists, sorted sets, hashes, strings and expiry. \<open>Json\<close> does the same for the schema validator
  of the web framework (\<open>validator\<close>, and \<open>text_validator\<close> for what it does with texts). \<open>Prelude\<close> has \<open>simulation\<close>, the contract between a component and its
  specification, interpreted by the breaker, the lock and the slots.

  \<^bold>\<open>Theories and the code they model.\<close>
  \<^item> \<open>Prelude\<close>, \<open>Prog\<close>, \<open>Effects\<close>, \<open>Traces\<close>: shared facts; programs as trees; the commands; plays. \<open>Prog\<close>
    holds the errors of \<open>src/src/errors.ts\<close>, \<open>Types\<close> the shapes of \<open>types.ts\<close>.
  \<^item> \<open>Queue\<close>: \<open>queue.ts\<close>, the five scripts and all functions. \<open>Queue_Model\<close>: the queue as a record of five
    structures with a pure operation per script, and the refinement. \<open>Queue_Safety\<close>: no job is in two
    places, none is promoted early, expired claims come back.
  \<^item> \<open>Backoff\<close>, \<open>RateLimit\<close>, \<open>Circuit\<close>, \<open>Lock\<close>, \<open>Idempotency\<close>: the files of these names in \<open>src/src\<close>,
    each with its scripts, its pure specification and what the specification promises: bounds of the
    delay; the token budget of every window; trips, cooldown and probe; one owner at a time and
    recovery from a crashed one; one winner per key.
  \<^item> \<open>Webhooks\<close>, \<open>Deliveries\<close>, \<open>Jobs\<close>: the repositories and services under \<open>src/src/modules\<close>.
    \<open>process\<close> of \<open>job.service.ts\<close> is \<open>process\<close>, \<open>process_live\<close> (the row is live), \<open>settle\<close> (after the
    delivery) and \<open>defer_job\<close> (a gate is closed).
  \<^item> \<open>Delivery_Safety\<close>, \<open>Jobs_Safety\<close>, \<open>Enqueue_Safety\<close>: what every run of \<open>deliver\<close>, \<open>process\<close>,
    \<open>enqueue\<close> and \<open>replay\<close> guarantees, whatever it is answered: what is sent before what, and never sent.
  \<^item> \<open>Database\<close>: the tables of \<open>src/migrations/001_init.sql\<close> and the SQL statements of the repositories,
    with the constraints they can break and the texts they refuse.
  \<^item> \<open>Json\<close>, \<open>Http\<close>, \<open>Http_Safety\<close>: the schemas (\<open>*.dto.ts\<close>), the handlers, the error boundary, the two routes
    of \<open>api.ts\<close>; what a client can see and what the stores can be sent. \<open>Dto\<close>: the TypeScript interfaces of
    the contracts (\<open>*.dto.ts\<close>, \<open>types.ts\<close>), which nothing checks at run time, as types of JSON values; what
    passed a schema, and what a route answers, has the declared type.
  \<^item> \<open>Processes\<close>: the loop of the worker, the tick of the scheduler.
  \<^item> \<open>Platform\<close>: any number of requests, workers and schedulers at once, with lost commands, lost replies
    and crashes; the two stores agree in every reachable state, and a job, also one enqueued on the way, leaves
    the queue only when it is finished. \<open>Settlement\<close>: what one run of \<open>process\<close> leaves in both stores, and two crashes
    after which they disagree for good, and a late worker that overwrites a result. \<open>Progress\<close>: every
    function returns. \<open>History\<close>: in every execution rows keep their event, the audit trail only grows, no
    row enters the state \<open>failed\<close>, and an attempt is charged only for a request that was sent.
  \<^item> \<open>Healthy\<close>: total correctness. \<open>lands\<close> says that with no command failing, and enough replies, a function
    returns and leaves a stated world; there is one contract for each function on the path of a
    delivery, from the gates to the release of the claim. \<open>End_To_End\<close> composes them through the two stores:
    an accepted event is delivered, a deliverable job is settled, a failed one comes back. It also has the
    creation that fails: its slot is gone from the store and its error is passed on.
  \<^item> \<open>Config\<close>: \<open>config.ts\<close>, with JavaScript's \<open>Number\<close>. \<open>Migrate\<close>: \<open>migrate.ts\<close> with its transactions.
  \<^item> \<open>Lifecycle\<close>: the three processes as they start, take signals and exit beside their loops
    (\<open>entrypoints\<close>), and \<open>db.ts\<close>, \<open>redis.ts\<close>, \<open>logger.ts\<close>; an undisturbed turn of a process is a turn of its
    loop in \<open>Processes\<close>.
  \<^item> \<open>Api_Client\<close>: the dashboard's \<open>api.ts\<close>, its proxy, and the paths the controllers register: what one
    side sends the other accepts and reads back. \<open>Dashboard_View\<close>: the components as functions to trees
    of elements with their controls. \<open>Dashboard\<close>: \<open>hooks.ts\<close>, \<open>App.tsx\<close> and the state of the components as a
    step function. \<open>Dashboard_Safety\<close>: visits, which are sequences of uses of controls that are on the
    screen, ticks of timers that are set and answers to requests under way, in any order; what holds in
    every visit. Users may type anything; the answers are those that \<open>respond\<close> gives to the very request
    from stores that agree (\<open>served\<close>), so the bounds on what is shown follow from the server's code.
  \<^item> \<open>Loadtest\<close>: the receiver, the pool of bounded concurrency under every interleaving, the drain loop
    and the reported numbers. \<open>Loadtest_Main\<close>: \<open>main\<close> of the script and its settings as a step function over
    the answers, deliveries and timers it waits for, in any order; what it has posted, and that its
    report is true, in every run.

  \<^bold>\<open>Bounds and fuel.\<close> The loop of \<open>replay\<close> runs a given number of times in the source and is a
  primitive recursion; the loops of the worker and the scheduler run until the process is told to
  stop and take the number of turns as an argument, over which the theorems quantify. A play or run
  that has no reply left is \<open>Cut\<close>, the death of the process; \<open>every_function_returns\<close> gives the number
  of replies after which none is cut (21, 6 and 3000). The contracts
  of \<open>Healthy\<close> are total: a turn of the worker ends within 24 replies, a post of an event within 10 and
  a tick of the scheduler within 6. The pool of the load test moves at most
  \<open>2 * items + concurrency\<close> times, and its drain loop looks at the queue at most 602 times.

  \<^bold>\<open>Abstractions.\<close> Timestamps are whole milliseconds; Lua and JavaScript numbers are integers or exact
  rationals, without the rounding of doubles. A payload is its serialised text, a date in JSON its
  instant. A key of Redis is gone at its deadline, where the server drops it in the millisecond after. Ids in the tables are texts; that Postgres rejects a malformed UUID is left out (the
  schemas of the API check it). Log calls are left out: nothing reads them. The views leave out inline
  styles and React keys, and the state machine React's batching and the double effects of its
  development mode; an open drawer covers the page, as its style sheet says. A query string is its
  decoded keys and texts.

  \<^bold>\<open>Parameters.\<close> The HMAC, the URL parser, the request validator and the SQL of a migration are
  functions of other packages or of data files and are arguments of the definitions that use them.
  What the \<open>JSONB\<close> column of the payload gives back for a text, if it takes it, is the field \<open>jsonb\<close> of the
  tables, which no statement changes and of which nothing is assumed.
  Routing, the parsing of requests and the sending of responses are the web framework's.

  \<^bold>\<open>Conditions.\<close> The breaker's theorems hold while its state is kept, an hour after the last change; the
  limiter's for calls at non-decreasing times on one clock (\<open>clock_skew_mints_tokens\<close> shows what
  happens otherwise); the total ones of \<open>Healthy\<close> and \<open>End_To_End\<close> while commands are answered and the
  endpoint's answer can be stored (\<open>nul_answer_is_not_counted\<close> shows what happens otherwise).

  \<^bold>\<open>Not modelled.\<close> The clients of Postgres and Redis behind \<open>db.ts\<close> and \<open>redis.ts\<close>, the loading of \<open>.env\<close>
  files, the mounting of the dashboard (\<open>src/web/src/main.tsx\<close>) and its style sheet: calls into other
  packages, or data, with no logic of their own. The load test reads the clock once a turn of its
  event loop, and the rounding and layout of the lines it prints are left out.
\<close>

end
